(* ===== verification/Prelude.thy ===== *)
theory Prelude
  imports Main "HOL-Library.Sublist"
begin

text \<open>
  What every component shares: characters and C strings as character lists, the
  \<^verbatim>\<open>printf\<close> conversions the program uses (\<^verbatim>\<open>%d\<close>, \<^verbatim>\<open>%zu\<close>, \<^verbatim>\<open>%02d\<close>, \<^verbatim>\<open>%04d\<close>), the C library
  string functions on NUL-terminated text (\<^verbatim>\<open>strstr\<close>, \<^verbatim>\<open>strncmp\<close>, \<^verbatim>\<open>snprintf\<close>,
  \<^verbatim>\<open>strncpy\<close>, \<^verbatim>\<open>strtol\<close>), and the lemmas about them that more than one component needs.
  A \<^typ>\<open>char\<close> is a byte; a C buffer is a list of bytes and \<open>cstr\<close> reads the string it holds.
\<close>

named_theorems text_len \<comment> \<open>lengths of formatted text\<close>
named_theorems text_chars \<comment> \<open>which characters a formatted text can hold\<close>

section \<open>Characters\<close>

abbreviation NUL :: char where "NUL \<equiv> CHR 0x00"
abbreviation TAB :: char where "TAB \<equiv> CHR 0x09"
abbreviation LF :: char where "LF \<equiv> CHR 0x0A"
abbreviation CR :: char where "CR \<equiv> CHR 0x0D"
abbreviation QUOTE :: char where "QUOTE \<equiv> CHR 0x27"
abbreviation BACKSLASH :: char where "BACKSLASH \<equiv> CHR 0x5C"

text \<open>\<^verbatim>\<open>[[:space:]]\<close> and \<^verbatim>\<open>[[:digit:]]\<close> in the C locale.\<close>

definition isspace :: "char \<Rightarrow> bool" where
  "isspace c \<longleftrightarrow> c \<in> {CHR 0x20, CHR 0x09, CHR 0x0A, CHR 0x0B, CHR 0x0C, CHR 0x0D}"

definition isdigit :: "char \<Rightarrow> bool" where
  "isdigit c \<longleftrightarrow> c \<in> set ''0123456789''"

lemma isspace_NUL [simp]: "\<not> isspace NUL"
  by (simp add: isspace_def)

section \<open>Strings in buffers\<close>

definition cstr :: "string \<Rightarrow> string" where
  "cstr b = takeWhile (\<lambda>c. c \<noteq> NUL) b"

lemma cstr_length_le [simp]: "length (cstr b) \<le> length b"
  by (simp add: cstr_def length_takeWhile_le)

lemma cstr_no_NUL [simp]: "NUL \<notin> set (cstr b)"
  by (auto simp: cstr_def dest: set_takeWhileD)

lemma cstr_id: "NUL \<notin> set s \<Longrightarrow> cstr s = s"
  by (induction s) (auto simp: cstr_def)

lemma cstr_append_NUL: "NUL \<notin> set s \<Longrightarrow> cstr (s @ NUL # t) = s"
  by (induction s) (auto simp: cstr_def)

text \<open>\<^verbatim>\<open>snprintf(buf, n, ...)\<close> stores at most \<open>n - 1\<close> characters and a NUL.\<close>

definition snprintf :: "nat \<Rightarrow> string \<Rightarrow> string" where
  "snprintf n s = take (n - 1) s"

lemma snprintf_fits [simp]: "length s < n \<Longrightarrow> snprintf n s = s"
  by (simp add: snprintf_def)

lemma snprintf_length: "length (snprintf n s) \<le> n - 1"
  by (simp add: snprintf_def)

text \<open>
  \<^verbatim>\<open>strncpy(buf, s, n)\<close>: the first \<open>n\<close> characters of the string, padded with NUL up to
  \<open>n\<close> bytes; the rest of the buffer keeps what it held.
\<close>

definition strncpy :: "string \<Rightarrow> string \<Rightarrow> nat \<Rightarrow> string" where
  "strncpy buf s n = take n s @ replicate (n - length s) NUL @ drop n buf"

lemma strncpy_length: "n \<le> length buf \<Longrightarrow> length (strncpy buf s n) = length buf"
  by (simp add: strncpy_def)

lemma cstr_strncpy:
  assumes "NUL \<notin> set s" "length s < n"
  shows "cstr (strncpy buf s n) = s"
proof -
  have "strncpy buf s n = s @ NUL # (replicate (n - length s - 1) NUL @ drop n buf)"
    using assms(2) by (simp add: strncpy_def flip: replicate_Suc append_Cons)
  then show ?thesis
    using assms(1) by (simp add: cstr_append_NUL)
qed

text \<open>\<^verbatim>\<open>strstr(s, t) != NULL\<close> and \<^verbatim>\<open>strncmp(s, t, strlen(t)) == 0\<close> (t without NUL).\<close>

definition strstr :: "string \<Rightarrow> string \<Rightarrow> bool" where
  "strstr s t \<longleftrightarrow> sublist t s"

definition has_prefix :: "string \<Rightarrow> string \<Rightarrow> bool" where
  "has_prefix s t \<longleftrightarrow> prefix t s"

section \<open>Decimal conversions\<close>

definition digit_char :: "nat \<Rightarrow> char" where
  "digit_char d = ''0123456789'' ! d"

definition digit_val :: "char \<Rightarrow> nat" where
  "digit_val c = of_char c - 48"

fun show_nat :: "nat \<Rightarrow> string" where
  "show_nat n = (if n < 10 then [digit_char n] else show_nat (n div 10) @ [digit_char (n mod 10)])"

declare show_nat.simps [simp del]

definition show_int :: "int \<Rightarrow> string" where
  "show_int i = (if i < 0 then CHR ''-'' # show_nat (nat (- i)) else show_nat (nat i))"

text \<open>\<^verbatim>\<open>%0kd\<close> of a number that is not negative.\<close>

definition pad0 :: "nat \<Rightarrow> nat \<Rightarrow> string" where
  "pad0 k n = replicate (k - length (show_nat n)) (CHR ''0'') @ show_nat n"

lemma isdigit_digit_char: "d < 10 \<Longrightarrow> isdigit (digit_char d)"
  unfolding isdigit_def digit_char_def by (rule nth_mem) simp

lemma digit_val_digit_char [simp]: "d < 10 \<Longrightarrow> digit_val (digit_char d) = d"
  by (auto simp: digit_val_def digit_char_def numeral_eq_Suc less_Suc_eq)

lemma digit_val_less: "isdigit c \<Longrightarrow> digit_val c < 10"
  by (auto simp: isdigit_def digit_val_def)

lemma show_nat_digits [text_chars]: "c \<in> set (show_nat n) \<Longrightarrow> isdigit c"
proof (induction n rule: show_nat.induct)
  case (1 n)
  then show ?case
    by (cases "n < 10") (auto simp: show_nat.simps [of n] isdigit_digit_char)
qed

lemma show_nat_not_Nil [simp]: "show_nat n \<noteq> []"
  by (subst show_nat.simps) simp

lemma show_nat_length [text_len]: "n < 10 ^ k \<Longrightarrow> 0 < k \<Longrightarrow> length (show_nat n) \<le> k"
proof (induction n arbitrary: k rule: show_nat.induct)
  case (1 n)
  show ?case
  proof (cases "n < 10")
    case True
    with "1.prems" show ?thesis by (subst show_nat.simps) simp
  next
    case False
    with "1.prems" obtain j where k: "k = Suc j" and j: "0 < j"
      by (cases k; cases "k - 1") auto
    from "1.prems"(1) k have "n div 10 < 10 ^ j"
      by (simp add: less_mult_imp_div_less mult.commute)
    with "1.IH" [OF False this j] False k show ?thesis
      by (subst show_nat.simps) simp
  qed
qed

lemma pad0_length [text_len]: "n < 10 ^ k \<Longrightarrow> 0 < k \<Longrightarrow> length (pad0 k n) = k"
  using show_nat_length [of n k] by (simp add: pad0_def)

lemma pad0_digits [text_chars]: "c \<in> set (pad0 k n) \<Longrightarrow> isdigit c"
proof -
  have "isdigit (CHR ''0'')" by (simp add: isdigit_def)
  then show "c \<in> set (pad0 k n) \<Longrightarrow> isdigit c"
    by (auto simp: pad0_def show_nat_digits)
qed

text \<open>
  \<^verbatim>\<open>strtol(s, NULL, 10)\<close> on text that starts with its digits (what the caller passes), and
  the value of a whole digit string.
\<close>

definition digits_val :: "string \<Rightarrow> nat" where
  "digits_val s = foldl (\<lambda>a c. 10 * a + digit_val c) 0 s"

definition strtol10 :: "string \<Rightarrow> nat" where
  "strtol10 s = digits_val (takeWhile isdigit s)"

lemma digits_val_snoc [simp]: "digits_val (s @ [c]) = 10 * digits_val s + digit_val c"
  by (simp add: digits_val_def)

lemma digits_val_Nil [simp]: "digits_val [] = 0"
  by (simp add: digits_val_def)

lemma digits_val_show_nat [simp]: "digits_val (show_nat n) = n"
proof (induction n rule: show_nat.induct)
  case (1 n)
  then show ?case
    by (cases "n < 10") (auto simp: show_nat.simps [of n] digits_val_def)
qed

lemma digits_val_bound: "(\<forall>c \<in> set s. isdigit c) \<Longrightarrow> digits_val s < 10 ^ length s"
proof (induction s rule: rev_induct)
  case Nil
  show ?case by simp
next
  case (snoc c s)
  then have "digits_val s + 1 \<le> 10 ^ length s" and "digit_val c < 10"
    by (auto simp: digit_val_less Suc_le_eq)
  then show ?case by simp
qed

lemma show_nat_inj: "show_nat m = show_nat n \<Longrightarrow> m = n"
  by (metis digits_val_show_nat)

section \<open>Lists\<close>

lemma takeWhile_append_stop:
  "(\<forall>x \<in> set xs. P x) \<Longrightarrow> \<not> P y \<Longrightarrow> takeWhile P (xs @ y # ys) = xs"
  by (induction xs) auto

lemma take_take_le: "m \<le> n \<Longrightarrow> take m (take n xs) = take m xs"
  by (simp add: min.absorb1)

lemma append_sep_inj:
  assumes "xs @ y # ys = xs' @ y # ys'" "y \<notin> set xs" "y \<notin> set xs'"
  shows "xs = xs' \<and> ys = ys'"
  using assms
proof (induction xs arbitrary: xs')
  case Nil
  then show ?case by (cases xs') auto
next
  case (Cons x xs)
  then show ?case by (cases xs') auto
qed

text \<open>The parts of a text between separators; there is always one part.\<close>

fun split_on :: "char \<Rightarrow> string \<Rightarrow> string list" where
  "split_on x [] = [[]]"
| "split_on x (c # cs) =
     (if c = x then [] # split_on x cs
      else (case split_on x cs of w # ws \<Rightarrow> (c # w) # ws | [] \<Rightarrow> [[c]]))"

lemma split_on_not_Nil [simp]: "split_on x p \<noteq> []"
  by (induction p) (auto split: list.splits)

lemma split_on_sep: "split_on x (p @ x # q) = split_on x p @ split_on x q"
proof (induction p)
  case (Cons c p)
  then show ?case
    using split_on_not_Nil [of x p] by (cases "split_on x p") auto
qed simp

lemma split_on_whole: "x \<notin> set p \<Longrightarrow> split_on x p = [p]"
  by (induction p) auto

lemma split_on_no_sep: "w \<in> set (split_on x p) \<Longrightarrow> x \<notin> set w"
  by (induction p arbitrary: w) (fastforce split: list.splits if_splits)+

end
