(* ===== verification/Settings.thy ===== *)
theory Settings
  imports Prelude
begin

text \<open>
  The data of \<^verbatim>\<open>sacagalib.h\<close>: the constants, the server's settings, and what a handler knows
  of its client. The two \<^verbatim>\<open>char\<close> arrays of the settings are kept as buffers of their declared
  length, because \<^verbatim>\<open>strncpy\<close> writes only a part of them; what the program reads from them is
  \<open>cstr\<close> of the buffer. The invariant says what the rest of the program relies on.
\<close>

section \<open>Constants\<close>

definition DEFAULT_SERVER_PORT :: int where "DEFAULT_SERVER_PORT = 7070"
definition ADDR_MAXLEN :: nat where "ADDR_MAXLEN = 22"
definition MAX_REQUEST_LEN :: nat where "MAX_REQUEST_LEN = 4096"
definition PATH_MAX :: nat where "PATH_MAX = 4096"
definition HOSTNAME_LEN :: nat where "HOSTNAME_LEN = 256"
definition SACAGAWEACONF_PATH :: string where "SACAGAWEACONF_PATH = ''sacagawea.conf''"
definition SACAGAWEALOGS_PATH :: string where "SACAGAWEALOGS_PATH = ''sacagawea.log''"
definition S_SOCK_RECVBUF_LEN :: string where "S_SOCK_RECVBUF_LEN = ''65536''"

lemmas const_defs = DEFAULT_SERVER_PORT_def ADDR_MAXLEN_def MAX_REQUEST_LEN_def PATH_MAX_def
  HOSTNAME_LEN_def SACAGAWEACONF_PATH_def SACAGAWEALOGS_PATH_def S_SOCK_RECVBUF_LEN_def

section \<open>Settings and client arguments\<close>

record settings_t =
  port :: int
  socket :: int
  mode :: char
  homedir :: string
  hostname :: string

record client_args =
  c_addr :: string
  c_socket :: int
  c_path_file :: string
  c_file_to_send :: string
  c_len_file :: nat
  c_settings :: settings_t

abbreviation home :: "settings_t \<Rightarrow> string" where
  "home st \<equiv> cstr (homedir st)"

abbreviation host :: "settings_t \<Rightarrow> string" where
  "host st \<equiv> cstr (hostname st)"

section \<open>Appending the slash\<close>

text \<open>
  \<^verbatim>\<open>homedir[strlen(homedir)] = '/'; homedir[strlen(homedir) + 1] = 0\<close>: the second
  \<^verbatim>\<open>strlen\<close> already counts the slash and whatever followed it.
\<close>

definition append_slash :: "string \<Rightarrow> string" where
  "append_slash buf =
     (let b1 = buf[length (cstr buf) := CHR ''/'']
      in b1[length (cstr b1) + 1 := NUL])"

definition ends_in_slash :: "string \<Rightarrow> bool" where
  "ends_in_slash s \<longleftrightarrow> s \<noteq> [] \<and> last s = CHR ''/''"

section \<open>The invariant of the settings\<close>

text \<open>
  Bytes from 259 on are never written by \<^verbatim>\<open>strncpy(homedir, match, 259)\<close>: they hold the end
  of the first working directory, if that was longer, with its final slash, and zeros. Every
  string that ends among them ends in a slash.
\<close>

definition tail_ok :: "string \<Rightarrow> bool" where
  "tail_ok t \<longleftrightarrow> t \<noteq> [] \<and> last t = NUL \<and>
     (\<forall>i < length t - 1. t ! i \<noteq> NUL \<longrightarrow> t ! Suc i = NUL \<longrightarrow> t ! i = CHR ''/'')"

definition homedir_ok :: "string \<Rightarrow> bool" where
  "homedir_ok buf \<longleftrightarrow> length buf = PATH_MAX \<and> ends_in_slash (cstr buf) \<and> tail_ok (drop 259 buf)"

definition hostname_ok :: "string \<Rightarrow> bool" where
  "hostname_ok buf \<longleftrightarrow> length buf = HOSTNAME_LEN \<and> buf ! 255 = NUL"

definition mode_ok :: "char \<Rightarrow> bool" where
  "mode_ok m \<longleftrightarrow> m = CHR ''t'' \<or> m = CHR ''p''"

definition settings_inv :: "settings_t \<Rightarrow> bool" where
  "settings_inv st \<longleftrightarrow> mode_ok (mode st) \<and> homedir_ok (homedir st) \<and> hostname_ok (hostname st)"

lemma settings_inv_port [simp]: "settings_inv (st\<lparr>port := p\<rparr>) = settings_inv st"
  by (simp add: settings_inv_def)

lemma settings_inv_socket [simp]: "settings_inv (st\<lparr>socket := s\<rparr>) = settings_inv st"
  by (simp add: settings_inv_def)

lemma settings_inv_mode: "settings_inv st \<Longrightarrow> mode_ok m \<Longrightarrow> settings_inv (st\<lparr>mode := m\<rparr>)"
  by (simp add: settings_inv_def)

section \<open>Strings inside buffers\<close>

lemma cstr_append: "NUL \<notin> set s \<Longrightarrow> cstr (s @ t) = s @ cstr t"
  by (simp add: cstr_def takeWhile_append)

lemma cstr_Cons: "c \<noteq> NUL \<Longrightarrow> cstr (c # s) = c # cstr s"
  by (simp add: cstr_def)

lemma cstr_NUL [simp]: "cstr (NUL # s) = []"
  by (simp add: cstr_def)

lemma cstr_replicate [simp]: "cstr (replicate n NUL) = []"
  by (cases n) (auto simp: cstr_def)

lemma cstr_split: "NUL \<in> set b \<Longrightarrow> b = cstr b @ NUL # drop (length (cstr b) + 1) b"
proof (induction b)
  case (Cons c b)
  then show ?case by (cases "c = NUL") (auto simp: cstr_def)
qed simp

lemma cstr_length_less: "NUL \<in> set b \<Longrightarrow> length (cstr b) < length b"
  by (subst (2) cstr_split) simp_all

lemma cstr_nth_end: "NUL \<in> set b \<Longrightarrow> b ! length (cstr b) = NUL"
  by (subst cstr_split) (simp_all add: nth_append)

lemma ends_in_slash_append: "ends_in_slash (s @ CHR ''/'' # t) \<longleftrightarrow> t = [] \<or> ends_in_slash t"
  by (auto simp: ends_in_slash_def)

lemma tail_ok_NUL: "tail_ok t \<Longrightarrow> NUL \<in> set t"
  unfolding tail_ok_def by (metis last_in_set)

lemma tail_ok_drop: "tail_ok t \<Longrightarrow> n < length t \<Longrightarrow> tail_ok (drop n t)"
  by (auto simp: tail_ok_def)

lemma tail_ok_string:
  assumes "tail_ok t"
  shows "cstr t = [] \<or> ends_in_slash (cstr t)"
proof (cases "cstr t")
  case (Cons c cs)
  let ?i = "length (cstr t) - 1"
  have len: "length (cstr t) < length t" "t ! length (cstr t) = NUL"
    using assms by (simp_all add: tail_ok_NUL cstr_length_less cstr_nth_end)
  have "last (cstr t) = cstr t ! ?i"
    using Cons by (intro last_conv_nth) simp
  also have "\<dots> = t ! ?i"
    using Cons unfolding cstr_def by (intro takeWhile_nth) simp
  finally have "last (cstr t) = t ! ?i" .
  moreover have "t ! ?i \<noteq> NUL"
    using Cons calculation cstr_no_NUL [of t] by (metis last_in_set list.distinct(1))
  moreover have "?i < length t - 1" "Suc ?i = length (cstr t)"
    using len(1) Cons by auto
  ultimately show ?thesis
    using assms len(2) Cons by (auto simp: tail_ok_def ends_in_slash_def)
qed simp

lemma tail_ok_slash: "tail_ok t \<Longrightarrow> Suc i < length t \<Longrightarrow> tail_ok (t[i := CHR ''/''])"
  by (auto simp: tail_ok_def nth_list_update last_list_update)

lemma tail_ok_zero: "tail_ok t \<Longrightarrow> i = 0 \<or> t ! (i - 1) = NUL \<Longrightarrow> tail_ok (t[i := NUL])"
proof (cases "i < length t")
  case True
  assume t: "tail_ok t" "i = 0 \<or> t ! (i - 1) = NUL"
  have "t[i := NUL] ! j = CHR ''/''"
    if j: "j < length t - 1" "t[i := NUL] ! j \<noteq> NUL" "t[i := NUL] ! Suc j = NUL" for j
  proof -
    from j(2) True have "j \<noteq> i" by auto
    moreover from this t(2) j(2) have "Suc j \<noteq> i" by auto
    ultimately show ?thesis
      using t(1) j by (simp add: tail_ok_def)
  qed
  with t True show ?thesis by (auto simp: tail_ok_def last_list_update)
qed (simp add: list_update_beyond)

text \<open>Appending the slash: the string gets the slash and whatever string was left behind it.\<close>

lemma append_slash_string:
  assumes "NUL \<in> set b" "NUL \<in> set (drop (length (cstr b) + 1) b)"
  shows "cstr (append_slash b) = cstr b @ CHR ''/'' # cstr (drop (length (cstr b) + 1) b)"
proof -
  let ?s = "cstr b" and ?r = "drop (length (cstr b) + 1) b"
  have "b[length ?s := CHR ''/''] = (?s @ [CHR ''/'']) @ ?r"
    using cstr_split [OF assms(1)] by (metis append_Cons append_Nil append_assoc list_update_length)
  moreover have "cstr ((?s @ [CHR ''/'']) @ ?r) = (?s @ [CHR ''/'']) @ cstr ?r"
    by (rule cstr_append) simp
  moreover have "((?s @ [CHR ''/'']) @ ?r)[length ((?s @ [CHR ''/'']) @ cstr ?r) + 1 := NUL]
      = (?s @ [CHR ''/'']) @ cstr ?r @ NUL # (drop (length (cstr ?r) + 1) ?r)[0 := NUL]"
    by (subst (1) cstr_split [OF assms(2)]) (simp add: list_update_append)
  ultimately show ?thesis
    by (simp add: append_slash_def Let_def cstr_append cstr_append_NUL cstr_Cons)
qed

lemma append_slash_tail:
  assumes "tail_ok (drop n b)" "NUL \<in> set b" "length (cstr b) + 2 < length b"
    "NUL \<in> set (drop (length (cstr b) + 1) b)"
  shows "tail_ok (drop n (append_slash b))"
proof -
  let ?b1 = "b[length (cstr b) := CHR ''/'']"
  have n: "n < length b"
    using assms(1) by (auto simp: tail_ok_def)
  have b1: "tail_ok (drop n ?b1)"
    using assms(1,3) n
    by (cases "n \<le> length (cstr b)") (auto simp: drop_update_swap tail_ok_slash)
  have "?b1 = cstr b @ CHR ''/'' # drop (length (cstr b) + 1) b"
    using cstr_split [OF assms(2)] by (metis list_update_length)
  then have NUL1: "NUL \<in> set ?b1" using assms(4)
    by (metis Un_iff set_append list.set_intros(2))
  show ?thesis
  proof (cases "length (cstr ?b1) + 1 < n")
    case True
    then show ?thesis using b1 by (simp add: append_slash_def Let_def)
  next
    case False
    let ?i = "length (cstr ?b1) + 1 - n"
    have "?i = 0 \<or> drop n ?b1 ! (?i - 1) = NUL"
      using False n cstr_nth_end [OF NUL1] by (cases "?i = 0") simp_all
    then have "tail_ok ((drop n ?b1)[?i := NUL])"
      by (rule tail_ok_zero [OF b1])
    with False show ?thesis
      by (simp add: append_slash_def Let_def drop_update_swap)
  qed
qed

lemma append_slash_length [simp]: "length (append_slash b) = length b"
  by (simp add: append_slash_def Let_def)

lemma homedir_ok_NUL: "homedir_ok buf \<Longrightarrow> NUL \<in> set buf"
  unfolding homedir_ok_def by (metis tail_ok_NUL in_set_dropD)

lemma home_length: "homedir_ok buf \<Longrightarrow> length (cstr buf) < PATH_MAX"
  using cstr_length_less [OF homedir_ok_NUL] by (metis homedir_ok_def)


text \<open>A zeroed array of \<open>n\<close> bytes into which a string has been stored.\<close>

definition zeroed :: "nat \<Rightarrow> string \<Rightarrow> string" where
  "zeroed n s = s @ replicate (n - length s) NUL"

lemma cstr_zeroed [simp]: "NUL \<notin> set s \<Longrightarrow> cstr (zeroed n s) = s"
  by (simp add: zeroed_def cstr_append)

lemma zeroed_length [simp]: "length s \<le> n \<Longrightarrow> length (zeroed n s) = n"
  by (simp add: zeroed_def)

lemma tail_ok_zeros: "0 < n \<Longrightarrow> tail_ok (replicate n NUL)"
  by (simp add: tail_ok_def)

lemma tail_ok_zeroed:
  assumes "NUL \<notin> set s" "ends_in_slash s" "0 < n"
  shows "tail_ok (s @ replicate n NUL)"
proof -
  have "(s @ replicate n NUL) ! i = CHR ''/''"
    if i: "i < length s + n - 1" "(s @ replicate n NUL) ! i \<noteq> NUL" "(s @ replicate n NUL) ! Suc i = NUL" for i
  proof -
    from i(1,2) have "i < length s" by (cases "i < length s") (simp_all add: nth_append)
    moreover from this i(3) assms(1) have "\<not> Suc i < length s"
      by (metis nth_append nth_mem)
    ultimately have "i = length s - 1" by simp
    with \<open>i < length s\<close> assms(2) show ?thesis
      using last_conv_nth [of s] by (auto simp: nth_append ends_in_slash_def)
  qed
  with assms show ?thesis by (auto simp: tail_ok_def)
qed

lemma homedir_ok_zeroed:
  assumes "NUL \<notin> set s" "ends_in_slash s" "length s < PATH_MAX"
  shows "homedir_ok (zeroed PATH_MAX s)"
proof -
  have "tail_ok (drop 259 (zeroed PATH_MAX s))"
  proof (cases "259 < length s")
    case True
    then have "ends_in_slash (drop 259 s)" "NUL \<notin> set (drop 259 s)"
      using assms(1,2) by (auto simp: ends_in_slash_def dest: in_set_dropD)
    with True assms(3) show ?thesis by (simp add: zeroed_def tail_ok_zeroed)
  next
    case False
    then show ?thesis using assms(3) by (simp add: zeroed_def tail_ok_zeros PATH_MAX_def)
  qed
  with assms show ?thesis by (simp add: homedir_ok_def)
qed

lemma hostname_ok_zeroed: "length s < HOSTNAME_LEN \<Longrightarrow> hostname_ok (zeroed HOSTNAME_LEN s)"
  by (simp add: hostname_ok_def zeroed_def HOSTNAME_LEN_def nth_append)

text \<open>Settings to evaluate examples on.\<close>

definition example_settings :: settings_t where
  "example_settings = \<lparr>port = 7070, socket = 3, mode = CHR ''t'',
     homedir = zeroed PATH_MAX ''/srv/'', hostname = zeroed HOSTNAME_LEN ''localhost''\<rparr>"

lemma example_settings_inv: "settings_inv example_settings"
proof -
  have "homedir_ok (zeroed PATH_MAX ''/srv/'')"
    by (rule homedir_ok_zeroed) (simp_all add: ends_in_slash_def PATH_MAX_def)
  moreover have "hostname_ok (zeroed HOSTNAME_LEN ''localhost'')"
    by (rule hostname_ok_zeroed) (simp add: HOSTNAME_LEN_def)
  ultimately show ?thesis
    by (simp add: settings_inv_def example_settings_def mode_ok_def)
qed

definition example_client :: client_args where
  "example_client = \<lparr>c_addr = ''10.0.0.1:1234'', c_socket = 4, c_path_file = ''/srv/docs'',
     c_file_to_send = [], c_len_file = 0, c_settings = example_settings\<rparr>"

lemma example_client_path [simp]: "cstr (c_path_file example_client) = ''/srv/docs''"
  by (simp add: example_client_def cstr_id)

end
