(* ===== verification/Effects.thy ===== *)
theory Effects
  imports Settings
begin

text \<open>
  How the effects of the program are modelled. A program is a function that takes the
  operating system and the world and returns an outcome and the new world. The operating
  system is a parameter: a function from the history of events and the call made to the
  reply it gives, so that a statement for all \<open>os\<close> is a statement for every behaviour of
  the kernel, the client, the file system and the scheduler. The world records every event
  (\<open>trace\<close>) and how many more calls are observed (\<open>budget\<close>): a run whose budget is used up
  ends in \<open>Blocked\<close>, so that loops that never end (the server's main loop) have finite
  prefixes and every definition computes. The outcomes are the ways a C function ends: it
  returns, the process exits, the thread exits, it dereferences NULL, or it is still
  waiting in a system call. The second half is a small calculus (\<open>runs\<close>) to prove what a
  program does against every operating system, and the contract of a loop body.
\<close>

section \<open>Calls, replies and events\<close>

record tm =
  tm_year :: nat
  tm_mon :: nat
  tm_mday :: nat
  tm_hour :: nat
  tm_min :: nat
  tm_sec :: nat

datatype level = ERROR | WARNING | INFO | DEBUG

text \<open>The arguments of a log message: \<^verbatim>\<open>%s\<close>, \<^verbatim>\<open>%d\<close>, and \<^verbatim>\<open>strerror(errno)\<close>.\<close>

datatype log_arg = AS string | AI int | AE int

datatype recv_flag = DontWait | WaitAll | NoFlags

datatype net_call =
  Socket
| SetReuseAddr int
| SetNonBlocking int
| SetRecvBuf int string
| BindAny int nat
| Listen int int
| Select int
| Accept int
| Recv int nat recv_flag
| Send int string
| ShutdownWr int

datatype file_call =
  OpenRdwr string
| OfdLockWait int
| OfdUnlock int
| Fstat int
| Mmap int int
| Munmap int
| CloseFd int
| Opendir string
| Readdir
| Closedir
| FopenRead string
| Fgets nat
| Fclose
| FopenAppend string
| Fprintf string
| PrintErr string
| PrintOut string
| Popen string
| PopenGets nat
| Pclose
| PipeReadInt
| PipeRead int
| PipeWrite string
| ClosePipe nat
| OpenDevNull string

datatype proc_call =
  Fork
| Setsid
| IgnoreSignal string
| Sigemptyset
| Sigaddset string
| Sigaction string
| Chdir string
| Umask nat
| Kill int string
| ShmOpen
| Ftruncate
| MmapShared
| ShmUnlink
| PipeCreate
| Getcwd nat
| Gethostname nat
| Getopt
| Prctl
| Localtime
| Signals

datatype thread_call =
  ThreadCreate string client_args
| ThreadJoin
| ThreadDetach
| MutexLock
| MutexUnlock
| MutexInit
| MutexDestroy
| MutexattrShared
| MutexattrDestroy
| CondSignal
| CondWait
| CondInit
| CondDestroy
| CondattrShared
| CondattrDestroy
| ContIncr
| ContDecr
| ContRead
| ContReset

datatype mem_call =
  Malloc string int
| Regcomp string
| Realloc string nat
| Free string

text \<open>
  The calls of the Win32 build. A handle is named by the variable that holds it where there is one
  only, a pipe instance by its index. \<open>MapView h offset n\<close> is \<^verbatim>\<open>MapViewOfFile\<close>.
\<close>

datatype win_call =
  SetConsoleCtrlHandler
| CreateEvent nat
| CreateNamedPipe nat
| ConnectNamedPipe nat
| DisconnectNamedPipe nat
| SetEvent nat
| WaitForMultipleObjects nat
| ReadMessage nat nat
| CreateLogFile string
| WriteLogFile string
| OpenForRead string
| GetFileSizeEx int
| CreateFileMapping int int
| MapView int nat nat
| UnmapView
| CloseHandle string
| StartThread string client_args
| WaitForThread
| GetSystemInfo
| OpenLogPipe
| WaitNamedPipe int
| SetPipeMode
| WriteMessage string
| WSAStartup
| WSACleanup
| GetAddrInfo string
| FreeAddrInfo
| CloseSocket int
| SetBlocking int
| BindResolved int
| ShareArgs int client_args
| CreateProcess string
| CreateJobObject
| SetJobLimit
| AssignToJob string
| GetCurrentDirectory nat
| GetComputerName nat
| TerminateThread
| TerminateProcess

datatype call =
  Net net_call
| File file_call
| Proc proc_call
| Thread thread_call
| Mem mem_call
| Win win_call

text \<open>
  A reply: the C return value, \<open>errno\<close>, the bytes the call stored through a pointer, a
  number it stored (a size, an end-of-file indicator), and a broken-down time.
\<close>

record reply =
  rv :: int
  errno :: int
  payload :: string
  num :: int
  clock :: tm

definition plain_reply :: "int \<Rightarrow> reply" where
  "plain_reply n = \<lparr>rv = n, errno = 0, payload = [], num = 0, clock = \<lparr>tm_year = 0, tm_mon = 0,
     tm_mday = 1, tm_hour = 0, tm_min = 0, tm_sec = 0\<rparr>\<rparr>"

datatype event =
  Sys call reply
| Eff call
| Log level string "log_arg list"

type_synonym os = "event list \<Rightarrow> call \<Rightarrow> reply"

record world =
  trace :: "event list"
  budget :: nat

datatype 'a outcome =
  Ret 'a
| Exit int
| ThreadExit
| Crash string
| Blocked

type_synonym 'a prog = "os \<Rightarrow> world \<Rightarrow> 'a outcome \<times> world"

section \<open>Building programs\<close>

definition ret :: "'a \<Rightarrow> 'a prog" where
  "ret a os w = (Ret a, w)"

definition exit :: "int \<Rightarrow> 'a prog" where
  "exit n os w = (Exit n, w)"

definition pthread_exit :: "'a prog" where
  "pthread_exit os w = (ThreadExit, w)"

definition crash :: "string \<Rightarrow> 'a prog" where
  "crash s os w = (Crash s, w)"

definition emit :: "event \<Rightarrow> world \<Rightarrow> world" where
  "emit e w = w\<lparr>trace := trace w @ [e]\<rparr>"

text \<open>A call whose reply the program looks at, and the program that continues with it.\<close>

definition call :: "call \<Rightarrow> (reply \<Rightarrow> 'a prog) \<Rightarrow> 'a prog" where
  "call c k os w =
     (if budget w = 0 then (Blocked, w)
      else (let r = os (trace w) c
            in k r os ((emit (Sys c r) w)\<lparr>budget := budget w - 1\<rparr>)))"

text \<open>A call whose result the program does not use, and a log line, before the rest.\<close>

definition eff :: "call \<Rightarrow> 'a prog \<Rightarrow> 'a prog" where
  "eff c p os w = p os (emit (Eff c) w)"

definition say :: "level \<Rightarrow> string \<Rightarrow> log_arg list \<Rightarrow> 'a prog \<Rightarrow> 'a prog" where
  "say l s args p os w = p os (emit (Log l s args) w)"

definition say_if :: "bool \<Rightarrow> level \<Rightarrow> string \<Rightarrow> log_arg list \<Rightarrow> 'a prog \<Rightarrow> 'a prog" where
  "say_if b l s args p = (if b then say l s args p else p)"

text \<open>A call of another function of the program: what ends the process ends the caller.\<close>

fun cont :: "('a \<Rightarrow> 'b prog) \<Rightarrow> os \<Rightarrow> 'a outcome \<times> world \<Rightarrow> 'b outcome \<times> world" where
  "cont f os (Ret a, w) = f a os w"
| "cont f os (Exit n, w) = (Exit n, w)"
| "cont f os (ThreadExit, w) = (ThreadExit, w)"
| "cont f os (Crash s, w) = (Crash s, w)"
| "cont f os (Blocked, w) = (Blocked, w)"

definition bind :: "'a prog \<Rightarrow> ('a \<Rightarrow> 'b prog) \<Rightarrow> 'b prog" where
  "bind p f os w = cont f os (p os w)"

text \<open>
  A thread that is created and joined at once: its exit is not the caller's.
\<close>

fun joined :: "'b prog \<Rightarrow> os \<Rightarrow> 'a outcome \<times> world \<Rightarrow> 'b outcome \<times> world" where
  "joined k os (Ret a, w) = k os w"
| "joined k os (ThreadExit, w) = k os w"
| "joined k os (Exit n, w) = (Exit n, w)"
| "joined k os (Crash s, w) = (Crash s, w)"
| "joined k os (Blocked, w) = (Blocked, w)"

definition in_thread :: "'a prog \<Rightarrow> 'b prog \<Rightarrow> 'b prog" where
  "in_thread p k os w = joined k os (p os w)"

text \<open>
  Loops: the body returns \<open>Inl\<close> to go round again and \<open>Inr\<close> to leave. The fuel is one more
  than the budget; a body that makes a call in every round cannot use it up (the lemma
  \<open>unfold\<close> of the locale \<open>loop_body\<close> below).
\<close>

fun loop_fuel :: "nat \<Rightarrow> ('s \<Rightarrow> ('s + 'a) prog) \<Rightarrow> 's \<Rightarrow> 'a prog" where
  "loop_fuel 0 body s os w = (Blocked, w)"
| "loop_fuel (Suc n) body s os w =
     cont (\<lambda>x. case x of Inl s' \<Rightarrow> loop_fuel n body s' | Inr a \<Rightarrow> ret a) os (body s os w)"

definition loop :: "('s \<Rightarrow> ('s + 'a) prog) \<Rightarrow> 's \<Rightarrow> 'a prog" where
  "loop body s os w = loop_fuel (Suc (budget w)) body s os w"


section \<open>What a program does against every operating system\<close>

fun calls :: "event list \<Rightarrow> nat" where
  "calls [] = 0"
| "calls (Sys c r # es) = Suc (calls es)"
| "calls (Eff c # es) = calls es"
| "calls (Log l s a # es) = calls es"

lemma calls_append [simp]: "calls (es @ es') = calls es + calls es'"
  by (induction es rule: calls.induct) auto

text \<open>
  \<open>ran w res R\<close>: the result \<open>res\<close> of a run from the world \<open>w\<close> only adds events to the trace,
  every observed call costs one unit of budget, it is blocked only when the budget is used
  up, and its outcome and the added events satisfy \<open>R\<close>. \<open>runs C p R\<close>: this is so for \<open>p\<close>
  against every operating system whose replies satisfy \<open>C\<close>.
\<close>

definition ran :: "world \<Rightarrow> 'a outcome \<times> world \<Rightarrow> ('a outcome \<Rightarrow> event list \<Rightarrow> bool) \<Rightarrow> bool" where
  "ran w res R \<longleftrightarrow>
     (\<exists>es. trace (snd res) = trace w @ es \<and> budget w = budget (snd res) + calls es \<and>
           (fst res = Blocked \<longrightarrow> budget (snd res) = 0) \<and> R (fst res) es)"

definition runs ::
  "(call \<Rightarrow> reply \<Rightarrow> bool) \<Rightarrow> 'a prog \<Rightarrow> ('a outcome \<Rightarrow> event list \<Rightarrow> bool) \<Rightarrow> bool" where
  "runs C p R \<longleftrightarrow> (\<forall>os w. (\<forall>h c. C c (os h c)) \<longrightarrow> ran w (p os w) R)"

definition any_os :: "call \<Rightarrow> reply \<Rightarrow> bool" where
  "any_os c r = True"

lemma any_os_True [simp]: "any_os c r"
  by (simp add: any_os_def)

text \<open>
  The documented bounds of the calls that store into a buffer or transfer bytes: what
  \<^verbatim>\<open>fgets\<close>, \<^verbatim>\<open>recv\<close>, \<^verbatim>\<open>send\<close>, \<^verbatim>\<open>read\<close>, \<^verbatim>\<open>write\<close>, \<^verbatim>\<open>getcwd\<close> and \<^verbatim>\<open>gethostname\<close>
  promise about their results; a new connection has a dotted IPv4 address and a 16-bit port; a
  handle of Windows has 64 bits.
\<close>

fun posix_os :: "call \<Rightarrow> reply \<Rightarrow> bool" where
  "posix_os (File (Fgets n)) r = (rv r \<noteq> 0 \<longrightarrow> length (payload r) < n)"
| "posix_os (File (PopenGets n)) r = (rv r \<noteq> 0 \<longrightarrow> length (payload r) < n)"
| "posix_os (Net (Recv fd n fl)) r =
     (rv r \<le> int n \<and> (0 \<le> rv r \<longrightarrow> length (payload r) = nat (rv r)))"
| "posix_os (Net (Send fd s)) r = (rv r \<le> int (length s))"
| "posix_os (File (Mmap fd n)) r = (rv r \<noteq> - 1 \<longrightarrow> length (payload r) = nat n)"
| "posix_os (File PipeReadInt) r =
     (rv r \<le> 4 \<and> (0 \<le> rv r \<longrightarrow> length (payload r) = nat (rv r)))"
| "posix_os (File (PipeRead n)) r =
     (rv r \<le> n \<and> (0 \<le> rv r \<longrightarrow> length (payload r) = nat (rv r)))"
| "posix_os (File (PipeWrite s)) r = (rv r \<le> int (length s))"
| "posix_os (Proc (Getcwd n)) r = (rv r \<noteq> 0 \<longrightarrow> length (payload r) < n \<and> NUL \<notin> set (payload r))"
| "posix_os (Proc (Gethostname n)) r = (length (payload r) \<le> n)"
| "posix_os (Win (GetCurrentDirectory n)) r =
     (rv r \<noteq> 0 \<longrightarrow> length (payload r) < n \<and> NUL \<notin> set (payload r))"
| "posix_os (Win (GetComputerName n)) r = (length (payload r) \<le> n)"
| "posix_os (Win (CreateFileMapping f n)) r = (- (2 ^ 63) \<le> rv r \<and> rv r < 2 ^ 63)"
| "posix_os (Net (Accept fd)) r =
     (rv r \<noteq> - 1 \<longrightarrow> 0 \<le> rv r \<and> length (payload r) \<le> 15 \<and> NUL \<notin> set (payload r) \<and> 0 \<le> num r \<and> num r \<le> 65535)"
| "posix_os _ _ = True"

named_theorems runs_intros \<comment> \<open>one rule for each way to build a program\<close>

lemma ranE:
  assumes "ran w res R"
  obtains es where "trace (snd res) = trace w @ es" "budget w = budget (snd res) + calls es"
    "fst res = Blocked \<longrightarrow> budget (snd res) = 0" "R (fst res) es"
  using assms unfolding ran_def by blast

lemma ran_weaken: "ran w res Q \<Longrightarrow> (\<And>out es. Q out es \<Longrightarrow> R out es) \<Longrightarrow> ran w res R"
  unfolding ran_def by blast

lemma ran_here: "out \<noteq> Blocked \<Longrightarrow> R out [] \<Longrightarrow> ran w (out, w) R"
  by (simp add: ran_def)

text \<open>A run that goes on from a world with more events.\<close>

lemma ran_emit:
  assumes "ran w' res (\<lambda>out es. R out (es0 @ es))"
    and "trace w' = trace w @ es0" "budget w = budget w' + calls es0"
  shows "ran w res R"
  using assms(1)
proof (rule ranE)
  fix es
  assume "trace (snd res) = trace w' @ es" "budget w' = budget (snd res) + calls es"
    "fst res = Blocked \<longrightarrow> budget (snd res) = 0" "R (fst res) (es0 @ es)"
  with assms(2,3) show ?thesis
    unfolding ran_def by (intro exI [of _ "es0 @ es"]) simp
qed

lemma runsI: "(\<And>os w. (\<And>h c. C c (os h c)) \<Longrightarrow> ran w (p os w) R) \<Longrightarrow> runs C p R"
  by (simp add: runs_def)

lemma runsD: "runs C p R \<Longrightarrow> (\<And>h c. C c (os h c)) \<Longrightarrow> ran w (p os w) R"
  by (simp add: runs_def)

lemma runs_weaken: "runs C p Q \<Longrightarrow> (\<And>out es. Q out es \<Longrightarrow> R out es) \<Longrightarrow> runs C p R"
  unfolding runs_def by (blast intro: ran_weaken)

lemma runs_any: "runs any_os p R \<Longrightarrow> runs C p R"
  by (simp add: runs_def)

lemma runs_conj:
  assumes "runs C p Q" "runs C p R"
  shows "runs C p (\<lambda>out es. Q out es \<and> R out es)"
proof (rule runsI)
  fix os :: os and w :: world
  assume os: "\<And>h c. C c (os h c)"
  have "ran w (p os w) Q" "ran w (p os w) R"
    using assms os by (simp_all add: runsD)
  then show "ran w (p os w) (\<lambda>out es. Q out es \<and> R out es)"
    unfolding ran_def by auto
qed

lemma runs_ret [runs_intros]: "R (Ret a) [] \<Longrightarrow> runs C (ret a) R"
  by (simp add: runs_def ret_def ran_here)

lemma runs_exit [runs_intros]: "R (Exit n) [] \<Longrightarrow> runs C (exit n) R"
  by (simp add: runs_def exit_def ran_here)

lemma runs_pthread_exit [runs_intros]: "R ThreadExit [] \<Longrightarrow> runs C pthread_exit R"
  by (simp add: runs_def pthread_exit_def ran_here)

lemma runs_crash [runs_intros]: "R (Crash s) [] \<Longrightarrow> runs C (crash s) R"
  by (simp add: runs_def crash_def ran_here)

lemma runs_call [runs_intros]:
  assumes "R Blocked []"
    and "\<And>r. C c r \<Longrightarrow> runs C (k r) (\<lambda>out es. R out (Sys c r # es))"
  shows "runs C (call c k) R"
proof (rule runsI)
  fix os :: os and w :: world
  assume os: "\<And>h c. C c (os h c)"
  let ?r = "os (trace w) c"
  let ?w = "(emit (Sys c ?r) w)\<lparr>budget := budget w - 1\<rparr>"
  have "ran ?w (k ?r os ?w) (\<lambda>out es. R out ([Sys c ?r] @ es))"
    using runsD [OF assms(2) [OF os] os] by simp
  then have "0 < budget w \<Longrightarrow> ran w (k ?r os ?w) R"
    by (rule ran_emit) (simp_all add: emit_def)
  then show "ran w (call c k os w) R"
    using assms(1) by (cases "budget w = 0") (simp_all add: call_def Let_def ran_def)
qed

lemma runs_eff [runs_intros]:
  assumes "runs C p (\<lambda>out es. R out (Eff c # es))"
  shows "runs C (eff c p) R"
proof (rule runsI)
  fix os :: os and w :: world
  assume "\<And>h c. C c (os h c)"
  with assms have "ran (emit (Eff c) w) (p os (emit (Eff c) w)) (\<lambda>out es. R out ([Eff c] @ es))"
    by (simp add: runsD)
  then show "ran w (eff c p os w) R"
    unfolding eff_def by (rule ran_emit) (simp_all add: emit_def)
qed

lemma runs_say [runs_intros]:
  assumes "runs C p (\<lambda>out es. R out (Log l s a # es))"
  shows "runs C (say l s a p) R"
proof (rule runsI)
  fix os :: os and w :: world
  let ?w = "emit (Log l s a) w"
  assume "\<And>h c. C c (os h c)"
  with assms have "ran ?w (p os ?w) (\<lambda>out es. R out ([Log l s a] @ es))"
    by (simp add: runsD)
  then show "ran w (say l s a p os w) R"
    unfolding say_def by (rule ran_emit) (simp_all add: emit_def)
qed

lemma runs_say_if [runs_intros]:
  "(b \<Longrightarrow> runs C p (\<lambda>out es. R out (Log l s a # es))) \<Longrightarrow> (\<not> b \<Longrightarrow> runs C p R) \<Longrightarrow>
   runs C (say_if b l s a p) R"
  by (simp add: say_if_def runs_say)

lemma runs_if [runs_intros]:
  "(b \<Longrightarrow> runs C p R) \<Longrightarrow> (\<not> b \<Longrightarrow> runs C q R) \<Longrightarrow> runs C (if b then p else q) R"
  by simp

lemma runs_case_option [runs_intros]:
  "(x = None \<Longrightarrow> runs C p R) \<Longrightarrow> (\<And>y. x = Some y \<Longrightarrow> runs C (f y) R) \<Longrightarrow>
   runs C (case x of None \<Rightarrow> p | Some y \<Rightarrow> f y) R"
  by (cases x) auto

lemma runs_case_sum [runs_intros]:
  "(\<And>y. x = Inl y \<Longrightarrow> runs C (f y) R) \<Longrightarrow> (\<And>y. x = Inr y \<Longrightarrow> runs C (g y) R) \<Longrightarrow>
   runs C (case x of Inl y \<Rightarrow> f y | Inr y \<Rightarrow> g y) R"
  by (cases x) auto

lemma runs_case_prod [runs_intros]:
  "(\<And>y z. x = (y, z) \<Longrightarrow> runs C (f y z) R) \<Longrightarrow> runs C (case x of (y, z) \<Rightarrow> f y z) R"
  by (cases x) auto

lemma runs_Let [runs_intros]: "runs C (f x) R \<Longrightarrow> runs C (let y = x in f y) R"
  by simp

text \<open>After a call of another function: what its outcome means for the caller.\<close>

fun after :: "(call \<Rightarrow> reply \<Rightarrow> bool) \<Rightarrow> ('a \<Rightarrow> 'b prog) \<Rightarrow> ('b outcome \<Rightarrow> event list \<Rightarrow> bool) \<Rightarrow>
    'a outcome \<Rightarrow> event list \<Rightarrow> bool" where
  "after C f R (Ret a) es = runs C (f a) (\<lambda>out es'. R out (es @ es'))"
| "after C f R (Exit n) es = R (Exit n) es"
| "after C f R ThreadExit es = R ThreadExit es"
| "after C f R (Crash s) es = R (Crash s) es"
| "after C f R Blocked es = R Blocked es"

lemma ran_cont:
  assumes "ran w (out, w') (after C f R)" "\<And>h c. C c (os h c)"
  shows "ran w (cont f os (out, w')) R"
  using assms(1)
proof (rule ranE)
  fix es
  assume w': "trace (snd (out, w')) = trace w @ es"
    "budget w = budget (snd (out, w')) + calls es"
    "fst (out, w') = Blocked \<longrightarrow> budget (snd (out, w')) = 0" "after C f R (fst (out, w')) es"
  show ?thesis
  proof (cases out)
    case (Ret a)
    with w'(4) assms(2) have "ran w' (f a os w') (\<lambda>out es'. R out (es @ es'))"
      by (simp add: runsD)
    then have "ran w (f a os w') R"
      by (rule ran_emit) (use w'(1,2) in simp_all)
    with Ret show ?thesis by simp
  qed (use w' in \<open>auto simp: ran_def\<close>)
qed

lemma runs_bind [runs_intros]:
  assumes "runs C p (after C f R)"
  shows "runs C (bind p f) R"
proof (rule runsI)
  fix os :: os and w :: world
  assume os: "\<And>h c. C c (os h c)"
  with assms have "ran w (fst (p os w), snd (p os w)) (after C f R)"
    by (simp add: runsD)
  from ran_cont [OF this os] show "ran w (bind p f os w) R"
    by (simp add: bind_def)
qed

lemma runs_bind_weaken:
  "runs C p Q \<Longrightarrow> (\<And>out es. Q out es \<Longrightarrow> after C f R out es) \<Longrightarrow> runs C (bind p f) R"
  by (blast intro: runs_bind runs_weaken)

lemma runs_trivial_bind:
  assumes "runs C p Q" "\<And>a. runs C (f a) (\<lambda>_ _. True)"
  shows "runs C (bind p f) (\<lambda>_ _. True)"
proof (rule runs_bind_weaken [OF assms(1)])
  show "after C f (\<lambda>_ _. True) out es" for out es
    by (cases out) (simp_all add: assms(2))
qed

fun thread_ended :: "'a outcome \<Rightarrow> unit outcome" where
  "thread_ended (Ret a) = Ret ()"
| "thread_ended ThreadExit = Ret ()"
| "thread_ended (Exit n) = Exit n"
| "thread_ended (Crash s) = Crash s"
| "thread_ended Blocked = Blocked"

lemma joined_cont: "joined k os (out, w) = cont (\<lambda>_. k) os (thread_ended out, w)"
  by (cases out) auto

lemma runs_in_thread [runs_intros]:
  assumes "runs C p (\<lambda>out es. after C (\<lambda>_. k) R (thread_ended out) es)"
  shows "runs C (in_thread p k) R"
proof (rule runsI)
  fix os :: os and w :: world
  assume os: "\<And>h c. C c (os h c)"
  with assms have "ran w (p os w) (\<lambda>out es. after C (\<lambda>_. k) R (thread_ended out) es)"
    by (simp add: runsD)
  then have "ran w (thread_ended (fst (p os w)), snd (p os w)) (after C (\<lambda>_. k) R)"
    unfolding ran_def by (cases "fst (p os w)") auto
  from ran_cont [OF this os] have "ran w (joined k os (fst (p os w), snd (p os w))) R"
    by (simp only: joined_cont)
  then show "ran w (in_thread p k os w) R"
    by (simp add: in_thread_def)
qed

text \<open>The common shape of an outcome: a value, or an exit with a code, and nothing else.\<close>

fun returns_or_exits :: "('a \<Rightarrow> bool) \<Rightarrow> (int \<Rightarrow> bool) \<Rightarrow> 'a outcome \<Rightarrow> bool" where
  "returns_or_exits P N (Ret a) = P a"
| "returns_or_exits P N (Exit n) = N n"
| "returns_or_exits P N ThreadExit = False"
| "returns_or_exits P N (Crash s) = False"
| "returns_or_exits P N Blocked = True"

section \<open>Which events a program can make\<close>

definition only :: "(event \<Rightarrow> bool) \<Rightarrow> 'a prog \<Rightarrow> bool" where
  "only P p \<longleftrightarrow> runs any_os p (\<lambda>_ es. \<forall>e \<in> set es. P e)"

named_theorems only_intros \<comment> \<open>one rule for each way to build a program\<close>

lemma only_ret [only_intros]: "only P (ret a)"
  by (simp add: only_def runs_ret)

lemma only_exit [only_intros]: "only P (exit n)"
  by (simp add: only_def runs_exit)

lemma only_pthread_exit [only_intros]: "only P pthread_exit"
  by (simp add: only_def runs_pthread_exit)

lemma only_crash [only_intros]: "only P (crash m)"
  by (simp add: only_def runs_crash)

lemma only_call [only_intros]: "(\<And>r. P (Sys c r)) \<Longrightarrow> (\<And>r. only P (k r)) \<Longrightarrow> only P (call c k)"
  by (simp add: only_def runs_call)

lemma only_eff [only_intros]: "P (Eff c) \<Longrightarrow> only P p \<Longrightarrow> only P (eff c p)"
  by (simp add: only_def runs_eff)

lemma only_say [only_intros]: "P (Log l s a) \<Longrightarrow> only P p \<Longrightarrow> only P (say l s a p)"
  by (simp add: only_def runs_say)

lemma only_say_if [only_intros]: "(b \<Longrightarrow> P (Log l s a)) \<Longrightarrow> only P p \<Longrightarrow> only P (say_if b l s a p)"
  by (simp add: only_say say_if_def)

lemma only_if [only_intros]: "(b \<Longrightarrow> only P p) \<Longrightarrow> (\<not> b \<Longrightarrow> only P q) \<Longrightarrow> only P (if b then p else q)"
  by simp

lemma only_case_option [only_intros]:
  "(x = None \<Longrightarrow> only P p) \<Longrightarrow> (\<And>y. x = Some y \<Longrightarrow> only P (f y)) \<Longrightarrow>
   only P (case x of None \<Rightarrow> p | Some y \<Rightarrow> f y)"
  by (cases x) auto

lemma only_case_prod [only_intros]:
  "(\<And>y z. x = (y, z) \<Longrightarrow> only P (f y z)) \<Longrightarrow> only P (case x of (y, z) \<Rightarrow> f y z)"
  by (cases x) auto

lemma only_Let [only_intros]: "only P (f x) \<Longrightarrow> only P (let y = x in f y)"
  by simp

lemma only_bind [only_intros]:
  assumes "only P p" "\<And>a. only P (f a)"
  shows "only P (bind p f)"
  unfolding only_def
proof (rule runs_bind_weaken [OF assms(1) [unfolded only_def]])
  fix out :: "'a outcome" and es
  assume es: "\<forall>e \<in> set es. P e"
  have "runs any_os (f a) (\<lambda>_ es'. \<forall>e \<in> set (es @ es'). P e)" for a
    by (rule runs_weaken [OF assms(2) [unfolded only_def]]) (use es in auto)
  then show "after any_os f (\<lambda>_ es. \<forall>e \<in> set es. P e) out es"
    using es by (cases out) simp_all
qed

lemma only_in_thread [only_intros]:
  assumes "only P p" "only P k"
  shows "only P (in_thread p k)"
  unfolding only_def
proof (rule runs_in_thread, rule runs_weaken [OF assms(1) [unfolded only_def]])
  fix out :: "'a outcome" and es
  assume es: "\<forall>e \<in> set es. P e"
  have "runs any_os k (\<lambda>_ es'. \<forall>e \<in> set (es @ es'). P e)"
    by (rule runs_weaken [OF assms(2) [unfolded only_def]]) (use es in auto)
  then show "after any_os (\<lambda>_. k) (\<lambda>_ es. \<forall>e \<in> set es. P e) (thread_ended out) es"
    using es by (cases out) simp_all
qed

lemma only_weaken: "only P p \<Longrightarrow> (\<And>e. P e \<Longrightarrow> Q e) \<Longrightarrow> only Q p"
  unfolding only_def by (erule runs_weaken) blast

text \<open>Adding what is known of the events to what is known of the run.\<close>

lemma runs_only: "runs C p R \<Longrightarrow> only P p \<Longrightarrow> runs C p (\<lambda>out es. R out es \<and> (\<forall>e \<in> set es. P e))"
  unfolding only_def by (intro runs_conj) (auto intro: runs_any)

section \<open>What was sent\<close>

text \<open>The calls of \<^verbatim>\<open>send\<close>, with their results, and the bytes that they put on the wire.\<close>

fun sends :: "event list \<Rightarrow> (int \<times> string \<times> int) list" where
  "sends (Sys (Net (Send fd s)) r # es) = (fd, s, rv r) # sends es"
| "sends (e # es) = sends es"
| "sends [] = []"

definition wire :: "int \<Rightarrow> event list \<Rightarrow> string" where
  "wire fd es = concat (map (\<lambda>(f, s, n). if f = fd then take (nat n) s else []) (sends es))"

lemma sends_append [simp]: "sends (es @ es') = sends es @ sends es'"
  by (induction es rule: sends.induct) auto

lemma wire_append [simp]: "wire fd (es @ es') = wire fd es @ wire fd es'"
  by (simp add: wire_def)

section \<open>The contract of a loop body\<close>

text \<open>
  What one round of a loop means for an invariant \<open>I\<close> over the loop state and the events so
  far, and the result \<open>R\<close> of the whole loop.
\<close>

fun round :: "('s \<Rightarrow> event list \<Rightarrow> bool) \<Rightarrow> ('a outcome \<Rightarrow> event list \<Rightarrow> bool) \<Rightarrow> event list \<Rightarrow>
    ('s + 'a) outcome \<Rightarrow> event list \<Rightarrow> bool" where
  "round I R es0 (Ret (Inl s)) es = I s (es0 @ es)"
| "round I R es0 (Ret (Inr a)) es = R (Ret a) (es0 @ es)"
| "round I R es0 (Exit n) es = R (Exit n) (es0 @ es)"
| "round I R es0 ThreadExit es = R ThreadExit (es0 @ es)"
| "round I R es0 (Crash m) es = R (Crash m) (es0 @ es)"
| "round I R es0 Blocked es = R Blocked (es0 @ es)"

fun goes_round :: "('s + 'a) outcome \<Rightarrow> bool" where
  "goes_round (Ret (Inl s)) = True"
| "goes_round _ = False"

lemma goes_round_simps [simp]:
  "\<not> goes_round (Exit n)" "\<not> goes_round ThreadExit" "\<not> goes_round (Crash m)"
  "\<not> goes_round Blocked" "\<not> goes_round (Ret (Inr a))"
  by simp_all

lemma goes_round_iff: "goes_round out \<longleftrightarrow> (\<exists>s. out = Ret (Inl s))"
  by (cases out rule: goes_round.cases) auto

lemma consumes_call:
  assumes "\<And>r. runs any_os (k r) (\<lambda>_ _. True)"
  shows "runs any_os (call c k) (\<lambda>out es. goes_round out \<longrightarrow> 0 < calls es)"
  by (rule runs_call) (use assms in auto)

text \<open>
  Every loop of the program waits for something in every round: a body that goes round
  again has made a call. Under that contract the fuel of \<open>loop\<close> is enough: the loop is the
  fixed point the C code denotes (\<open>unfold\<close>), and an invariant of the body is one of the
  loop (\<open>invariant\<close>).
\<close>

locale loop_body =
  fixes body :: "'s \<Rightarrow> ('s + 'a) prog"
  assumes consumes: "runs any_os (body s) (\<lambda>out es. goes_round out \<longrightarrow> 0 < calls es)"
begin

lemma budget_decreases:
  assumes "body s os w = (Ret (Inl s'), w')"
  shows "budget w' < budget w"
proof -
  have "ran w (body s os w) (\<lambda>out es. goes_round out \<longrightarrow> 0 < calls es)"
    using consumes by (rule runsD) simp
  with assms show ?thesis by (auto simp: ran_def)
qed

lemma fuel_enough:
  "budget w < n \<Longrightarrow> budget w < m \<Longrightarrow> loop_fuel n body s os w = loop_fuel m body s os w"
proof (induction n arbitrary: m s w)
  case 0
  then show ?case by simp
next
  case (Suc n)
  then obtain k where m: "m = Suc k" by (cases m) auto
  obtain out w' where body: "body s os w = (out, w')" by fastforce
  show ?case
  proof (cases "goes_round out")
    case True
    with body obtain s' where s': "out = Ret (Inl s')" "budget w' < budget w"
      by (auto simp: goes_round_iff budget_decreases)
    with Suc.prems m have "loop_fuel n body s' os w' = loop_fuel k body s' os w'"
      by (intro Suc.IH) auto
    with m body s' show ?thesis by simp
  next
    case False
    with m body show ?thesis by (cases out rule: goes_round.cases) simp_all
  qed
qed

lemma unfold:
  "loop body s os w =
   bind (body s) (\<lambda>x. case x of Inl s' \<Rightarrow> loop body s' | Inr a \<Rightarrow> ret a) os w"
proof -
  obtain out w' where body: "body s os w = (out, w')" by fastforce
  show ?thesis
  proof (cases "goes_round out")
    case True
    with body obtain s' where s': "out = Ret (Inl s')" "budget w' < budget w"
      by (auto simp: goes_round_iff budget_decreases)
    then have "loop_fuel (budget w) body s' os w' = loop_fuel (Suc (budget w')) body s' os w'"
      by (intro fuel_enough) auto
    with body s' show ?thesis by (simp add: loop_def bind_def)
  next
    case False
    with body show ?thesis
      by (cases out rule: goes_round.cases) (simp_all add: loop_def bind_def)
  qed
qed

lemma invariant_fuel:
  assumes step: "\<And>s es. I s es \<Longrightarrow> runs C (body s) (round I R es)"
    and os: "\<And>h c. C c (os h c)"
  shows "I s es0 \<Longrightarrow> budget w < n \<Longrightarrow>
    ran w (loop_fuel n body s os w) (\<lambda>out es. R out (es0 @ es))"
proof (induction n arbitrary: s es0 w)
  case 0
  then show ?case by simp
next
  case (Suc n)
  obtain out w' where body: "body s os w = (out, w')" by fastforce
  have "ran w (out, w') (round I R es0)"
    using runsD [OF step [OF Suc.prems(1)] os] by (simp flip: body)
  then show ?case
  proof (rule ranE)
    fix es'
    assume es': "trace (snd (out, w')) = trace w @ es'"
      "budget w = budget (snd (out, w')) + calls es'"
      "fst (out, w') = Blocked \<longrightarrow> budget (snd (out, w')) = 0"
      "round I R es0 (fst (out, w')) es'"
    show ?thesis
    proof (cases "goes_round out")
      case True
      with body obtain s' where s': "out = Ret (Inl s')" "budget w' < budget w"
        by (auto simp: goes_round_iff budget_decreases)
      with Suc.prems(2) es'(4) have "I s' (es0 @ es')" "budget w' < n" by auto
      then have "ran w' (loop_fuel n body s' os w') (\<lambda>out es. R out ((es0 @ es') @ es))"
        by (rule Suc.IH)
      then have "ran w (loop_fuel n body s' os w') (\<lambda>out es. R out (es0 @ es))"
        by (intro ran_emit [of w' _ _ es' w]) (use es'(1,2) in simp_all)
      with body s' show ?thesis by simp
    next
      case False
      with body es' show ?thesis
        by (cases out rule: goes_round.cases) (auto simp: ran_def ret_def)
    qed
  qed
qed

lemma invariant:
  assumes "I s []"
    and "\<And>s es. I s es \<Longrightarrow> runs C (body s) (round I R es)"
  shows "runs C (loop body s) R"
proof (rule runsI)
  fix os :: os and w :: world
  assume "\<And>h c. C c (os h c)"
  from invariant_fuel [OF assms(2) this assms(1), of w "Suc (budget w)"]
  show "ran w (loop body s os w) R"
    by (simp add: loop_def)
qed

lemma trivial: "runs any_os (loop body s) (\<lambda>_ _. True)"
proof (rule invariant [where I = "\<lambda>_ _. True"])
  fix s es
  have "round (\<lambda>_ _. True) (\<lambda>_ _. True) es out es'" for out es'
    by (cases out rule: goes_round.cases) simp_all
  then show "runs any_os (body s) (round (\<lambda>_ _. True) (\<lambda>_ _. True) es)"
    by (rule runs_weaken [OF consumes])
qed simp

lemma only_loop:
  assumes "\<And>s. only P (body s)"
  shows "only P (loop body s)"
  unfolding only_def
proof (rule invariant [where I = "\<lambda>_ es. \<forall>e \<in> set es. P e"])
  fix s es
  assume es: "\<forall>e \<in> set es. P e"
  have "round (\<lambda>_ es. \<forall>e \<in> set es. P e) (\<lambda>_ es. \<forall>e \<in> set es. P e) es out es'"
    if "\<forall>e \<in> set es'. P e" for out es'
    using es that by (cases out rule: goes_round.cases) auto
  then show "runs any_os (body s) (round (\<lambda>_ es. \<forall>e \<in> set es. P e) (\<lambda>_ es. \<forall>e \<in> set es. P e) es)"
    by (rule runs_weaken [OF assms [unfolded only_def]])
qed simp

end

section \<open>How a function ends\<close>

text \<open>
  A result \<open>ends\<close> of a function that depends on its last events only: what comes before does not
  matter, and it holds while the function waits. Then it is enough to know of each part of the function that
  it returns or ends the function in an allowed way.
\<close>

locale ending =
  fixes ends :: "'a outcome \<Rightarrow> event list \<Rightarrow> bool"
  assumes more: "ends out es \<Longrightarrow> ends out (e # es)"
    and waits: "ends Blocked []"
begin

fun passes :: "'b outcome \<Rightarrow> bool" where
  "passes (Ret b) = True"
| "passes (Exit n) = ends (Exit n) []"
| "passes ThreadExit = ends ThreadExit []"
| "passes (Crash m) = ends (Crash m) []"
| "passes Blocked = True"

lemma append: "ends out es \<Longrightarrow> ends out (pre @ es)"
  by (induction pre) (auto intro: more)

lemma anywhere: "ends out [] \<Longrightarrow> ends out es"
  using append [of out "[]" es] by simp

lemma says: "runs C p ends \<Longrightarrow> runs C (say l s a p) ends"
  by (rule runs_say) (erule runs_weaken, rule more)

lemma says_if: "runs C p ends \<Longrightarrow> runs C (say_if b l s a p) ends"
  by (cases b) (simp_all add: say_if_def says)

lemma effs: "runs C p ends \<Longrightarrow> runs C (eff x p) ends"
  by (rule runs_eff) (erule runs_weaken, rule more)

lemma calls_then: "(\<And>r. C x r \<Longrightarrow> runs C (k r) ends) \<Longrightarrow> runs C (call x k) ends"
  by (rule runs_call) (simp add: waits, rule runs_weaken, blast, rule more)

lemma exits: "ends (Exit n) [] \<Longrightarrow> runs C (exit n) ends"
  by (rule runs_exit)

lemma crashes: "ends (Crash m) [] \<Longrightarrow> runs C (crash m) ends"
  by (rule runs_crash)

lemma part:
  assumes "runs C p (\<lambda>out es. passes out)" "\<And>b. runs C (f b) ends"
  shows "runs C (bind p f) ends"
proof (rule runs_bind_weaken [OF assms(1)])
  fix out :: "'b outcome" and es
  assume "passes out"
  then show "after C f ends out es"
    by (cases out) (auto intro: anywhere waits runs_weaken [OF assms(2)] append)
qed

lemmas intros = says says_if effs calls_then exits crashes runs_if

end

section \<open>Triples\<close>

text \<open>
  \<open>keeps P Q p\<close>: against every operating system with the documented bounds, each event of \<open>p\<close>
  satisfies \<open>P\<close>, and a value that it returns satisfies \<open>Q\<close>.
\<close>

definition keeps :: "(event \<Rightarrow> bool) \<Rightarrow> ('a \<Rightarrow> bool) \<Rightarrow> 'a prog \<Rightarrow> bool" where
  "keeps P Q p \<longleftrightarrow> runs posix_os p (\<lambda>out es. (\<forall>e \<in> set es. P e) \<and> (\<forall>a. out = Ret a \<longrightarrow> Q a))"

named_theorems keeps_intros \<comment> \<open>one rule for each way to build a program\<close>

lemma keeps_ret [keeps_intros]: "Q a \<Longrightarrow> keeps P Q (ret a)"
  by (simp add: keeps_def runs_ret)

lemma keeps_exit [keeps_intros]: "keeps P Q (exit n)"
  by (simp add: keeps_def runs_exit)

lemma keeps_crash [keeps_intros]: "keeps P Q (crash m)"
  by (simp add: keeps_def runs_crash)

lemma keeps_call [keeps_intros]:
  "(\<And>r. posix_os c r \<Longrightarrow> P (Sys c r)) \<Longrightarrow> (\<And>r. posix_os c r \<Longrightarrow> keeps P Q (k r)) \<Longrightarrow> keeps P Q (call c k)"
  by (simp add: keeps_def runs_call)

lemma keeps_eff [keeps_intros]: "P (Eff c) \<Longrightarrow> keeps P Q p \<Longrightarrow> keeps P Q (eff c p)"
  by (simp add: keeps_def runs_eff)

lemma keeps_say [keeps_intros]: "P (Log l s a) \<Longrightarrow> keeps P Q p \<Longrightarrow> keeps P Q (say l s a p)"
  by (simp add: keeps_def runs_say)

lemma keeps_say_if [keeps_intros]: "P (Log l s a) \<Longrightarrow> keeps P Q p \<Longrightarrow> keeps P Q (say_if b l s a p)"
  by (simp add: keeps_say say_if_def)

lemma keeps_if [keeps_intros]:
  "(b \<Longrightarrow> keeps P Q p) \<Longrightarrow> (\<not> b \<Longrightarrow> keeps P Q q) \<Longrightarrow> keeps P Q (if b then p else q)"
  by simp

lemma keeps_case_option [keeps_intros]:
  "(x = None \<Longrightarrow> keeps P Q p) \<Longrightarrow> (\<And>y. x = Some y \<Longrightarrow> keeps P Q (f y)) \<Longrightarrow>
   keeps P Q (case x of None \<Rightarrow> p | Some y \<Rightarrow> f y)"
  by (cases x) auto

lemma keeps_case_prod [keeps_intros]:
  "(\<And>y z. x = (y, z) \<Longrightarrow> keeps P Q (f y z)) \<Longrightarrow> keeps P Q (case x of (y, z) \<Rightarrow> f y z)"
  by (cases x) auto

lemma keeps_Let [keeps_intros]: "keeps P Q (f x) \<Longrightarrow> keeps P Q (let y = x in f y)"
  by simp

lemma keeps_bind:
  assumes "keeps P R p" "\<And>a. R a \<Longrightarrow> keeps P Q (f a)"
  shows "keeps P Q (bind p f)"
  unfolding keeps_def
proof (rule runs_bind_weaken [OF assms(1) [unfolded keeps_def]])
  fix out :: "'a outcome" and es
  assume es: "(\<forall>e \<in> set es. P e) \<and> (\<forall>a. out = Ret a \<longrightarrow> R a)"
  have "runs posix_os (f a) (\<lambda>out es'. (\<forall>e \<in> set (es @ es'). P e) \<and> (\<forall>a. out = Ret a \<longrightarrow> Q a))"
    if "R a" for a
    by (rule runs_weaken [OF assms(2) [OF that, unfolded keeps_def]]) (use es in auto)
  with es show "after posix_os f (\<lambda>out es. (\<forall>e \<in> set es. P e) \<and> (\<forall>a. out = Ret a \<longrightarrow> Q a)) out es"
    by (cases out) simp_all
qed

lemma keeps_only: "only P p \<Longrightarrow> (\<And>e. P e \<Longrightarrow> P' e) \<Longrightarrow> keeps P' (\<lambda>_. True) p"
  unfolding keeps_def only_def by (drule runs_any) (erule runs_weaken, simp)

lemma keeps_runs: "runs posix_os p R \<Longrightarrow> (\<And>out es. R out es \<Longrightarrow> (\<forall>e \<in> set es. P e) \<and> (\<forall>a. out = Ret a \<longrightarrow> Q a)) \<Longrightarrow>
    keeps P Q p"
  unfolding keeps_def by (rule runs_weaken)

lemma keeps_weaken: "keeps P Q p \<Longrightarrow> (\<And>a. Q a \<Longrightarrow> Q' a) \<Longrightarrow> keeps P Q' p"
  unfolding keeps_def by (erule runs_weaken) blast

context loop_body
begin

lemma keeps_loop:
  assumes "I s" "\<And>s. I s \<Longrightarrow> keeps P (\<lambda>x. case x of Inl s' \<Rightarrow> I s' | Inr a \<Rightarrow> Q a) (body s)"
  shows "keeps P Q (loop body s)"
  unfolding keeps_def
proof (rule invariant [where I = "\<lambda>s es. I s \<and> (\<forall>e \<in> set es. P e)"])
  fix s es
  assume I: "I s \<and> (\<forall>e \<in> set es. P e)"
  have "round (\<lambda>s es. I s \<and> (\<forall>e \<in> set es. P e)) (\<lambda>out es. (\<forall>e \<in> set es. P e) \<and> (\<forall>a. out = Ret a \<longrightarrow> Q a)) es out es'"
    if "(\<forall>e \<in> set es'. P e) \<and> (\<forall>a. out = Ret a \<longrightarrow> (case a of Inl s' \<Rightarrow> I s' | Inr a \<Rightarrow> Q a))" for out es'
    using I that by (cases out rule: goes_round.cases) auto
  then show "runs posix_os (body s) (round (\<lambda>s es. I s \<and> (\<forall>e \<in> set es. P e))
      (\<lambda>out es. (\<forall>e \<in> set es. P e) \<and> (\<forall>a. out = Ret a \<longrightarrow> Q a)) es)"
    by (rule runs_weaken [OF assms(2) [OF conjunct1 [OF I], unfolded keeps_def]])
qed (use assms(1) in simp)

end

lemmas run_defs = ret_def exit_def pthread_exit_def crash_def call_def eff_def say_def say_if_def emit_def
  bind_def in_thread_def Let_def

end
