(* ===== verification/Progress.thy ===== *)
theory Progress
  imports Effects
begin

text \<open>
  How long a program can run. A run that never ends is \<open>Blocked\<close> for every budget, so a bound on
  its calls is a proof that it ends. No bound holds without regard to the outside: a client may stay
  silent for ever, a directory may have any number of entries. Therefore a reply may
  grant calls: \<open>within C g n p\<close> says that \<open>p\<close> makes at most \<open>n\<close> calls more than its events grant by
  \<open>g\<close>. The rules compute \<open>n\<close> from the program; a loop needs a potential from which every round
  that is not granted pays.
\<close>

section \<open>Granted calls\<close>

definition paid :: "(event \<Rightarrow> nat) \<Rightarrow> event list \<Rightarrow> nat" where
  "paid g es = sum_list (map g es)"

lemma paid_simps [simp]:
  "paid g [] = 0" "paid g (e # es) = g e + paid g es" "paid g (es @ es') = paid g es + paid g es'"
  by (simp_all add: paid_def)

section \<open>Bounds of programs\<close>

definition within :: "(call \<Rightarrow> reply \<Rightarrow> bool) \<Rightarrow> (event \<Rightarrow> nat) \<Rightarrow> nat \<Rightarrow> 'a prog \<Rightarrow> bool" where
  "within C g n p \<longleftrightarrow> runs C p (\<lambda>_ es. calls es \<le> n + paid g es)"

named_theorems within_intros \<comment> \<open>one rule for each way to build a program\<close>

lemma within_mono: "within C g n p \<Longrightarrow> n \<le> m \<Longrightarrow> within C g m p"
  unfolding within_def by (erule runs_weaken) simp

lemma within_any: "within any_os g n p \<Longrightarrow> within C g n p"
  unfolding within_def by (rule runs_any)

lemma within_ret [within_intros]: "within C g 0 (ret a)"
  by (simp add: within_def runs_ret)

lemma within_exit [within_intros]: "within C g 0 (exit n)"
  by (simp add: within_def runs_exit)

lemma within_pthread_exit [within_intros]: "within C g 0 pthread_exit"
  by (simp add: within_def runs_pthread_exit)

lemma within_crash [within_intros]: "within C g 0 (crash m)"
  by (simp add: within_def runs_crash)

text \<open>A call, and a call whose reply grants what the rest of the program needs.\<close>

lemma within_call_granted:
  assumes "\<And>r. C c r \<Longrightarrow> within C g (n + g (Sys c r)) (k r)"
  shows "within C g (Suc n) (call c k)"
  unfolding within_def
proof (rule runs_call)
  show "runs C (k r) (\<lambda>_ es. calls (Sys c r # es) \<le> Suc n + paid g (Sys c r # es))" if "C c r" for r
    by (rule runs_weaken [OF assms [OF that, unfolded within_def]]) simp
qed simp

lemma within_call [within_intros]:
  "(\<And>r. C c r \<Longrightarrow> within C g n (k r)) \<Longrightarrow> within C g (Suc n) (call c k)"
  by (rule within_call_granted) (rule within_mono, assumption, simp)

lemma within_eff [within_intros]: "within C g n p \<Longrightarrow> within C g n (eff c p)"
  unfolding within_def by (rule runs_eff) (erule runs_weaken, simp)

lemma within_say [within_intros]: "within C g n p \<Longrightarrow> within C g n (say l s a p)"
  unfolding within_def by (rule runs_say) (erule runs_weaken, simp)

lemma within_say_if [within_intros]: "within C g n p \<Longrightarrow> within C g n (say_if b l s a p)"
  by (simp add: say_if_def within_say)

lemma within_if [within_intros]:
  "(b \<Longrightarrow> within C g n p) \<Longrightarrow> (\<not> b \<Longrightarrow> within C g m q) \<Longrightarrow> within C g (max n m) (if b then p else q)"
  by (auto intro: within_mono)

lemma within_case_option [within_intros]:
  "(x = None \<Longrightarrow> within C g n p) \<Longrightarrow> (\<And>y. x = Some y \<Longrightarrow> within C g m (f y)) \<Longrightarrow>
   within C g (max n m) (case x of None \<Rightarrow> p | Some y \<Rightarrow> f y)"
  by (cases x) (simp_all add: within_mono)

lemma within_case_sum [within_intros]:
  "(\<And>y. x = Inl y \<Longrightarrow> within C g n (f y)) \<Longrightarrow> (\<And>y. x = Inr y \<Longrightarrow> within C g m (h y)) \<Longrightarrow>
   within C g (max n m) (case x of Inl y \<Rightarrow> f y | Inr y \<Rightarrow> h y)"
  by (cases x) (simp_all add: within_mono)

lemma within_case_prod [within_intros]:
  "(\<And>y z. x = (y, z) \<Longrightarrow> within C g n (f y z)) \<Longrightarrow> within C g n (case x of (y, z) \<Rightarrow> f y z)"
  by (cases x) simp

lemma within_Let [within_intros]: "within C g n (f x) \<Longrightarrow> within C g n (let y = x in f y)"
  by simp

text \<open>A function of the program as a part of a larger one.\<close>

lemma runs_within:
  "within C g n p \<Longrightarrow> (\<And>out es. calls es \<le> n + paid g es \<Longrightarrow> R out es) \<Longrightarrow> runs C p R"
  unfolding within_def by (rule runs_weaken)

text \<open>After a function that keeps to a bound: a result of the caller that only counts calls.\<close>

lemma runs_bind_within:
  assumes "within C g n p"
    and "\<And>out es. calls es \<le> n + paid g es \<Longrightarrow> (\<forall>a. out \<noteq> Ret a) \<Longrightarrow> R out es"
    and "\<And>a es. calls es \<le> n + paid g es \<Longrightarrow> runs C (f a) (\<lambda>out es'. R out (es @ es'))"
  shows "runs C (bind p f) R"
  by (rule runs_bind_weaken [OF assms(1) [unfolded within_def]], rename_tac out es, case_tac out)
     (auto intro: assms(2,3))

lemma within_bind [within_intros]:
  assumes "within C g n p" "\<And>a. within C g m (f a)"
  shows "within C g (n + m) (bind p f)"
  unfolding within_def
proof (rule runs_bind_within [OF assms(1)], goal_cases)
  case (2 a es)
  show ?case
    by (rule runs_weaken [OF assms(2) [unfolded within_def]]) (use 2 in auto)
qed simp

lemma within_in_thread [within_intros]:
  assumes "within C g n p" "within C g m k"
  shows "within C g (n + m) (in_thread p k)"
  unfolding within_def
proof (rule runs_in_thread, rule runs_weaken [OF assms(1) [unfolded within_def]])
  fix out :: "'a outcome" and es
  assume es: "calls es \<le> n + paid g es"
  have "runs C k (\<lambda>_ es'. calls (es @ es') \<le> n + m + paid g (es @ es'))"
    by (rule runs_weaken [OF assms(2) [unfolded within_def]]) (use es in auto)
  then show "after C (\<lambda>_. k) (\<lambda>_ es. calls es \<le> n + m + paid g es) (thread_ended out) es"
    using es by (cases out) simp_all
qed

section \<open>Bounds of loops\<close>

text \<open>
  One round pays for its calls with what it is granted and with the potential \<open>\<Phi>\<close> of the state;
  the last round may make \<open>n\<close> calls more.
\<close>

fun round_pays :: "(event \<Rightarrow> nat) \<Rightarrow> ('s \<Rightarrow> bool) \<Rightarrow> ('s \<Rightarrow> nat) \<Rightarrow> nat \<Rightarrow> 's \<Rightarrow> ('s + 'a) outcome \<Rightarrow> event list \<Rightarrow> bool" where
  "round_pays g I \<Phi> n s (Ret (Inl s')) es = (I s' \<and> calls es + \<Phi> s' \<le> \<Phi> s + paid g es)"
| "round_pays g I \<Phi> n s out es = (calls es \<le> n + \<Phi> s + paid g es)"

lemma round_pays_no_return [simp]:
  "\<forall>a. out \<noteq> Ret a \<Longrightarrow> round_pays g I \<Phi> n s out es = (calls es \<le> n + \<Phi> s + paid g es)"
  by (cases out) simp_all

lemma round_pays_granted:
  "calls es \<le> paid g es \<Longrightarrow> round_pays g (\<lambda>_. True) (\<lambda>_. 0) n s out es"
  by (cases out rule: goes_round.cases) simp_all

context loop_body
begin

lemma within_loop:
  assumes "I s" and step: "\<And>s. I s \<Longrightarrow> runs C (body s) (round_pays g I \<Phi> n s)"
  shows "within C g (n + \<Phi> s) (loop body s)"
  unfolding within_def
proof (rule invariant [where I = "\<lambda>s' es. I s' \<and> calls es + \<Phi> s' \<le> \<Phi> s + paid g es"])
  fix s' es
  assume so_far: "I s' \<and> calls es + \<Phi> s' \<le> \<Phi> s + paid g es"
  have "round (\<lambda>s' es. I s' \<and> calls es + \<Phi> s' \<le> \<Phi> s + paid g es)
      (\<lambda>_ es. calls es \<le> n + \<Phi> s + paid g es) es out es'"
    if "round_pays g I \<Phi> n s' out es'" for out es'
    using so_far that by (cases out rule: goes_round.cases) auto
  then show "runs C (body s') (round (\<lambda>s' es. I s' \<and> calls es + \<Phi> s' \<le> \<Phi> s + paid g es)
      (\<lambda>_ es. calls es \<le> n + \<Phi> s + paid g es) es)"
    by (rule runs_weaken [OF step [OF conjunct1 [OF so_far]]])
qed (use assms(1) in simp)

text \<open>A loop whose rounds are paid for by the replies alone.\<close>

lemma within_granted_loop:
  assumes "\<And>s. runs C (body s) (round_pays g (\<lambda>_. True) (\<lambda>_. 0) n s)"
  shows "within C g n (loop body s)"
  using within_loop [of "\<lambda>_. True" s C g "\<lambda>_. 0" n] assms by simp

end

section \<open>A bounded program ends\<close>

text \<open>With a larger budget than the bound and the grants, the run is not \<open>Blocked\<close>.\<close>

lemma within_ends:
  assumes "within C g n p" "\<And>h c. C c (os h c)"
    and "trace (snd (p os w)) = trace w @ es" "n + paid g es < budget w"
  shows "fst (p os w) \<noteq> Blocked"
proof -
  from assms(1,2) have "ran w (p os w) (\<lambda>_ es. calls es \<le> n + paid g es)"
    unfolding within_def by (rule runsD)
  then show ?thesis using assms(3,4) by (auto simp: ran_def)
qed

end
