(* ===== verification/Regex.thy ===== *)
theory Regex
  imports Progress
begin

text \<open>
  The regular expressions of the configuration (\<^verbatim>\<open>do_regex\<close> in config.c). All four patterns
  have the shape \<open>^keyword[[:space:]]+(class{1,n})\<close>. The Linux build asks POSIX
  \<^verbatim>\<open>regexec\<close>, whose rule is the longest match, and within it the longest first part
  (\<open>regexec\<close>); the Windows build asks PCRE2, which backtracks from the longest run of spaces
  (\<open>pcre2_match\<close>) and copies the group into a buffer of 256 bytes. The lemmas show what a
  match is, that the two rules choose the same one, and where the two builds differ.
\<close>

record conf_pattern =
  keyword :: string
  in_class :: "char \<Rightarrow> bool"
  max_len :: nat

definition pat_mode :: conf_pattern where
  "pat_mode = \<lparr>keyword = ''mode'', in_class = (\<lambda>c. c = CHR ''t'' \<or> c = CHR ''p''), max_len = 1\<rparr>"

definition pat_homedir :: conf_pattern where
  "pat_homedir = \<lparr>keyword = ''home-directory'', in_class = (\<lambda>c. c \<noteq> LF \<and> c \<noteq> CR), max_len = 259\<rparr>"

definition pat_hostname :: conf_pattern where
  "pat_hostname = \<lparr>keyword = ''hostname'', in_class = (\<lambda>c. c \<noteq> LF \<and> c \<noteq> CR), max_len = 255\<rparr>"

definition pat_port :: conf_pattern where
  "pat_port = \<lparr>keyword = ''port'', in_class = isdigit, max_len = 5\<rparr>"

lemmas pat_defs = pat_mode_def pat_homedir_def pat_hostname_def pat_port_def

section \<open>What a match is\<close>

text \<open>\<open>k\<close> spaces after the keyword, then a group of \<open>g\<close> characters of the class.\<close>

definition is_match :: "conf_pattern \<Rightarrow> string \<Rightarrow> nat \<Rightarrow> nat \<Rightarrow> bool" where
  "is_match p s k g \<longleftrightarrow>
     (let n = length (keyword p) in
      prefix (keyword p) s \<and> 1 \<le> k \<and> 1 \<le> g \<and> g \<le> max_len p \<and> n + k + g \<le> length s \<and>
      (\<forall>c \<in> set (take k (drop n s)). isspace c) \<and>
      (\<forall>c \<in> set (take g (drop (n + k) s)). in_class p c))"

definition group :: "conf_pattern \<Rightarrow> string \<Rightarrow> nat \<Rightarrow> nat \<Rightarrow> string" where
  "group p s k g = take g (drop (length (keyword p) + k) s)"

section \<open>The POSIX rule\<close>

definition candidates :: "conf_pattern \<Rightarrow> string \<Rightarrow> (nat \<times> nat) list" where
  "candidates p s =
     [(k, g). k \<leftarrow> [1..<Suc (length s)], g \<leftarrow> [1..<Suc (min (max_len p) (length s))], is_match p s k g]"

text \<open>Longer wins; of two matches of the same length, the one with the longer first part.\<close>

definition posix_better :: "nat \<times> nat \<Rightarrow> nat \<times> nat \<Rightarrow> bool" where
  "posix_better m n \<longleftrightarrow>
     fst n + snd n < fst m + snd m \<or> (fst n + snd n = fst m + snd m \<and> fst n \<le> fst m)"

definition regexec :: "conf_pattern \<Rightarrow> string \<Rightarrow> (nat \<times> nat) option" where
  "regexec p s =
     (case candidates p s of [] \<Rightarrow> None
      | m # ms \<Rightarrow> Some (fold (\<lambda>n best. if posix_better n best then n else best) ms m))"

section \<open>The backtracking rule\<close>

text \<open>The class takes as many characters as it can, up to its bound.\<close>

definition greedy_group :: "conf_pattern \<Rightarrow> string \<Rightarrow> nat" where
  "greedy_group p rest = length (takeWhile (in_class p) (take (max_len p) rest))"

fun backtrack :: "conf_pattern \<Rightarrow> string \<Rightarrow> nat \<Rightarrow> (nat \<times> nat) option" where
  "backtrack p rest 0 = None"
| "backtrack p rest (Suc k) =
     (if greedy_group p (drop (Suc k) rest) = 0 then backtrack p rest k
      else Some (Suc k, greedy_group p (drop (Suc k) rest)))"

definition pcre2_match :: "conf_pattern \<Rightarrow> string \<Rightarrow> (nat \<times> nat) option" where
  "pcre2_match p s =
     (if prefix (keyword p) s
      then (let rest = drop (length (keyword p)) s
            in backtrack p rest (length (takeWhile isspace rest)))
      else None)"

section \<open>The two builds of do_regex\<close>

text \<open>
  The group, or the empty string when nothing matches. On Linux, compiling and the copy of
  the group need memory, and the process exits without it.
\<close>

definition do_regex :: "conf_pattern \<Rightarrow> string \<Rightarrow> string prog" where
  "do_regex p str =
     call (Mem (Regcomp (keyword p))) (\<lambda>reti.
     if rv reti \<noteq> 0 then say ERROR (''Could not compile regex'' @ [LF]) [] (exit 1)
     else case regexec p str of
       None \<Rightarrow> ret []
     | Some (k, g) \<Rightarrow>
         call (Mem (Malloc ''r'' (int g + 1))) (\<lambda>r.
         if rv r = 0 then say ERROR ''calloc of r failed'' [] (exit 1)
         else ret (group p str k g)))"

text \<open>On Windows the group goes into a buffer of 256 bytes; a longer one is not copied.\<close>

definition do_regex_win32 :: "conf_pattern \<Rightarrow> string \<Rightarrow> string" where
  "do_regex_win32 p str =
     (case pcre2_match p str of
        None \<Rightarrow> []
      | Some (k, g) \<Rightarrow> if g + 1 \<le> 256 then group p str k g else [])"

text \<open>What \<^verbatim>\<open>do_regex\<close> returns when memory does not run out.\<close>

definition regex_group :: "conf_pattern \<Rightarrow> string \<Rightarrow> string" where
  "regex_group p str = (case regexec p str of None \<Rightarrow> [] | Some (k, g) \<Rightarrow> group p str k g)"

section \<open>Both rules choose the same match\<close>

lemma is_match_bounds: "is_match p s k g \<Longrightarrow> k \<le> length s \<and> g \<le> min (max_len p) (length s)"
  by (auto simp: is_match_def Let_def)

lemma set_candidates: "set (candidates p s) = {(k, g). is_match p s k g}"
proof -
  have "is_match p s k g \<Longrightarrow> 1 \<le> k \<and> 1 \<le> g" for k g
    by (simp add: is_match_def Let_def)
  with is_match_bounds show ?thesis
    by (fastforce simp: candidates_def)
qed

lemma posix_better_trans: "posix_better a b \<Longrightarrow> posix_better b c \<Longrightarrow> posix_better a c"
  by (auto simp: posix_better_def)

lemma posix_better_total: "posix_better a b \<or> posix_better b a"
  by (auto simp: posix_better_def)

lemma posix_better_antisym: "posix_better a b \<Longrightarrow> posix_better b a \<Longrightarrow> a = b"
  by (auto simp: posix_better_def prod_eq_iff)

lemma fold_best:
  defines "pick \<equiv> \<lambda>n best. if posix_better n best then n else best"
  shows "fold pick ms m \<in> insert m (set ms) \<and> (\<forall>n \<in> insert m (set ms). posix_better (fold pick ms m) n)"
proof (induction ms arbitrary: m)
  case Nil
  show ?case by (simp add: posix_better_def)
next
  case (Cons n ms)
  have pick: "pick n m \<in> {n, m}" "posix_better (pick n m) n" "posix_better (pick n m) m"
    using posix_better_total [of n m] by (auto simp: pick_def posix_better_def)
  show ?case
    using Cons.IH [of "pick n m"] pick by (auto intro: posix_better_trans)
qed

lemma regexec_Some:
  "regexec p s = Some (k, g) \<longleftrightarrow>
     is_match p s k g \<and> (\<forall>k' g'. is_match p s k' g' \<longrightarrow> posix_better (k, g) (k', g'))"
proof (cases "candidates p s")
  case Nil
  then have "\<not> is_match p s k g" for k g
    using set_candidates [of p s] by auto
  with Nil show ?thesis by (simp add: regexec_def)
next
  case (Cons m ms)
  let ?best = "fold (\<lambda>n best. if posix_better n best then n else best) ms m"
  have set_ms: "insert m (set ms) = {(k, g). is_match p s k g}"
    using set_candidates [of p s] Cons by simp
  have best: "?best \<in> {(k, g). is_match p s k g}"
    "\<forall>n \<in> {(k, g). is_match p s k g}. posix_better ?best n"
    using fold_best [of ms m] unfolding set_ms by auto
  have "regexec p s = Some ?best"
    by (simp add: regexec_def Cons)
  with best show ?thesis
    by (auto intro: posix_better_antisym)
qed

lemma regexec_None: "regexec p s = None \<longleftrightarrow> (\<forall>k g. \<not> is_match p s k g)"
proof -
  have "candidates p s = [] \<longleftrightarrow> (\<forall>k g. \<not> is_match p s k g)"
    using set_candidates [of p s] by (simp flip: set_empty)
  moreover have "regexec p s = None \<longleftrightarrow> candidates p s = []"
    by (cases "candidates p s") (simp_all add: regexec_def)
  ultimately show ?thesis by simp
qed

text \<open>The longest group after \<open>k\<close> spaces, and what the backtracking finds.\<close>

lemma greedy_group_le: "greedy_group p rest \<le> max_len p" "greedy_group p rest \<le> length rest"
  unfolding greedy_group_def
  using length_takeWhile_le [of "in_class p" "take (max_len p) rest"] by auto

lemma greedy_group_class: "\<forall>c \<in> set (take (greedy_group p rest) rest). in_class p c"
proof -
  let ?t = "takeWhile (in_class p) (take (max_len p) rest)"
  have "take (length ?t) rest = ?t"
    by (metis takeWhile_eq_take take_take length_takeWhile_le length_take min.bounded_iff
        min.absorb1)
  then show ?thesis
    by (auto simp: greedy_group_def dest: set_takeWhileD)
qed

lemma greedy_group_ge:
  assumes "g \<le> max_len p" "g \<le> length rest" "\<forall>c \<in> set (take g rest). in_class p c"
  shows "g \<le> greedy_group p rest"
proof -
  have "take g rest @ drop g (take (max_len p) rest) = take (max_len p) rest"
    using assms(1) by (metis append_take_drop_id min.absorb1 take_take)
  then have "takeWhile (in_class p) (take (max_len p) rest) =
      take g rest @ takeWhile (in_class p) (drop g (take (max_len p) rest))"
    using assms(3) by (metis takeWhile_append2)
  with assms(2) show ?thesis
    by (simp add: greedy_group_def)
qed

lemma takeWhile_take_ge:
  assumes "k \<le> length xs" "\<forall>c \<in> set (take k xs). P c"
  shows "k \<le> length (takeWhile P xs)"
proof -
  have "takeWhile P (take k xs @ drop k xs) = take k xs @ takeWhile P (drop k xs)"
    using assms(2) by (intro takeWhile_append2) auto
  with assms(1) show ?thesis by simp
qed

lemma take_takeWhile_all:
  assumes "k \<le> length (takeWhile P xs)" "c \<in> set (take k xs)"
  shows "P c"
proof -
  have "take k xs = take k (takeWhile P xs @ dropWhile P xs)" by simp
  also have "\<dots> = take k (takeWhile P xs)" using assms(1) by (simp del: takeWhile_dropWhile_id)
  finally show ?thesis
    using assms(2) by (metis in_set_takeD set_takeWhileD)
qed

lemma is_match_run:
  assumes "prefix (keyword p) s"
  defines "rest \<equiv> drop (length (keyword p)) s"
  shows "is_match p s k g \<longleftrightarrow> 1 \<le> k \<and> k \<le> length (takeWhile isspace rest) \<and> 1 \<le> g \<and> g \<le> greedy_group p (drop k rest)"
    (is "?l \<longleftrightarrow> ?r")
proof
  have n: "length (keyword p) \<le> length s"
    using assms(1) by (rule prefix_length_le)
  show "?l \<Longrightarrow> ?r"
    using n by (auto simp: is_match_def Let_def rest_def add.commute
        intro!: takeWhile_take_ge greedy_group_ge)
  assume r: ?r
  have "\<forall>c \<in> set (take k rest). isspace c"
    using r take_takeWhile_all [of k isspace rest] by blast
  moreover have "\<forall>c \<in> set (take g (drop k rest)). in_class p c"
    using r greedy_group_class [of p "drop k rest"]
      set_take_subset_set_take [of g "greedy_group p (drop k rest)" "drop k rest"] by auto
  moreover have "k \<le> length rest" "g \<le> length (drop k rest)" "g \<le> max_len p"
    using r greedy_group_le [of p "drop k rest"] length_takeWhile_le [of isspace rest] by linarith+
  ultimately show ?l
    using r n assms(1) by (auto simp: is_match_def Let_def rest_def add.commute)
qed

lemma backtrack_spec:
  "backtrack p rest n = Some (k, g) \<longleftrightarrow>
     1 \<le> k \<and> k \<le> n \<and> 0 < greedy_group p (drop k rest) \<and> g = greedy_group p (drop k rest) \<and>
     (\<forall>j. k < j \<and> j \<le> n \<longrightarrow> greedy_group p (drop j rest) = 0)"
proof (induction n)
  case 0
  show ?case by simp
next
  case (Suc n)
  show ?case
  proof (cases "greedy_group p (drop (Suc n) rest) = 0")
    case True
    then have "k \<le> Suc n \<and> 0 < greedy_group p (drop k rest) \<longleftrightarrow> k \<le> n \<and> 0 < greedy_group p (drop k rest)"
      by (metis le_Suc_eq less_irrefl)
    with True Suc show ?thesis
      by (auto simp: le_Suc_eq)
  next
    case False
    then show ?thesis
      by (auto simp: le_Suc_eq)
  qed
qed

text \<open>
  More spaces never make a shorter match: moving the end of the spaces to the right moves
  the end of the match to the right.
\<close>

lemma more_spaces_longer:
  assumes "k \<le> j" "0 < greedy_group p (drop j rest)"
  shows "k + greedy_group p (drop k rest) \<le> j + greedy_group p (drop j rest)"
proof (cases "greedy_group p (drop k rest) \<le> j - k")
  case True
  with assms show ?thesis by linarith
next
  case False
  let ?g = "greedy_group p (drop k rest) - (j - k)"
  have "set (take ?g (drop j rest)) \<subseteq> set (take (greedy_group p (drop k rest)) (drop k rest))"
  proof -
    have "take ?g (drop j rest) = drop (j - k) (take (greedy_group p (drop k rest)) (drop k rest))"
      using assms(1) by (simp add: drop_take)
    then show ?thesis by (simp add: set_drop_subset)
  qed
  then have "\<forall>c \<in> set (take ?g (drop j rest)). in_class p c"
    using greedy_group_class [of p "drop k rest"] by blast
  moreover have "?g \<le> max_len p" "?g \<le> length (drop j rest)"
    using greedy_group_le [of p "drop k rest"] assms(1) by auto
  ultimately have "?g \<le> greedy_group p (drop j rest)"
    by (intro greedy_group_ge)
  with assms(1) False show ?thesis by linarith
qed

lemma backtrack_None:
  "backtrack p rest n = None \<longleftrightarrow> (\<forall>j. 1 \<le> j \<and> j \<le> n \<longrightarrow> greedy_group p (drop j rest) = 0)"
  by (induction n) (auto simp: le_Suc_eq)

lemma pcre2_match_is_regexec: "pcre2_match p s = regexec p s"
proof (cases "prefix (keyword p) s")
  case False
  then have "regexec p s = None"
    by (simp add: regexec_None is_match_def Let_def)
  with False show ?thesis by (simp add: pcre2_match_def)
next
  case True
  let ?rest = "drop (length (keyword p)) s"
  let ?n = "length (takeWhile isspace ?rest)"
  note match = is_match_run [OF True]
  show ?thesis
  proof (cases "backtrack p ?rest ?n")
    case None
    then have "regexec p s = None"
      by (auto simp: backtrack_None regexec_None match)
    with None True show ?thesis by (simp add: pcre2_match_def Let_def)
  next
    case (Some m)
    obtain k g where m: "m = (k, g)" by fastforce
    from Some m have k: "1 \<le> k" "k \<le> ?n" "0 < g" and g: "g = greedy_group p (drop k ?rest)"
      and last: "\<And>j. k < j \<Longrightarrow> j \<le> ?n \<Longrightarrow> greedy_group p (drop j ?rest) = 0"
      by (auto simp: backtrack_spec)
    have "posix_better (k, g) (k', g')" if "is_match p s k' g'" for k' g'
    proof -
      from that match have k': "1 \<le> k'" "k' \<le> ?n" "1 \<le> g'" "g' \<le> greedy_group p (drop k' ?rest)"
        by auto
      with last have "k' \<le> k" by (metis leI le_zero_eq not_one_le_zero)
      moreover have "k' + g' \<le> k + g"
        using more_spaces_longer [OF \<open>k' \<le> k\<close>, of p ?rest] k'(4) k(3) g by simp
      ultimately show ?thesis by (auto simp: posix_better_def)
    qed
    moreover have "is_match p s k g"
      using k g by (simp add: match)
    ultimately have "regexec p s = Some (k, g)"
      by (simp add: regexec_Some)
    with Some m True show ?thesis by (simp add: pcre2_match_def Let_def)
  qed
qed

section \<open>What the group can be\<close>

lemma regex_group_chars:
  assumes "c \<in> set (regex_group p s)"
  shows "in_class p c \<and> c \<in> set s"
proof -
  from assms obtain k g where "regexec p s = Some (k, g)" "c \<in> set (group p s k g)"
    by (cases "regexec p s") (auto simp: regex_group_def)
  then show ?thesis
    by (auto simp: regexec_Some is_match_def group_def Let_def dest: in_set_takeD in_set_dropD)
qed

lemma group_length: "is_match p s k g \<Longrightarrow> length (group p s k g) = g"
  by (auto simp: is_match_def group_def Let_def min_def)

lemma regex_group_cases:
  obtains "regexec p s = None" "regex_group p s = []"
  | k g where "regexec p s = Some (k, g)" "is_match p s k g" "regex_group p s = group p s k g"
proof (cases "regexec p s")
  case (Some m)
  then show ?thesis
    using that(2) [of "fst m" "snd m"] regexec_Some [of p s "fst m" "snd m"]
    by (simp add: regex_group_def split: prod.splits)
qed (simp add: that(1) regex_group_def)

lemma regex_group_length: "length (regex_group p s) \<le> max_len p"
  by (rule regex_group_cases [of p s]) (auto simp: group_length, simp add: is_match_def Let_def)

lemma regex_group_Nil: "regex_group p s = [] \<longleftrightarrow> regexec p s = None"
proof (rule regex_group_cases [of p s])
  fix k g assume "regexec p s = Some (k, g)" "is_match p s k g" "regex_group p s = group p s k g"
  moreover from this(2) have "group p s k g \<noteq> []"
    using group_length [of p s k g] by (auto simp: is_match_def Let_def)
  ultimately show ?thesis by simp
qed simp

text \<open>All that \<^verbatim>\<open>do_regex\<close> asks the system for is memory.\<close>

definition mem_only :: "event list \<Rightarrow> bool" where
  "mem_only es \<longleftrightarrow> (\<forall>e \<in> set es. \<exists>m r. e = Sys (Mem m) r)"

lemma runs_do_regex:
  assumes "\<And>es. mem_only es \<Longrightarrow> R Blocked es"
    and "\<And>es. mem_only es \<Longrightarrow> R (Exit 1) (es @ [Log ERROR (''Could not compile regex'' @ [LF]) []])"
    and "\<And>es. mem_only es \<Longrightarrow> R (Exit 1) (es @ [Log ERROR ''calloc of r failed'' []])"
    and "\<And>es. mem_only es \<Longrightarrow> R (Ret (regex_group p s)) es"
  shows "runs C (do_regex p s) R"
proof -
  have "mem_only []" "\<And>m r es. mem_only es \<Longrightarrow> mem_only (Sys (Mem m) r # es)"
    by (auto simp: mem_only_def)
  with assms(1,4) assms(2) [of "[Sys (Mem (Regcomp (keyword p))) r]" for r]
    assms(3) [of "[Sys (Mem (Regcomp (keyword p))) r, Sys (Mem m) r']" for r r' m]
  show ?thesis
    unfolding do_regex_def
    by (intro runs_intros) (auto simp: regex_group_def)
qed

end
