(* ===== verification/Config.thy ===== *)
theory Config
  imports Regex
begin

text \<open>
  The configuration file (config.c): one function per setting of \<^verbatim>\<open>read_conf_line\<close>, the port
  (\<^verbatim>\<open>check_if_port_change\<close>), and the loop over the lines (\<^verbatim>\<open>read_and_check_conf\<close>). The
  lemmas show what a line does to the settings when every call succeeds (\<open>conf_line\<close>), that the
  program does exactly that on every line read and exits otherwise, and that the invariant of
  the settings is kept.
\<close>

section \<open>The operations\<close>

definition read_conf_mode :: "string \<Rightarrow> settings_t \<Rightarrow> settings_t prog" where
  "read_conf_mode line st =
     bind (do_regex pat_mode line) (\<lambda>match.
     if match = [] then ret st
     else if hd match = CHR ''t'' then
       say DEBUG (''read_conf_line: new mode: '' @ [QUOTE] @ ''multithread'' @ [QUOTE]) []
       (eff (Mem (Free ''match'')) (ret (st\<lparr>mode := CHR ''t''\<rparr>)))
     else if hd match = CHR ''p'' then
       say DEBUG (''read_conf_line: new mode: '' @ [QUOTE] @ ''multiprocess'' @ [QUOTE]) []
       (eff (Mem (Free ''match'')) (ret (st\<lparr>mode := CHR ''p''\<rparr>)))
     else eff (Mem (Free ''match'')) (ret st))"

text \<open>The new value of the home directory's buffer.\<close>

definition store_homedir :: "string \<Rightarrow> string \<Rightarrow> string" where
  "store_homedir buf match =
     (let b = strncpy buf match 259
      in if b ! (length (cstr b) - 1) \<noteq> CHR ''/'' then append_slash b else b)"

definition read_conf_homedir :: "string \<Rightarrow> settings_t \<Rightarrow> settings_t prog" where
  "read_conf_homedir line st =
     bind (do_regex pat_homedir line) (\<lambda>match.
     if match = [] then ret st
     else
       call (File (Opendir match)) (\<lambda>folder.
       if rv folder = 0 then
         say ERROR ''Cant find home-directory: %s'' [AS match] (exit 1)
       else
         eff (File Closedir) (
         let st' = st\<lparr>homedir := store_homedir (homedir st) match\<rparr> in
         say DEBUG ''read_conf_line: new homedir: \"%s\"'' [AS (home st')]
         (eff (Mem (Free ''match'')) (ret st')))))"

definition read_conf_hostname :: "string \<Rightarrow> settings_t \<Rightarrow> settings_t prog" where
  "read_conf_hostname line st =
     bind (do_regex pat_hostname line) (\<lambda>match.
     if match = [] then ret st
     else
       let st' = st\<lparr>hostname := strncpy (hostname st) match 255\<rparr> in
       say DEBUG ''read_conf_line: new hostname: \"%s\"'' [AS (host st')]
       (eff (Mem (Free ''match'')) (ret st')))"

definition read_conf_line :: "string \<Rightarrow> settings_t \<Rightarrow> settings_t prog" where
  "read_conf_line line st =
     say DEBUG ''Line read from conf file: %s'' [AS line]
     (bind (read_conf_mode line st) (\<lambda>st.
      bind (read_conf_homedir line st) (\<lambda>st.
      read_conf_hostname line st)))"

definition check_if_port_change :: "string \<Rightarrow> settings_t \<Rightarrow> (bool \<times> settings_t) prog" where
  "check_if_port_change line st =
     bind (do_regex pat_port line) (\<lambda>match.
     if match = [] then ret (False, st)
     else
       let val = int (strtol10 match) in
       if val = 0 then
         say ERROR ''strtoll val in check_if_port_change, Failed with an error'' [] (exit 1)
       else if val \<noteq> 0 \<and> val \<noteq> port st \<and> val < 65536 then
         say DEBUG (''check_if_port_change: new port: '' @ [QUOTE] @ ''%d'' @ [QUOTE]) [AI val]
         (eff (Mem (Free ''match'')) (ret (True, st\<lparr>port := val\<rparr>)))
       else eff (Mem (Free ''match'')) (ret (False, st)))"

text \<open>What the loop does with a line: the handler of SIGHUP looks at the port only.\<close>

definition use_line :: "bool \<Rightarrow> bool \<Rightarrow> settings_t \<Rightarrow> string \<Rightarrow>
    (bool \<times> settings_t + bool \<times> settings_t) prog" where
  "use_line called_from_handler port_change st line =
     bind (if called_from_handler then ret st else read_conf_line line st) (\<lambda>st.
     bind (check_if_port_change line st) (\<lambda>(changed, st).
     ret (Inl (port_change \<or> changed, st))))"

text \<open>The line without its newline, when it has one.\<close>

definition line_of :: "string \<Rightarrow> string" where
  "line_of raw = (if last raw \<noteq> LF then raw else butlast raw)"

text \<open>
  One round of the loop: \<^verbatim>\<open>fgets\<close> stores at most 511 characters. \<open>line[strlen(line) - 1]\<close> of a
  line that starts with a NUL byte is outside the buffer.
\<close>

definition conf_round :: "bool \<Rightarrow> bool \<times> settings_t \<Rightarrow> (bool \<times> settings_t + bool \<times> settings_t) prog" where
  "conf_round called_from_handler s =
     (let (port_change, st) = s in
      call (File (Fgets 512)) (\<lambda>r.
      if rv r = 0 then
        (if num r \<noteq> 0 then ret (Inr (port_change, st))
         else say ERROR ''fgets() failed: %s'' [AE (errno r)] (exit 5))
      else
        let raw = cstr (payload r) in
        if raw = [] then crash ''line[line_len - 1] with an empty line''
        else
          say_if (last raw \<noteq> LF) WARNING
            (''Line doesn'' @ [QUOTE] @ ''t end with '' @ [QUOTE, BACKSLASH] @ ''n'' @ [QUOTE]
               @ '' or is too long: %s'') [AS raw]
          (if length raw \<le> 512 then
             use_line called_from_handler port_change st (line_of raw)
           else ret (Inl (port_change, st)))))"

definition read_and_check_conf :: "settings_t \<Rightarrow> bool \<Rightarrow> (bool \<times> settings_t) prog" where
  "read_and_check_conf st called_from_handler =
     call (File (FopenRead SACAGAWEACONF_PATH)) (\<lambda>fp.
     if rv fp = 0 then say ERROR ''fopen() failed: %s'' [AE (errno fp)] (exit 5)
     else
       bind (loop (conf_round called_from_handler) (False, st)) (\<lambda>(port_change, st).
       eff (File Fclose) (ret (port_change, st))))"

section \<open>What a line means\<close>

definition conf_mode :: "string \<Rightarrow> settings_t \<Rightarrow> settings_t" where
  "conf_mode line st =
     (let m = regex_group pat_mode line in if m = [] then st else st\<lparr>mode := hd m\<rparr>)"

definition conf_homedir :: "string \<Rightarrow> settings_t \<Rightarrow> settings_t" where
  "conf_homedir line st =
     (let m = regex_group pat_homedir line in
      if m = [] then st else st\<lparr>homedir := store_homedir (homedir st) m\<rparr>)"

definition conf_hostname :: "string \<Rightarrow> settings_t \<Rightarrow> settings_t" where
  "conf_hostname line st =
     (let m = regex_group pat_hostname line in
      if m = [] then st else st\<lparr>hostname := strncpy (hostname st) m 255\<rparr>)"

definition conf_port :: "string \<Rightarrow> settings_t \<Rightarrow> settings_t" where
  "conf_port line st =
     (let m = regex_group pat_port line in
      if m \<noteq> [] \<and> 0 < strtol10 m \<and> strtol10 m < 65536 then st\<lparr>port := int (strtol10 m)\<rparr> else st)"

definition conf_line :: "bool \<Rightarrow> string \<Rightarrow> settings_t \<Rightarrow> settings_t" where
  "conf_line handler line st =
     conf_port line (if handler then st
       else conf_hostname line (conf_homedir line (conf_mode line st)))"

text \<open>The lines a run has read.\<close>

fun lines_read :: "event list \<Rightarrow> string list" where
  "lines_read (Sys (File (Fgets n)) r # es) =
     (if rv r = 0 then lines_read es else line_of (cstr (payload r)) # lines_read es)"
| "lines_read (e # es) = lines_read es"
| "lines_read [] = []"

definition conf_lines :: "bool \<Rightarrow> string list \<Rightarrow> settings_t \<Rightarrow> settings_t" where
  "conf_lines handler ls st = fold (conf_line handler) ls st"

lemma lines_read_append [simp]: "lines_read (es @ es') = lines_read es @ lines_read es'"
  by (induction es rule: lines_read.induct) auto

lemma no_lines_read: "\<forall>e \<in> set es. lines_read [e] = [] \<Longrightarrow> lines_read es = []"
proof (induction es)
  case (Cons e es)
  then show ?case using lines_read_append [of "[e]" es] by simp
qed simp

lemma conf_lines_Nil [simp]: "conf_lines h [] st = st"
  by (simp add: conf_lines_def)

lemma conf_lines_snoc [simp]: "conf_lines h (ls @ [l]) st = conf_line h l (conf_lines h ls st)"
  by (simp add: conf_lines_def)


fun port_changes :: "bool \<Rightarrow> string list \<Rightarrow> settings_t \<Rightarrow> bool" where
  "port_changes h [] st = False"
| "port_changes h (l # ls) st =
     (port (conf_line h l st) \<noteq> port st \<or> port_changes h ls (conf_line h l st))"

lemma port_changes_append [simp]:
  "port_changes h (ls @ ls') st = (port_changes h ls st \<or> port_changes h ls' (conf_lines h ls st))"
  by (induction ls arbitrary: st) (auto simp: conf_lines_def)

section \<open>The operations do what the line means\<close>

lemma mem_only_lines_read [simp]: "mem_only es \<Longrightarrow> lines_read es = []"
  by (induction es rule: lines_read.induct) (auto simp: mem_only_def)

lemma mode_group:
  "regex_group pat_mode line \<noteq> [] \<Longrightarrow>
   hd (regex_group pat_mode line) = CHR ''t'' \<or> hd (regex_group pat_mode line) = CHR ''p''"
  using regex_group_chars [of "hd (regex_group pat_mode line)" pat_mode line]
  by (auto simp: pat_mode_def)

text \<open>The functions below read no line themselves, and return or exit with code 1.\<close>

definition quiet :: "('a \<Rightarrow> bool) \<Rightarrow> 'a outcome \<Rightarrow> event list \<Rightarrow> bool" where
  "quiet P out es \<longleftrightarrow> lines_read es = [] \<and> returns_or_exits P (\<lambda>n. n = 1) out"

lemma quiet_Log [simp]: "quiet P out (Log l s a # es) \<longleftrightarrow> quiet P out es"
  by (simp add: quiet_def)

lemma quiet_Eff [simp]: "quiet P out (Eff c # es) \<longleftrightarrow> quiet P out es"
  by (simp add: quiet_def)

lemma runs_read_conf_mode:
  "runs C (read_conf_mode line st) (quiet (\<lambda>st'. st' = conf_mode line st))"
  unfolding read_conf_mode_def
  by (intro runs_bind runs_do_regex; (simp add: quiet_def)?; intro conjI impI runs_intros)
     (auto simp: quiet_def conf_mode_def Let_def dest: mode_group)

lemma runs_read_conf_homedir:
  "runs C (read_conf_homedir line st) (quiet (\<lambda>st'. st' = conf_homedir line st))"
  unfolding read_conf_homedir_def
  by (intro runs_bind runs_do_regex; (simp add: quiet_def)?; intro conjI impI runs_intros)
     (auto simp: quiet_def conf_homedir_def Let_def)

lemma runs_read_conf_hostname:
  "runs C (read_conf_hostname line st) (quiet (\<lambda>st'. st' = conf_hostname line st))"
  unfolding read_conf_hostname_def
  by (intro runs_bind runs_do_regex; (simp add: quiet_def)?; intro conjI impI runs_intros)
     (auto simp: quiet_def conf_hostname_def Let_def)


lemma quiet_bind:
  assumes "runs C p (quiet P)" "\<And>a. P a \<Longrightarrow> runs C (f a) (quiet Q)"
  shows "runs C (bind p f) (quiet Q)"
proof (rule runs_bind_weaken [OF assms(1)])
  fix out :: "'a outcome" and es
  assume "quiet P out es"
  then show "after C f (quiet Q) out es"
    by (cases out) (auto simp: quiet_def intro!: runs_weaken [OF assms(2)])
qed

lemma runs_read_conf_line:
  "runs C (read_conf_line line st)
     (quiet (\<lambda>st'. st' = conf_hostname line (conf_homedir line (conf_mode line st))))"
proof -
  have "runs C (bind (read_conf_mode line st) (\<lambda>st. bind (read_conf_homedir line st) (read_conf_hostname line)))
     (quiet (\<lambda>st'. st' = conf_hostname line (conf_homedir line (conf_mode line st))))"
    by (rule quiet_bind [OF runs_read_conf_mode], rule quiet_bind [OF runs_read_conf_homedir])
       (simp add: runs_read_conf_hostname)
  then show ?thesis
    unfolding read_conf_line_def by (intro runs_say) simp
qed

lemma port_group:
  assumes "m = regex_group pat_port line" "m \<noteq> []"
  shows "strtol10 m = digits_val m" "digits_val m < 100000"
proof -
  have digits: "\<forall>c \<in> set m. isdigit c"
    using regex_group_chars [of _ pat_port line] assms(1) by (auto simp: pat_port_def)
  then show "strtol10 m = digits_val m"
    by (simp add: strtol10_def takeWhile_eq_all_conv [THEN iffD2])
  have "digits_val m < 10 ^ length m"
    using digits by (rule digits_val_bound)
  also have "\<dots> \<le> 10 ^ 5"
    using regex_group_length [of pat_port line] assms(1)
    by (intro power_increasing) (auto simp: pat_port_def)
  finally show "digits_val m < 100000" by simp
qed

lemma runs_check_if_port_change:
  "runs C (check_if_port_change line st)
     (quiet (\<lambda>(changed, st'). st' = conf_port line st \<and> (changed \<longleftrightarrow> port st' \<noteq> port st)))"
  unfolding check_if_port_change_def
  by (intro runs_bind runs_do_regex; (simp add: quiet_def)?; intro conjI impI runs_intros)
     (auto simp: quiet_def conf_port_def Let_def)

section \<open>The loop over the file\<close>

text \<open>One round reads at most one line; going round again it has read and applied it.\<close>

definition round_reads :: "bool \<Rightarrow> bool \<times> settings_t \<Rightarrow> (bool \<times> settings_t + bool \<times> settings_t) outcome \<Rightarrow>
    event list \<Rightarrow> bool" where
  "round_reads h s out es =
     (case out of
        Ret (Inl s') \<Rightarrow> (\<exists>l. lines_read es = [l] \<and> snd s' = conf_line h l (snd s) \<and>
           (fst s' \<longleftrightarrow> fst s \<or> port (snd s') \<noteq> port (snd s))) \<and> 0 < calls es
      | Ret (Inr s') \<Rightarrow> lines_read es = [] \<and> s' = s
      | Exit n \<Rightarrow> n = 1 \<or> n = 5
      | ThreadExit \<Rightarrow> False
      | Crash m \<Rightarrow> (\<exists>r. Sys (File (Fgets 512)) r \<in> set es \<and> rv r \<noteq> 0 \<and> cstr (payload r) = [])
      | Blocked \<Rightarrow> True)"


lemma runs_use_line:
  assumes "\<And>es. lines_read es = [] \<Longrightarrow> R Blocked es"
    and "\<And>es. lines_read es = [] \<Longrightarrow> R (Exit 1) es"
    and "\<And>es st'. lines_read es = [] \<Longrightarrow> st' = conf_line h l st \<Longrightarrow>
      R (Ret (Inl (changed \<or> port st' \<noteq> port st, st'))) es"
  shows "runs C (use_line h changed st l) R"
proof -
  let ?st = "if h then st else conf_hostname l (conf_homedir l (conf_mode l st))"
  have first: "runs C (if h then ret st else read_conf_line l st) (quiet (\<lambda>st'. st' = ?st))"
    using runs_read_conf_line [of C l st] by (auto simp: quiet_def intro!: runs_ret)
  have "port ?st = port st"
    by (simp add: conf_hostname_def conf_homedir_def conf_mode_def Let_def)
  then have "runs C (use_line h changed st l)
     (quiet (\<lambda>x. \<exists>st'. st' = conf_line h l st \<and> x = Inl (changed \<or> port st' \<noteq> port st, st')))"
    unfolding use_line_def
    by (intro quiet_bind [OF first] quiet_bind [OF runs_check_if_port_change])
       (auto simp: quiet_def conf_line_def intro!: runs_ret)
  then show ?thesis
  proof (rule runs_weaken)
    show "quiet (\<lambda>x. \<exists>st'. st' = conf_line h l st \<and>
        x = Inl (changed \<or> port st' \<noteq> port st, st')) out es \<Longrightarrow> R out es" for out es
      using assms by (cases out) (auto simp: quiet_def)
  qed
qed

lemma runs_conf_round: "runs posix_os (conf_round h s) (round_reads h s)"
proof -
  have short: "length (payload r) < 512 \<Longrightarrow> length (cstr (payload r)) \<le> 512" for r :: reply
    by (auto intro: order_trans [OF cstr_length_le])
  show ?thesis
    unfolding conf_round_def Let_def
    by (intro runs_intros runs_use_line) (auto simp: round_reads_def dest: short)
qed


lemma conf_round_consumes:
  "runs any_os (conf_round h s) (\<lambda>out es. goes_round out \<longrightarrow> 0 < calls es)"
  by (cases s; simp only: conf_round_def Let_def prod.case; rule consumes_call;
      intro runs_intros runs_use_line; simp)

interpretation conf_loop: loop_body "conf_round h" for h
  by unfold_locales (rule conf_round_consumes)

text \<open>The whole function: every line read is applied, in order, and nothing else.\<close>

definition conf_result :: "bool \<Rightarrow> settings_t \<Rightarrow> (bool \<times> settings_t) outcome \<Rightarrow> event list \<Rightarrow> bool" where
  "conf_result h st out es =
     (case out of
        Ret (changed, st') \<Rightarrow> st' = conf_lines h (lines_read es) st \<and>
          (changed \<longleftrightarrow> port_changes h (lines_read es) st)
      | Exit n \<Rightarrow> n = 1 \<or> n = 5
      | ThreadExit \<Rightarrow> False
      | Crash m \<Rightarrow> (\<exists>r. Sys (File (Fgets 512)) r \<in> set es \<and> rv r \<noteq> 0 \<and> cstr (payload r) = [])
      | Blocked \<Rightarrow> True)"

lemma runs_conf_loop: "runs posix_os (loop (conf_round h) (False, st)) (conf_result h st)"
proof (rule conf_loop.invariant [where I = "\<lambda>s. conf_result h st (Ret s)"])
  show "conf_result h st (Ret (False, st)) []"
    by (simp add: conf_result_def)
  fix s es0
  assume I: "conf_result h st (Ret s) es0"
  have "round (\<lambda>s. conf_result h st (Ret s)) (conf_result h st) es0 out es"
    if "round_reads h s out es" for out es
    using that I
    by (cases out rule: goes_round.cases)
       (auto simp: round_reads_def conf_result_def)
  then show "runs posix_os (conf_round h s)
      (round (\<lambda>s. conf_result h st (Ret s)) (conf_result h st) es0)"
    by (rule runs_weaken [OF runs_conf_round])
qed

lemma runs_read_and_check_conf:
  "runs posix_os (read_and_check_conf st h) (conf_result h st)"
  unfolding read_and_check_conf_def
proof (intro runs_intros)
  fix r
  let ?R = "\<lambda>out es. conf_result h st out (Sys (File (FopenRead SACAGAWEACONF_PATH)) r # es)"
  show "runs posix_os (loop (conf_round h) (False, st))
      (after posix_os (\<lambda>(port_change, st). eff (File Fclose) (ret (port_change, st))) ?R)"
  proof (rule runs_weaken [OF runs_conf_loop])
    fix out es
    assume "conf_result h st out es"
    then show "after posix_os (\<lambda>(port_change, st). eff (File Fclose) (ret (port_change, st))) ?R out es"
      by (cases out) (auto simp: conf_result_def intro!: runs_eff runs_ret)
  qed
qed (auto simp: conf_result_def)


section \<open>The settings stay well-formed\<close>

lemma store_homedir_cases:
  assumes "NUL \<notin> set m" "m \<noteq> []" "length m \<le> 259"
  obtains "store_homedir buf m = strncpy buf m 259" "ends_in_slash (cstr (strncpy buf m 259))"
  | "store_homedir buf m = append_slash (strncpy buf m 259)" "\<not> ends_in_slash (cstr (strncpy buf m 259))"
proof -
  let ?b = "strncpy buf m 259"
  have b: "?b = m @ replicate (259 - length m) NUL @ drop 259 buf"
    using assms(3) by (simp add: strncpy_def)
  have cb: "cstr ?b = m @ cstr (replicate (259 - length m) NUL @ drop 259 buf)"
    unfolding b by (rule cstr_append) (rule assms(1))
  then have "?b ! (length (cstr ?b) - 1) = last (cstr ?b)"
    using assms(2) unfolding cstr_def
    by (metis append_is_Nil_conv diff_less last_conv_nth length_greater_0_conv takeWhile_nth zero_less_one)
  moreover from cb assms(2) have "cstr ?b \<noteq> []" by simp
  ultimately show thesis
    using that by (cases "last (cstr ?b) = CHR ''/''") (auto simp: store_homedir_def Let_def ends_in_slash_def)
qed

lemma store_homedir_ok:
  assumes ok: "homedir_ok buf" and m: "NUL \<notin> set m" "m \<noteq> []" "length m \<le> 259"
  shows "homedir_ok (store_homedir buf m)"
proof -
  let ?b = "strncpy buf m 259" and ?t = "drop 259 buf"
  have t: "tail_ok ?t" "length buf = 4096"
    using ok by (simp_all add: homedir_ok_def PATH_MAX_def)
  have b: "?b = m @ replicate (259 - length m) NUL @ ?t"
    using m(3) by (simp add: strncpy_def)
  have len: "length ?b = 4096" and tail: "drop 259 ?b = ?t"
    using m(3) t(2) by (simp_all add: b)
  show ?thesis
  proof (cases rule: store_homedir_cases [OF m, of buf])
    case 1
    with t len tail show ?thesis by (simp add: homedir_ok_def PATH_MAX_def)
  next
    case 2
    have cb: "cstr ?b = m @ cstr (replicate (259 - length m) NUL @ ?t)"
      unfolding b by (rule cstr_append) (rule m(1))
    have short: "cstr ?b = m"
    proof (cases "length m = 259")
      case True
      then have "cstr ?b = m @ cstr ?t" using cb by simp
      moreover have "\<not> ends_in_slash (cstr ?t)"
        using 2(2) calculation by (auto simp: ends_in_slash_def)
      ultimately show ?thesis using tail_ok_string [OF t(1)] by simp
    next
      case False
      then obtain k where "259 - length m = Suc k" using m(3) by (cases "259 - length m") auto
      with cb show ?thesis by simp
    qed
    let ?r = "drop (length m + 1) ?b"
    have r: "?r = replicate (259 - length m - 1) NUL @ drop (length m + 1 - 259) ?t"
    proof (cases "length m = 259")
      case False
      then have "length m + 1 - 259 = 0" "1 - (259 - length m) = 0" using m(3) by auto
      then show ?thesis by (simp add: b)
    qed (simp add: b)
    have tr: "tail_ok (drop (length m + 1 - 259) ?t)"
      by (rule tail_ok_drop [OF t(1)]) (use t(2) m(3) in simp)
    then have NULr: "NUL \<in> set ?r" unfolding r by (simp add: tail_ok_NUL)
    have NULb: "NUL \<in> set ?b" using tail_ok_NUL [OF t(1)] by (simp add: b)
    have "cstr ?r = [] \<or> ends_in_slash (cstr ?r)"
      using tail_ok_string [OF tr] unfolding r by (cases "259 - length m - 1") auto
    moreover have "cstr (append_slash ?b) = m @ CHR ''/'' # cstr ?r"
      using append_slash_string [OF NULb] NULr short by simp
    ultimately have "ends_in_slash (cstr (append_slash ?b))"
      by (auto simp: ends_in_slash_append)
    moreover have "tail_ok (drop 259 (append_slash ?b))"
      using t(1) tail NULb NULr short len m(3) by (intro append_slash_tail) auto
    ultimately show ?thesis
      using 2 len by (simp add: homedir_ok_def PATH_MAX_def)
  qed
qed

lemma hostname_store_ok: "hostname_ok buf \<Longrightarrow> length m \<le> 255 \<Longrightarrow> hostname_ok (strncpy buf m 255)"
  by (simp add: hostname_ok_def HOSTNAME_LEN_def strncpy_length strncpy_def nth_append)

lemma conf_line_inv:
  assumes "settings_inv st" "NUL \<notin> set line"
  shows "settings_inv (conf_line h line st)"
proof -
  have no_NUL: "NUL \<notin> set (regex_group p line)" for p
    using regex_group_chars [of NUL p line] assms(2) by blast
  have mode: "settings_inv (conf_mode line s)" if "settings_inv s" for s
    using that mode_group [of line]
    by (auto simp: conf_mode_def Let_def mode_ok_def intro: settings_inv_mode)
  have homedir: "settings_inv (conf_homedir line s)" if "settings_inv s" for s
    using that store_homedir_ok [of "homedir s" "regex_group pat_homedir line"] no_NUL
      regex_group_length [of pat_homedir line]
    by (auto simp: conf_homedir_def Let_def settings_inv_def pat_homedir_def)
  have hostname: "settings_inv (conf_hostname line s)" if "settings_inv s" for s
    using that hostname_store_ok [of "hostname s" "regex_group pat_hostname line"]
      regex_group_length [of pat_hostname line]
    by (auto simp: conf_hostname_def Let_def settings_inv_def pat_hostname_def)
  show ?thesis
    using assms(1) mode homedir hostname by (auto simp: conf_line_def conf_port_def Let_def)
qed

lemma lines_read_no_NUL: "l \<in> set (lines_read es) \<Longrightarrow> NUL \<notin> set l"
  by (induction es rule: lines_read.induct)
     (auto simp: line_of_def split: if_splits dest: in_set_butlastD)

lemma conf_lines_inv:
  "settings_inv st \<Longrightarrow> (\<forall>l \<in> set ls. NUL \<notin> set l) \<Longrightarrow> settings_inv (conf_lines h ls st)"
  by (induction ls rule: rev_induct) (auto simp: conf_line_inv)


lemma conf_port_update:
  "\<exists>p. conf_port line st = st\<lparr>port := p\<rparr> \<and> (p = port st \<or> (1 \<le> p \<and> p \<le> 65535))"
proof (cases "conf_port line st = st")
  case True
  then show ?thesis by (intro exI [of _ "port st"]) simp
next
  case False
  then show ?thesis by (auto simp: conf_port_def Let_def split: if_splits)
qed

lemma conf_lines_handler:
  "\<exists>p. conf_lines True ls st = st\<lparr>port := p\<rparr> \<and> (p = port st \<or> (1 \<le> p \<and> p \<le> 65535))"
proof (induction ls rule: rev_induct)
  case Nil
  show ?case by (intro exI [of _ "port st"]) simp
next
  case (snoc l ls)
  then obtain p where "conf_lines True ls st = st\<lparr>port := p\<rparr>" "p = port st \<or> (1 \<le> p \<and> p \<le> 65535)"
    by blast
  then show ?case
    using conf_port_update [of l "st\<lparr>port := p\<rparr>"] by (auto simp: conf_line_def)
qed

section \<open>Properties\<close>

text \<open>
  The two builds read the configuration alike. POSIX \<^verbatim>\<open>regexec\<close> (longest match, then longest
  run of spaces) and the backtracking of PCRE2 find the same group in every line, and the
  Windows \<^verbatim>\<open>do_regex\<close> returns it whenever it fits the 256-byte buffer; a longer group is
  dropped.
\<close>

theorem do_regex_builds_agree:
  "do_regex_win32 p line =
     (if length (regex_group p line) \<le> 255 then regex_group p line else [])"
  by (rule regex_group_cases [of p line])
     (auto simp: do_regex_win32_def pcre2_match_is_regexec group_length)

text \<open>
  C28: reading the configuration file applies every line that was read, in order, to the
  settings, and reports a port change exactly when some line changed the port; otherwise the
  process exits with 1 or 5. The only undefined step is a line whose first byte is NUL, for
  which \<^verbatim>\<open>line[line_len - 1]\<close> is outside the buffer.
\<close>

theorem config_applies_every_line:
  "runs posix_os (read_and_check_conf st h) (\<lambda>out es.
     case out of
       Ret (changed, st') \<Rightarrow> st' = fold (conf_line h) (lines_read es) st \<and>
         changed = port_changes h (lines_read es) st
     | Exit n \<Rightarrow> n \<in> {1, 5}
     | ThreadExit \<Rightarrow> False
     | Crash m \<Rightarrow> (\<exists>r. Sys (File (Fgets 512)) r \<in> set es \<and> rv r \<noteq> 0 \<and> cstr (payload r) = [])
     | Blocked \<Rightarrow> True)"
  by (rule runs_weaken [OF runs_read_and_check_conf])
     (auto simp: conf_result_def conf_lines_def split: outcome.splits)

text \<open>
  C29: the settings stay well-formed whatever the configuration file holds: the mode is one of
  the two letters, both buffers keep their size and a terminator, and the home directory is
  not empty and ends in a slash (the rest of the server indexes the character before its end).
\<close>

theorem config_keeps_settings_wellformed:
  assumes "settings_inv st"
  shows "runs posix_os (read_and_check_conf st h)
     (\<lambda>out es. case out of Ret (changed, st') \<Rightarrow> settings_inv st' | _ \<Rightarrow> True)"
  by (rule runs_weaken [OF runs_read_and_check_conf])
     (use assms lines_read_no_NUL in
       \<open>auto simp: conf_result_def intro!: conf_lines_inv split: outcome.splits\<close>)

theorem config_keeps_settings_wellformed_witness:
  "settings_inv example_settings \<and>
   runs posix_os (read_and_check_conf example_settings False)
     (\<lambda>out es. case out of Ret (changed, st') \<Rightarrow> settings_inv st' | _ \<Rightarrow> True)"
  using config_keeps_settings_wellformed [OF example_settings_inv] example_settings_inv by simp

text \<open>
  A SIGHUP re-reads the file for the port only: mode, home directory, host name and socket
  are unchanged, and the new port is the old one or between 1 and 65535.
\<close>

theorem sighup_changes_only_the_port:
  "runs posix_os (read_and_check_conf st True) (\<lambda>out es.
     case out of
       Ret (changed, st') \<Rightarrow> (\<exists>p. st' = st\<lparr>port := p\<rparr> \<and> (p = port st \<or> p \<in> {1..65535}))
     | _ \<Rightarrow> True)"
  by (rule runs_weaken [OF runs_read_and_check_conf])
     (use conf_lines_handler in \<open>auto simp: conf_result_def split: outcome.splits\<close>)

text \<open>
  A home directory of at most 257 characters is stored exactly, with a slash added when it
  has none, whatever the buffer held before.
\<close>

theorem homedir_stored_exactly:
  assumes "homedir_ok buf" "NUL \<notin> set m" "m \<noteq> []" "length m \<le> 257"
  shows "cstr (store_homedir buf m) = (if last m = CHR ''/'' then m else m @ ''/'')"
proof -
  let ?b = "strncpy buf m 259"
  have m: "cstr ?b = m" using assms(2,4) by (simp add: cstr_strncpy)
  have k: "259 - length m = Suc (Suc (257 - length m))"
    using assms(4) by simp
  have b: "?b = m @ NUL # NUL # replicate (257 - length m) NUL @ drop 259 buf"
    using assms(4) unfolding strncpy_def k by simp
  have "cstr (append_slash ?b) = m @ ''/''"
    using append_slash_string [of ?b] m by (simp add: b)
  with assms m show ?thesis
    by (auto simp: ends_in_slash_def elim: store_homedir_cases [of m buf])
qed

theorem homedir_stored_exactly_witness:
  "homedir_ok (homedir example_settings) \<and>
   cstr (store_homedir (homedir example_settings) ''/var/gopher'') = ''/var/gopher/''"
proof -
  have ok: "homedir_ok (homedir example_settings)"
    using example_settings_inv by (simp add: settings_inv_def)
  from homedir_stored_exactly [OF this, of "''/var/gopher''"] ok show ?thesis by simp
qed

text \<open>
  A home directory of the full 259 characters is stored without its terminator: the string goes
  on with what the buffer held behind it, the end of a longer working directory.
\<close>

lemma homedir_of_259_keeps_old_tail:
  assumes "homedir_ok buf" "NUL \<notin> set m" "length m = 259" "cstr (drop 259 buf) \<noteq> []"
  shows "cstr (store_homedir buf m) = m @ cstr (drop 259 buf)"
proof -
  have eq: "cstr (strncpy buf m 259) = m @ cstr (drop 259 buf)"
    using assms(2,3) by (simp add: strncpy_def cstr_append)
  have "ends_in_slash (cstr (drop 259 buf))"
    using tail_ok_string [of "drop 259 buf"] assms(1,4) by (simp add: homedir_ok_def)
  with eq have "ends_in_slash (cstr (strncpy buf m 259))"
    by (auto simp: ends_in_slash_def)
  then show ?thesis
    using store_homedir_cases [of m buf] assms(2,3) eq by (metis le_refl list.size(3) zero_neq_numeral)
qed

end
