(* ===== verification/Path_Guard.thy ===== *)
theory Path_Guard
  imports Settings
begin

text \<open>
  The guard against path traversal (\<^verbatim>\<open>check_security_path\<close> in utility.c) and what it is for:
  the path that a request names, home directory and selector, must not leave the home
  directory. The specification resolves a path component by component, as the kernel does
  when no component is a symbolic link. The interface \<open>dotdot_guard\<close> is what the confinement
  argument needs of a guard; the code's guard provides it. The guard does not see a final
  \<^verbatim>\<open>..\<close> without a slash, so it confines all paths but those, and those to one level up.
\<close>

section \<open>The guard\<close>

definition check_security_path :: "string \<Rightarrow> bool" where
  "check_security_path path \<longleftrightarrow> strstr path ''../'' \<or> strstr path (''..'' @ [BACKSLASH])"

section \<open>Resolving a path\<close>

abbreviation components :: "string \<Rightarrow> string list" where
  "components \<equiv> split_on (CHR ''/'')"

text \<open>One component: empty and \<^verbatim>\<open>.\<close> stay, \<^verbatim>\<open>..\<close> goes up (and stays at the root), a name goes down.\<close>

definition enter :: "string \<Rightarrow> string list \<Rightarrow> string list" where
  "enter w dir = (if w = [] \<or> w = ''.'' then dir else if w = ''..'' then butlast dir else dir @ [w])"

definition resolve :: "string \<Rightarrow> string list" where
  "resolve path = fold enter (components path) []"

definition last_component :: "string \<Rightarrow> string" where
  "last_component path = last (components path)"

text \<open>Every component but the last is followed by a slash in the path.\<close>

lemma component_then_slash:
  "components p = us @ w # vs \<Longrightarrow> vs \<noteq> [] \<Longrightarrow> sublist (w @ ''/'') p"
proof (induction p arbitrary: us w vs)
  case Nil
  then show ?case by (cases us) auto
next
  case (Cons c p)
  obtain x xs where comps: "components p = x # xs"
    using split_on_not_Nil [of _ p] by (cases "components p") auto
  show ?case
  proof (cases "c = CHR ''/''")
    case True
    show ?thesis
    proof (cases us)
      case Nil
      with Cons.prems(1) True have "w = []" by simp
      with True show ?thesis by (simp add: sublist_Cons_right)
    next
      case (Cons u us')
      with Cons.prems True have "components p = us' @ w # vs" by simp
      from Cons.IH [OF this Cons.prems(2)] show ?thesis by (simp add: sublist_Cons_right)
    qed
  next
    case False
    with Cons.prems(1) comps have split: "(c # x) # xs = us @ w # vs" by simp
    show ?thesis
    proof (cases us)
      case Nil
      with split have w: "w = c # x" "xs = vs" by auto
      from Cons.prems(2) w(2) comps have "prefix (x @ ''/'') p"
      proof (induction p arbitrary: x xs)
        case (Cons d p)
        then show ?case
          using split_on_not_Nil [of _ p] by (cases "components p") (auto split: if_splits)
      qed simp
      with w show ?thesis by (simp add: sublist_Cons_right)
    next
      case (Cons u us')
      with split comps have "components p = x # us' @ w # vs" by auto
      then have "components p = (x # us') @ w # vs" by simp
      from Cons.IH [OF this Cons.prems(2)] show ?thesis by (simp add: sublist_Cons_right)
    qed
  qed
qed

section \<open>What confinement needs of a guard\<close>

text \<open>The guard lets no path through that has \<^verbatim>\<open>..\<close> as a component other than the last.\<close>

locale dotdot_guard =
  fixes rejects :: "string \<Rightarrow> bool"
  assumes inner_dotdot: "sublist ''../'' p \<Longrightarrow> rejects p"
begin

lemma no_inner_dotdot:
  assumes "\<not> rejects p"
  shows "''..'' \<notin> set (butlast (components p))"
proof
  assume "''..'' \<in> set (butlast (components p))"
  then obtain us vs where "butlast (components p) = us @ ''..'' # vs"
    by (auto dest: split_list)
  then have "components p = us @ ''..'' # (vs @ [last (components p)])"
    by (metis append_Cons append_assoc append_butlast_last_id split_on_not_Nil)
  then have "sublist (''..'' @ ''/'') p"
    by (rule component_then_slash) simp
  with assms inner_dotdot [of p] show False by simp
qed

lemma fold_last: "xs \<noteq> [] \<Longrightarrow> fold f xs s = f (last xs) (fold f (butlast xs) s)"
  by (induction xs rule: rev_induct) simp_all

lemma enter_names_down: "''..'' \<notin> set ws \<Longrightarrow> prefix dir (fold enter ws dir)"
proof (induction ws arbitrary: dir)
  case (Cons w ws)
  have "prefix dir (enter w dir)"
    using Cons.prems by (auto simp: enter_def)
  moreover have "prefix (enter w dir) (fold enter ws (enter w dir))"
    using Cons by simp
  ultimately show ?case by (simp add: prefix_order.order_trans)
qed simp

lemma prefix_butlast:
  assumes "prefix xs ys"
  shows "prefix (butlast xs) (butlast ys)"
proof -
  obtain zs where ys: "ys = xs @ zs" using assms by (rule prefixE)
  have "prefix (butlast xs) xs" by (rule prefixeq_butlast)
  then show ?thesis by (auto simp: ys butlast_append)
qed

lemma confined:
  assumes "ends_in_slash root" "\<not> rejects (root @ sel)"
  shows "prefix (if last_component sel = ''..'' then butlast (resolve root) else resolve root)
           (resolve (root @ sel))"
proof -
  from assms(1) obtain h where h: "root = h @ ''/''"
    by (metis append_butlast_last_id ends_in_slash_def)
  have comps: "components (root @ sel) = components h @ components sel"
    "components root = components h @ [[]]"
    by (simp_all add: h split_on_sep)
  have home: "resolve root = fold enter (components h) []"
    by (simp add: resolve_def comps enter_def)
  have names: "''..'' \<notin> set (butlast (components sel))"
    using no_inner_dotdot [OF assms(2)] by (simp add: comps butlast_append)
  let ?dir = "fold enter (butlast (components sel)) (resolve root)"
  have down: "prefix (resolve root) ?dir"
    using names by (rule enter_names_down)
  have "resolve (root @ sel) = fold enter (components sel) (resolve root)"
    by (simp add: resolve_def comps home enter_def)
  also have "\<dots> = enter (last_component sel) ?dir"
    unfolding last_component_def
    by (rule fold_last) simp
  finally have "resolve (root @ sel) = enter (last_component sel) ?dir" .
  then show ?thesis
    using down by (auto simp: enter_def prefix_butlast)
qed

end

lemma check_security_path_inner: "sublist ''../'' p \<Longrightarrow> check_security_path p"
  by (simp add: check_security_path_def strstr_def)

interpretation guard: dotdot_guard check_security_path
  by unfold_locales (rule check_security_path_inner)

section \<open>Properties\<close>

text \<open>
  A path that passes the guard stays in the home directory: it resolves to the home
  directory or something below it, whatever the selector holds, unless its last component is
  \<^verbatim>\<open>..\<close>, and then it resolves to something below the parent of the home directory.
\<close>

theorem guard_confines_requests:
  assumes "ends_in_slash root" "\<not> check_security_path (root @ sel)"
  shows "prefix (if last_component sel = ''..'' then butlast (resolve root) else resolve root)
           (resolve (root @ sel))"
  using assms by (rule guard.confined)

theorem guard_confines_requests_witness:
  "ends_in_slash ''/srv/gopher/'' \<and> \<not> check_security_path (''/srv/gopher/'' @ ''docs/./a'') \<and>
   prefix (resolve ''/srv/gopher/'') (resolve (''/srv/gopher/'' @ ''docs/./a''))"
proof -
  have 1: "ends_in_slash ''/srv/gopher/''" by (simp add: ends_in_slash_def)
  have 2: "\<not> check_security_path (''/srv/gopher/'' @ ''docs/./a'')"
    by (simp add: check_security_path_def strstr_def sublist_Cons_right)
  from guard_confines_requests [OF 1 2] 1 2 show ?thesis
    by (simp add: last_component_def)
qed

text \<open>
  The guard does not stop the selector \<^verbatim>\<open>..\<close>: with every home directory that passes the
  guard itself, the path of that selector passes too, and it is the parent of the home
  directory.
\<close>

theorem guard_misses_final_dotdot:
  assumes "ends_in_slash root" "\<not> check_security_path root"
  shows "\<not> check_security_path (root @ ''..'') \<and> resolve (root @ ''..'') = butlast (resolve root)"
proof -
  from assms(1) obtain h where h: "root = h @ ''/''"
    by (metis append_butlast_last_id ends_in_slash_def)
  have sub: "sublist [CHR ''.'', CHR ''.'', c] (root @ ''..'') \<longleftrightarrow> sublist [CHR ''.'', CHR ''.'', c] root"
    if "c \<noteq> CHR ''.''" for c
  proof -
    have pre: "prefix [CHR ''.'', CHR ''.'', c] (h @ ''/..'') \<longleftrightarrow> prefix [CHR ''.'', CHR ''.'', c] (h @ ''/'')" for h
      using that by (cases h; cases "tl h"; cases "tl (tl h)") auto
    have "sublist [CHR ''.'', CHR ''.'', c] (h @ ''/..'') \<longleftrightarrow> sublist [CHR ''.'', CHR ''.'', c] (h @ ''/'')"
    proof (induction h)
      case Nil
      show ?case using that by (simp add: sublist_Cons_right)
    next
      case (Cons a h)
      then show ?case using pre [of "a # h"] by (simp only: append_Cons sublist_Cons_right)
    qed
    then show ?thesis by (simp add: h)
  qed
  have "\<not> check_security_path (root @ ''..'')"
    using assms(2) sub [of "CHR ''/''"] sub [of BACKSLASH] by (simp add: check_security_path_def strstr_def)
  moreover have "resolve (root @ ''..'') = butlast (resolve root)"
    by (simp add: resolve_def h split_on_sep enter_def)
  ultimately show ?thesis by blast
qed

theorem guard_misses_final_dotdot_witness:
  "\<not> check_security_path (''/srv/gopher/'' @ ''..'') \<and> resolve (''/srv/gopher/'' @ ''..'') = [''srv'']"
proof -
  have 1: "ends_in_slash ''/srv/gopher/''" by (simp add: ends_in_slash_def)
  have 2: "\<not> check_security_path ''/srv/gopher/''"
    by (simp add: check_security_path_def strstr_def sublist_Cons_right)
  have 3: "resolve ''/srv/gopher/'' = [''srv'', ''gopher'']"
    by (simp add: resolve_def enter_def)
  from guard_misses_final_dotdot [OF 1 2] 3 show ?thesis by simp
qed

end
