(* ===== verification/Shell_Quote.thy ===== *)
theory Shell_Quote
  imports Progress
begin

text \<open>
  Quoting a path for the shell (\<^verbatim>\<open>sanitize_path\<close> in gopher.c): the buffer is computed with the
  code's size and indices, so that a write past its end would show. The specification is the
  POSIX rule for words, single quotes and backslashes; the interface \<open>shell_quoting\<close> is what
  \<^verbatim>\<open>type_path\<close> needs of the quoting to run \<^verbatim>\<open>file\<close> on exactly the path it was given.
\<close>

section \<open>The code\<close>

definition put :: "nat \<Rightarrow> char \<Rightarrow> string \<Rightarrow> string option" where
  "put i c buf = (if i < length buf then Some (buf[i := c]) else None)"

text \<open>The first loop of the function counts, the second one writes at \<^verbatim>\<open>ret_index\<close>.\<close>

fun count_quotes :: "string \<Rightarrow> nat" where
  "count_quotes [] = 0"
| "count_quotes (c # cs) = (if c = QUOTE then 1 else 0) + count_quotes cs"

fun sanitize_loop :: "string \<Rightarrow> nat \<Rightarrow> string \<Rightarrow> string option" where
  "sanitize_loop [] ret_index buf = Some buf"
| "sanitize_loop (c # cs) ret_index buf =
     (if c = QUOTE then
        Option.bind (put (ret_index + 0) QUOTE buf) (\<lambda>buf.
        Option.bind (put (ret_index + 1) BACKSLASH buf) (\<lambda>buf.
        Option.bind (put (ret_index + 2) QUOTE buf) (\<lambda>buf.
        Option.bind (put (ret_index + 3) QUOTE buf) (\<lambda>buf.
        sanitize_loop cs (ret_index + 4) buf))))
      else
        Option.bind (put ret_index c buf) (\<lambda>buf.
        sanitize_loop cs (ret_index + 1) buf))"

definition sanitize_size :: "string \<Rightarrow> nat" where
  "sanitize_size input = length input + count_quotes input * 3 + 1"

definition sanitize_path :: "string \<Rightarrow> string prog" where
  "sanitize_path input =
     call (Mem (Malloc ''ret'' (int (sanitize_size input)))) (\<lambda>r.
     if rv r = 0 then
       say ERROR (''calloc() failed: %s'' @ [LF]) [AE (errno r)] (exit 5)
     else
       case sanitize_loop input 0 (replicate (sanitize_size input) NUL) of
         None \<Rightarrow> crash ''write past the end of ret''
       | Some buf \<Rightarrow> ret (cstr buf))"

section \<open>What it computes\<close>

definition quote_char :: "char \<Rightarrow> string" where
  "quote_char c = (if c = QUOTE then [QUOTE, BACKSLASH, QUOTE, QUOTE] else [c])"

definition quote_body :: "string \<Rightarrow> string" where
  "quote_body s = concat (map quote_char s)"

lemma quote_body_simps [simp]:
  "quote_body [] = []" "quote_body (c # cs) = quote_char c @ quote_body cs"
  by (simp_all add: quote_body_def)

lemma quote_body_length [text_len]: "length (quote_body s) = length s + count_quotes s * 3"
  by (induction s) (auto simp: quote_char_def)

lemma quote_body_no_NUL: "NUL \<notin> set s \<Longrightarrow> NUL \<notin> set (quote_body s)"
  by (induction s) (auto simp: quote_char_def)

lemma put_zeros:
  "put (length s) c (s @ replicate (Suc n) NUL) = Some ((s @ [c]) @ replicate n NUL)"
  by (simp add: put_def)

text \<open>Every write is inside the buffer, and the last byte stays NUL.\<close>

lemma sanitize_loop_writes:
  "sanitize_loop cs (length s) (s @ replicate (length (quote_body cs) + Suc n) NUL) =
     Some (s @ quote_body cs @ replicate (Suc n) NUL)"
proof (induction cs arbitrary: s)
  case Nil
  show ?case by simp
next
  case (Cons c cs)
  let ?n = "length (quote_body cs) + Suc n"
  show ?case
  proof (cases "c = QUOTE")
    case True
    have 4: "length (quote_body (c # cs)) + Suc n = Suc (Suc (Suc (Suc ?n)))"
      by (simp add: True quote_char_def)
    have
      "put (length s) QUOTE (s @ replicate (Suc (Suc (Suc (Suc ?n)))) NUL) =
         Some ((s @ [QUOTE]) @ replicate (Suc (Suc (Suc ?n))) NUL)"
      "put (length s + 1) BACKSLASH ((s @ [QUOTE]) @ replicate (Suc (Suc (Suc ?n))) NUL) =
         Some ((s @ [QUOTE, BACKSLASH]) @ replicate (Suc (Suc ?n)) NUL)"
      "put (length s + 2) QUOTE ((s @ [QUOTE, BACKSLASH]) @ replicate (Suc (Suc ?n)) NUL) =
         Some ((s @ [QUOTE, BACKSLASH, QUOTE]) @ replicate (Suc ?n) NUL)"
      "put (length s + 3) QUOTE ((s @ [QUOTE, BACKSLASH, QUOTE]) @ replicate (Suc ?n) NUL) =
         Some ((s @ quote_char QUOTE) @ replicate ?n NUL)"
      by (simp_all add: put_def list_update_append quote_char_def)
    then have "sanitize_loop (c # cs) (length s) (s @ replicate (length (quote_body (c # cs)) + Suc n) NUL)
        = sanitize_loop cs (length (s @ quote_char QUOTE)) ((s @ quote_char QUOTE) @ replicate ?n NUL)"
      unfolding 4 by (simp add: True quote_char_def numeral_eq_Suc del: replicate_Suc)
    also have "\<dots> = Some ((s @ quote_char QUOTE) @ quote_body cs @ replicate (Suc n) NUL)"
      by (rule Cons.IH)
    finally show ?thesis using True by simp
  next
    case False
    have "sanitize_loop (c # cs) (length s) (s @ replicate (length (quote_body (c # cs)) + Suc n) NUL)
        = sanitize_loop cs (length (s @ [c])) ((s @ [c]) @ replicate ?n NUL)"
      using put_zeros [of s c ?n] False by (simp add: quote_char_def del: replicate_Suc)
    also have "\<dots> = Some ((s @ [c]) @ quote_body cs @ replicate (Suc n) NUL)"
      by (rule Cons.IH)
    finally show ?thesis using False by (simp add: quote_char_def)
  qed
qed

lemma sanitize_buffer:
  "sanitize_loop s 0 (replicate (sanitize_size s) NUL) = Some (quote_body s @ [NUL])"
  using sanitize_loop_writes [of s "[]" 0]
  by (simp add: sanitize_size_def quote_body_length del: replicate_Suc) simp

lemma runs_sanitize_path:
  assumes "NUL \<notin> set s"
    and "\<And>r. R Blocked []"
    and "\<And>r. R (Exit 5)
      [Sys (Mem (Malloc ''ret'' (int (sanitize_size s)))) r, Log ERROR (''calloc() failed: %s'' @ [LF]) [AE (errno r)]]"
    and "\<And>r. R (Ret (quote_body s)) [Sys (Mem (Malloc ''ret'' (int (sanitize_size s)))) r]"
  shows "runs C (sanitize_path s) R"
proof -
  have "cstr (quote_body s @ [NUL]) = quote_body s"
    using quote_body_no_NUL [OF assms(1)] by (simp add: cstr_append_NUL)
  with assms(2-4) show ?thesis
    unfolding sanitize_path_def sanitize_buffer by (intro runs_intros) auto
qed

section \<open>Words of a shell command\<close>

text \<open>
  How \<^verbatim>\<open>sh\<close> splits a command into words (POSIX 2.2 Quoting): blanks separate, single quotes
  keep every character up to the next one, a backslash keeps the next character. Any other
  character with a meaning of its own, and an open quote, make it more than a simple
  command: no list of words.
\<close>

definition word_char :: "char \<Rightarrow> bool" where
  "word_char c \<longleftrightarrow>
     c \<in> set ''abcdefghijklmnopqrstuvwxyzABCDEFGHIJKLMNOPQRSTUVWXYZ0123456789/._-:,+@''"

definition so_far :: "string option \<Rightarrow> string" where
  "so_far cur = (case cur of None \<Rightarrow> [] | Some w \<Rightarrow> w)"

fun sh_words :: "string option \<Rightarrow> string \<Rightarrow> string list option"
  and sh_quoted :: "string \<Rightarrow> string \<Rightarrow> string list option" where
  "sh_words None [] = Some []"
| "sh_words (Some w) [] = Some [w]"
| "sh_words cur (c # cs) =
     (if c = QUOTE then sh_quoted (so_far cur) cs
      else if c = BACKSLASH then
        (case cs of [] \<Rightarrow> None
         | d # ds \<Rightarrow> if d = LF then None else sh_words (Some (so_far cur @ [d])) ds)
      else if c = CHR '' '' \<or> c = TAB then
        (case cur of None \<Rightarrow> sh_words None cs
         | Some w \<Rightarrow> map_option (Cons w) (sh_words None cs))
      else if word_char c then sh_words (Some (so_far cur @ [c])) cs
      else None)"
| "sh_quoted w [] = None"
| "sh_quoted w (c # cs) = (if c = QUOTE then sh_words (Some w) cs else sh_quoted (w @ [c]) cs)"

text \<open>The law of the interface: between single quotes, the sanitized text stands for the text.\<close>

locale shell_quoting =
  fixes sanitized :: "string \<Rightarrow> string"
  assumes inside_quotes: "sh_quoted w (sanitized s @ rest) = sh_quoted (w @ s) rest"
begin

lemma one_word:
  "sh_words None (QUOTE # sanitized s @ [QUOTE]) = Some [s]"
  by (simp add: so_far_def inside_quotes)

lemma file_command:
  "sh_words None (''file -bi '' @ QUOTE # sanitized s @ [QUOTE]) = Some [''file'', ''-bi'', s]"
  using one_word [of s] by (simp add: so_far_def word_char_def)

end

lemma quote_body_inside_quotes: "sh_quoted w (quote_body s @ rest) = sh_quoted (w @ s) rest"
  by (induction s arbitrary: w) (auto simp: quote_char_def so_far_def)

interpretation quoting: shell_quoting quote_body
  by unfold_locales (rule quote_body_inside_quotes)

section \<open>Properties\<close>

text \<open>
  Sanitizing writes every byte inside the buffer it allocated: the function ends with
  code 5 when there is no memory, and otherwise returns the path with each single quote
  replaced by quote, backslash, quote, quote, in a string that fills all but one byte of the
  buffer. The write past the end is not reached.
\<close>

theorem sanitize_path_in_bounds:
  assumes "NUL \<notin> set path"
  shows "runs any_os (sanitize_path path) (\<lambda>out es.
     out = Blocked \<or> out = Exit 5 \<or>
     (out = Ret (concat (map (\<lambda>c. if c = QUOTE then [QUOTE, BACKSLASH, QUOTE, QUOTE] else [c]) path)) \<and>
      length (concat (map (\<lambda>c. if c = QUOTE then [QUOTE, BACKSLASH, QUOTE, QUOTE] else [c]) path)) + 1
        = sanitize_size path))"
proof -
  have eq: "concat (map (\<lambda>c. if c = QUOTE then [QUOTE, BACKSLASH, QUOTE, QUOTE] else [c]) path) = quote_body path"
    by (simp add: quote_body_def quote_char_def [abs_def])
  show ?thesis
    unfolding eq
    by (rule runs_sanitize_path [OF assms]) (simp_all add: sanitize_size_def quote_body_length)
qed

theorem sanitize_path_in_bounds_witness:
  "NUL \<notin> set [CHR ''a'', QUOTE] \<and> sanitize_size [CHR ''a'', QUOTE] = 6 \<and>
   runs any_os (sanitize_path [CHR ''a'', QUOTE]) (\<lambda>out es.
     out = Blocked \<or> out = Exit 5 \<or> out = Ret [CHR ''a'', QUOTE, BACKSLASH, QUOTE, QUOTE])"
proof -
  have 1: "NUL \<notin> set [CHR ''a'', QUOTE]" by simp
  have "runs any_os (sanitize_path [CHR ''a'', QUOTE]) (\<lambda>out es.
     out = Blocked \<or> out = Exit 5 \<or> out = Ret [CHR ''a'', QUOTE, BACKSLASH, QUOTE, QUOTE])"
    by (rule runs_weaken [OF sanitize_path_in_bounds [OF 1]]) auto
  then show ?thesis by (simp add: sanitize_size_def)
qed

end
