(* ===== verification/File_Type.thy ===== *)
theory File_Type
  imports Shell_Quote
begin

text \<open>
  The gopher type of a path (\<^verbatim>\<open>type_path\<close> in gopher.c). On Linux the type comes from the first
  line that \<^verbatim>\<open>file -bi\<close> prints, on Windows from the extension. The array that receives the
  line is not initialised: when \<^verbatim>\<open>file\<close> prints nothing, the payload of the reply stands for
  whatever the array held. The lemmas show that the command is one simple command on the path,
  whatever the path holds, and that the chain of prefix tests is the rule "longest prefix
  wins", but for Macintosh files.
\<close>

section \<open>The chain of prefixes\<close>

definition TEXT_0 :: string where "TEXT_0 = ''text/''"
definition HTML_h :: string where "HTML_h = ''text/html''"
definition GIF_g :: string where "GIF_g = ''image/gif''"
definition IMAGE_I :: string where "IMAGE_I = ''image/''"
definition DIR_1 :: string where "DIR_1 = ''inode/directory''"
definition EMPTY_0 :: string where "EMPTY_0 = ''inode/x-empty''"
definition GOPHER_1 :: string where "GOPHER_1 = ''application/gopher''"
definition MAC_4 :: string where "MAC_4 = ''application/mac''"
definition APPLICATION_9 :: string where "APPLICATION_9 = ''application/''"
definition AUDIO_s :: string where "AUDIO_s = ''audio/''"
definition MULTIPART_M :: string where "MULTIPART_M = ''multipart/mixed''"

lemmas mime_defs = TEXT_0_def HTML_h_def GIF_g_def IMAGE_I_def DIR_1_def EMPTY_0_def GOPHER_1_def
  MAC_4_def APPLICATION_9_def AUDIO_s_def MULTIPART_M_def

definition type_char :: "string \<Rightarrow> char" where
  "type_char popen_output =
     (if has_prefix popen_output DIR_1 then CHR ''1''
      else if has_prefix popen_output GOPHER_1 then CHR ''7''
      else if has_prefix popen_output MULTIPART_M then CHR ''M''
      else if has_prefix popen_output APPLICATION_9 then CHR ''9''
      else if has_prefix popen_output AUDIO_s then CHR ''s''
      else if has_prefix popen_output HTML_h then CHR ''h''
      else if has_prefix popen_output TEXT_0 \<or> has_prefix popen_output EMPTY_0 then CHR ''0''
      else if has_prefix popen_output GIF_g then CHR ''g''
      else if has_prefix popen_output IMAGE_I then CHR ''I''
      else if has_prefix popen_output MAC_4 then CHR ''4''
      else CHR ''3'')"

section \<open>Running file\<close>

text \<open>\<^verbatim>\<open>char command[strlen(sanitized_path) + 12]\<close>, filled by one \<^verbatim>\<open>strcpy\<close> and two \<^verbatim>\<open>strcat\<close>.\<close>

definition file_command :: "string \<Rightarrow> string option" where
  "file_command sanitized =
     (let command = ''file -bi '' @ [QUOTE] @ sanitized @ [QUOTE]
      in if length command + 1 \<le> length sanitized + 12 then Some command else None)"

text \<open>The loop after a line that starts with \<^verbatim>\<open>cannot\<close>: the last line read stays in the array.\<close>

definition drain_round :: "string \<Rightarrow> (string + string) prog" where
  "drain_round popen_output =
     call (File (PopenGets 64)) (\<lambda>r.
     if rv r = 0 then ret (Inr popen_output)
     else say DEBUG ''%s'' [AS (cstr (payload r))] (ret (Inl (cstr (payload r)))))"

definition type_path :: "string \<Rightarrow> char prog" where
  "type_path path =
     bind (sanitize_path path) (\<lambda>sanitized_path.
     case file_command sanitized_path of
       None \<Rightarrow> crash ''write past the end of command''
     | Some command \<Rightarrow>
         eff (Mem (Free ''sanitized_path''))
         (call (File (Popen command)) (\<lambda>stream.
          if rv stream = 0 then say ERROR (''popen() failed: %s'' @ [LF]) [AE (errno stream)] (exit 5)
          else
            call (File (PopenGets 64)) (\<lambda>r.
            if rv r = 0 \<and> num r = 0 then say ERROR ''fgets() failed: %s'' [AE (errno r)] (exit 5)
            else
              bind (if has_prefix (cstr (payload r)) ''cannot''
                    then say DEBUG ''%s'' [AS (cstr (payload r))] (loop drain_round (cstr (payload r)))
                    else ret (cstr (payload r))) (\<lambda>popen_output.
              eff (File Pclose) (ret (type_char popen_output)))))))"

section \<open>The Windows table\<close>

text \<open>
  The three Windows functions are parameters: whether the path has attributes, whether it is a
  directory, and its extension.
\<close>

definition type_path_win32 ::
  "(string \<Rightarrow> bool) \<Rightarrow> (string \<Rightarrow> bool) \<Rightarrow> (string \<Rightarrow> string) \<Rightarrow> string \<Rightarrow> char prog" where
  "type_path_win32 has_attributes is_directory extension_of path =
     (if \<not> has_attributes path then
        say WARNING (''Path %s doesn'' @ [QUOTE] @ ''t exist'') [AS path] (ret (CHR ''3''))
      else if is_directory path then ret (CHR ''1'')
      else
        let extension = extension_of path in
        if extension \<in> {''.exe'', ''.bin'', ''.dll'', ''.so'', ''.out'', ''.lib'', ''.zip'', ''.gz'',
             ''.tgz'', ''.bzip2'', ''.a'', ''.iso'', ''.7z'', ''.pdf''} then ret (CHR ''9'')
        else if extension = ''.htm'' then ret (CHR ''h'')
        else if extension = ''.gif'' then ret (CHR ''g'')
        else if extension \<in> {''.mp3'', ''.ogg'', ''.wav'', ''.aiff'', ''.mp4'', ''.mpg'', ''.avi'', ''.webm''}
          then ret (CHR ''s'')
        else if extension \<in> {''.jpg'', ''.jpeg'', ''.png'', ''.tiff''} then ret (CHR ''I'')
        else ret (CHR ''0''))"

section \<open>The command and the answer\<close>

fun file_replies :: "event list \<Rightarrow> reply list" where
  "file_replies (Sys (File (PopenGets n)) r # es) = r # file_replies es"
| "file_replies (e # es) = file_replies es"
| "file_replies [] = []"

fun commands_run :: "event list \<Rightarrow> string list" where
  "commands_run (Sys (File (Popen c)) r # es) = c # commands_run es"
| "commands_run (e # es) = commands_run es"
| "commands_run [] = []"

lemma file_replies_append [simp]: "file_replies (es @ es') = file_replies es @ file_replies es'"
  by (induction es rule: file_replies.induct) auto

lemma commands_run_append [simp]: "commands_run (es @ es') = commands_run es @ commands_run es'"
  by (induction es rule: commands_run.induct) auto

text \<open>The last line that \<^verbatim>\<open>file\<close> printed, of those the code reads.\<close>

definition file_says :: "reply list \<Rightarrow> string" where
  "file_says rs = cstr (payload (last (hd rs # filter (\<lambda>r. rv r \<noteq> 0) (tl rs))))"

lemma file_command_fits: "file_command s = Some (''file -bi '' @ QUOTE # s @ [QUOTE])"
  by (simp add: file_command_def)

lemma drain_round_consumes:
  "runs any_os (drain_round s) (\<lambda>out es. goes_round out \<longrightarrow> 0 < calls es)"
  unfolding drain_round_def by (rule consumes_call) (intro runs_intros; simp)

interpretation drain: loop_body drain_round
  by unfold_locales (rule drain_round_consumes)

text \<open>What is left of the events of \<^verbatim>\<open>type_path\<close> for its callers.\<close>

fun type_path_event :: "string \<Rightarrow> event \<Rightarrow> bool" where
  "type_path_event path (Sys (File (Popen c)) r) = (c = ''file -bi '' @ QUOTE # quote_body path @ [QUOTE])"
| "type_path_event path (Sys (File (PopenGets n)) r) = True"
| "type_path_event path (Sys (Mem m) r) = True"
| "type_path_event path (Sys _ r) = False"
| "type_path_event path (Eff c) = (c = File Pclose \<or> c \<in> range Mem)"
| "type_path_event path (Log l s a) = True"

definition type_path_result :: "string \<Rightarrow> char outcome \<Rightarrow> event list \<Rightarrow> bool" where
  "type_path_result path out es \<longleftrightarrow>
     (\<forall>e \<in> set es. type_path_event path e) \<and>
     returns_or_exits (\<lambda>t. file_replies es \<noteq> [] \<and> t = type_char (file_says (file_replies es)))
       (\<lambda>n. n = 5) out"

definition drain_state :: "reply \<Rightarrow> string \<Rightarrow> event list \<Rightarrow> bool" where
  "drain_state r s es \<longleftrightarrow> (\<forall>e \<in> set es. \<forall>path. type_path_event path e) \<and> s = file_says (r # file_replies es)"

definition drain_result :: "reply \<Rightarrow> string outcome \<Rightarrow> event list \<Rightarrow> bool" where
  "drain_result r out es \<longleftrightarrow> (\<forall>e \<in> set es. \<forall>path. type_path_event path e) \<and>
     (out = Blocked \<or> (\<exists>s. out = Ret s \<and> s = file_says (r # file_replies es)))"

lemma type_path_commands:
  "\<forall>e \<in> set es. type_path_event path e \<Longrightarrow> c \<in> set (commands_run es) \<Longrightarrow>
   c = ''file -bi '' @ QUOTE # quote_body path @ [QUOTE]"
  by (induction es rule: commands_run.induct) auto

lemma runs_drain: "runs any_os (loop drain_round (cstr (payload r))) (drain_result r)"
proof (rule drain.invariant [where I = "drain_state r"])
  show "drain_state r (cstr (payload r)) []"
    by (simp add: drain_state_def file_says_def)
  fix s es
  assume "drain_state r s es"
  then show "runs any_os (drain_round s) (round (drain_state r) (drain_result r) es)"
    unfolding drain_round_def
    by (intro runs_intros) (auto simp: drain_state_def drain_result_def file_says_def)
qed

lemma runs_type_path:
  assumes "NUL \<notin> set path"
  shows "runs any_os (type_path path) (type_path_result path)"
proof -
  have read: "runs any_os
      (if has_prefix (cstr (payload r)) ''cannot''
       then say DEBUG ''%s'' [AS (cstr (payload r))] (loop drain_round (cstr (payload r)))
       else ret (cstr (payload r))) (drain_result r)" for r
  proof (intro runs_intros)
    show "runs any_os (loop drain_round (cstr (payload r)))
        (\<lambda>out es. drain_result r out (Log DEBUG ''%s'' [AS (cstr (payload r))] # es))"
      by (rule runs_weaken [OF runs_drain]) (auto simp: drain_result_def)
  qed (simp add: drain_result_def file_says_def)
  show ?thesis
    unfolding type_path_def
  proof (intro runs_bind runs_sanitize_path [OF assms], simp_all only: after.simps file_command_fits option.case)
    fix m
    show "runs any_os (eff (Mem (Free ''sanitized_path''))
       (call (File (Popen (''file -bi '' @ QUOTE # quote_body path @ [QUOTE]))) (\<lambda>stream.
          if rv stream = 0 then say ERROR (''popen() failed: %s'' @ [LF]) [AE (errno stream)] (exit 5)
          else call (File (PopenGets 64)) (\<lambda>r.
            if rv r = 0 \<and> num r = 0 then say ERROR ''fgets() failed: %s'' [AE (errno r)] (exit 5)
            else bind (if has_prefix (cstr (payload r)) ''cannot''
                    then say DEBUG ''%s'' [AS (cstr (payload r))] (loop drain_round (cstr (payload r)))
                    else ret (cstr (payload r))) (\<lambda>popen_output.
              eff (File Pclose) (ret (type_char popen_output)))))))
       (\<lambda>out es. type_path_result path out ([Sys (Mem (Malloc ''ret'' (int (sanitize_size path)))) m] @ es))"
    proof (intro runs_eff runs_call runs_if runs_say runs_exit)
      fix stream r
      let ?R = "\<lambda>out es. type_path_result path out
        ([Sys (Mem (Malloc ''ret'' (int (sanitize_size path)))) m] @ Eff (Mem (Free ''sanitized_path'')) #
          Sys (File (Popen (''file -bi '' @ QUOTE # quote_body path @ [QUOTE]))) stream #
          Sys (File (PopenGets 64)) r # es)"
      show "runs any_os (bind (if has_prefix (cstr (payload r)) ''cannot''
          then say DEBUG ''%s'' [AS (cstr (payload r))] (loop drain_round (cstr (payload r)))
          else ret (cstr (payload r))) (\<lambda>popen_output. eff (File Pclose) (ret (type_char popen_output)))) ?R"
        by (rule runs_bind_weaken [OF read])
           (auto simp: drain_result_def type_path_result_def intro!: runs_eff runs_ret)
    qed (auto simp: type_path_result_def)
  qed (auto simp: type_path_result_def)
qed

section \<open>Longest prefix\<close>

definition mime_table :: "(string \<times> char) list" where
  "mime_table = [(TEXT_0, CHR ''0''), (HTML_h, CHR ''h''), (GIF_g, CHR ''g''), (IMAGE_I, CHR ''I''),
     (DIR_1, CHR ''1''), (EMPTY_0, CHR ''0''), (GOPHER_1, CHR ''7''), (MAC_4, CHR ''4''),
     (APPLICATION_9, CHR ''9''), (AUDIO_s, CHR ''s''), (MULTIPART_M, CHR ''M'')]"

text \<open>The entry of the longest prefix, and \<^verbatim>\<open>3\<close> without any.\<close>

definition longest_prefix :: "string \<Rightarrow> char" where
  "longest_prefix s =
     snd (fold (\<lambda>(p, c) (n, t). if has_prefix s p \<and> n < length p then (length p, c) else (n, t))
       mime_table (0, CHR ''3''))"

lemma other_prefix: "has_prefix s p \<Longrightarrow> \<not> prefix p q \<Longrightarrow> \<not> prefix q p \<Longrightarrow> \<not> has_prefix s q"
  using prefix_same_cases by (auto simp: has_prefix_def)

lemma longer_prefix: "has_prefix s p \<Longrightarrow> prefix q p \<Longrightarrow> has_prefix s q"
  by (auto simp: has_prefix_def dest: prefix_order.order_trans)

section \<open>Properties\<close>

text \<open>
  C28: \<^verbatim>\<open>type_path\<close> asks the shell for one simple command, \<^verbatim>\<open>file -bi\<close> on exactly the path it was
  given, whatever characters the path has (quotes, spaces, semicolons, newlines), and its
  answer is the type of the last line read from that command; otherwise it exits with code 5.
\<close>

theorem type_path_runs_file_on_the_path:
  assumes "NUL \<notin> set path"
  shows "runs any_os (type_path path) (\<lambda>out es.
     (\<forall>c \<in> set (commands_run es). sh_words None c = Some [''file'', ''-bi'', path]) \<and>
     returns_or_exits (\<lambda>t. file_replies es \<noteq> [] \<and> t = type_char (file_says (file_replies es)))
       (\<lambda>n. n = 5) out)"
  by (rule runs_weaken [OF runs_type_path [OF assms]])
     (use quoting.file_command [of path] in \<open>auto simp: type_path_result_def dest!: type_path_commands\<close>)

theorem type_path_runs_file_on_the_path_witness:
  "NUL \<notin> set [CHR ''x'', QUOTE, CHR '';''] \<and>
   runs any_os (type_path [CHR ''x'', QUOTE, CHR '';'']) (\<lambda>out es.
     \<forall>c \<in> set (commands_run es). sh_words None c = Some [''file'', ''-bi'', [CHR ''x'', QUOTE, CHR '';'']])"
proof -
  have 1: "NUL \<notin> set [CHR ''x'', QUOTE, CHR '';'']" by simp
  show ?thesis
    using runs_weaken [OF type_path_runs_file_on_the_path [OF 1], of
        "\<lambda>out es. \<forall>c \<in> set (commands_run es). sh_words None c = Some [''file'', ''-bi'', [CHR ''x'', QUOTE, CHR '';'']]"] 1
    by blast
qed

text \<open>
  C38: the chain of tests gives the type of the longest prefix of the table, with one exception:
  \<^verbatim>\<open>application/\<close> is tested before \<^verbatim>\<open>application/mac\<close>, so Macintosh files get type 9 and type 4
  is never given.
\<close>

theorem type_is_longest_prefix:
  "type_char s = (if has_prefix s MAC_4 then CHR ''9'' else longest_prefix s) \<and> type_char s \<noteq> CHR ''4''"
proof -
  note split = type_char_def longest_prefix_def mime_table_def
  consider p where "p \<in> {DIR_1, GOPHER_1, MULTIPART_M, AUDIO_s, HTML_h, EMPTY_0, GIF_g, MAC_4}" "has_prefix s p"
    | "\<forall>p \<in> {DIR_1, GOPHER_1, MULTIPART_M, AUDIO_s, HTML_h, EMPTY_0, GIF_g, MAC_4}. \<not> has_prefix s p"
    by blast
  then show ?thesis
  proof cases
    case 1
    then show ?thesis
      using other_prefix [OF 1(2)] longer_prefix [OF 1(2)]
      by (elim insertE emptyE; simp add: split mime_defs)
  next
    case 2
    consider p where "p \<in> {TEXT_0, IMAGE_I, APPLICATION_9}" "has_prefix s p"
      | "\<forall>p \<in> {TEXT_0, IMAGE_I, APPLICATION_9}. \<not> has_prefix s p"
      by blast
    then show ?thesis
    proof cases
      case 1
      then show ?thesis
        using 2 other_prefix [OF 1(2)] by (elim insertE emptyE; simp add: split mime_defs)
    qed (use 2 in \<open>simp add: split\<close>)
  qed
qed

end
