(* ===== verification/Menu.thy ===== *)
theory Menu
  imports File_Type Path_Guard
begin

text \<open>
  The menu of a directory (\<^verbatim>\<open>send_content_of_dir\<close> in gopher.c): one line for each entry, in the
  order of \<^verbatim>\<open>readdir\<close>, then a line with a dot, in one \<^verbatim>\<open>send\<close>. \<^verbatim>\<open>client_selector[strlen - 1]\<close>
  of the empty selector is the byte before the allocated block; that byte is the argument
  \<open>before\<close>. The lemmas show which text is sent, that no line is cut by its \<^verbatim>\<open>snprintf\<close>, and
  that a client that splits the menu as RFC 1436 says gets back exactly the entries.
\<close>

section \<open>The code\<close>

definition subfile_path :: "string \<Rightarrow> string \<Rightarrow> string" where
  "subfile_path path_file d_name =
     (if last path_file = CHR ''/''
      then snprintf (length path_file + length d_name + 1) (path_file @ d_name)
      else snprintf (length path_file + length d_name + 2) (path_file @ ''/'' @ d_name))"

text \<open>The size of a line: the selector is written behind the name, both with the name.\<close>

definition len_responce :: "string \<Rightarrow> settings_t \<Rightarrow> string \<Rightarrow> nat" where
  "len_responce client_selector st d_name =
     (let port_str = snprintf 6 (show_int (port st)) in
      2 + (length d_name + 1) + (length client_selector + length d_name + 2)
        + (length (host st) + 1) + length port_str + 3)"

definition selector_end :: "char \<Rightarrow> string \<Rightarrow> char" where
  "selector_end before client_selector = (if client_selector = [] then before else last client_selector)"

definition entry_selector :: "char \<Rightarrow> string \<Rightarrow> string \<Rightarrow> string" where
  "entry_selector before client_selector d_name =
     (if selector_end before client_selector \<noteq> CHR ''/''
      then client_selector @ ''/'' @ d_name else client_selector @ d_name)"

definition menu_text :: "char \<Rightarrow> string \<Rightarrow> string \<Rightarrow> string \<Rightarrow> int \<Rightarrow> string" where
  "menu_text type d_name selector server_name server_port =
     type # d_name @ [TAB] @ selector @ [TAB] @ server_name @ [TAB] @ show_int server_port @ [CR, LF]"

definition response_line :: "char \<Rightarrow> string \<Rightarrow> settings_t \<Rightarrow> char \<Rightarrow> string \<Rightarrow> string" where
  "response_line before client_selector st type d_name =
     snprintf (len_responce client_selector st d_name)
       (menu_text type d_name (entry_selector before client_selector d_name) (host st) (port st))"

abbreviation path_of :: "client_args \<Rightarrow> string" where
  "path_of c \<equiv> cstr (c_path_file c)"

definition dir_round :: "char \<Rightarrow> client_args \<Rightarrow> string \<Rightarrow> string option \<Rightarrow>
    (string option + string option) prog" where
  "dir_round before c client_selector response =
     call (File Readdir) (\<lambda>subFile.
     if rv subFile = 0 then ret (Inr response)
     else
       let d_name = cstr (payload subFile) in
       if d_name = ''..'' \<or> d_name = ''.'' then ret (Inl response)
       else
         call (Mem (Malloc ''path_of_subfile'' (int (length (path_of c) + length d_name + 2)))) (\<lambda>m.
         if rv m = 0 then say ERROR ''malloc of path_of_subfile failed'' [] (exit 1)
         else if path_of c = [] then crash ''path_file[-1]''
         else
           bind (type_path (subfile_path (path_of c) d_name)) (\<lambda>type.
           call (Mem (Malloc ''response_line'' (int (len_responce client_selector (c_settings c) d_name)))) (\<lambda>m.
           if rv m = 0 then say ERROR ''malloc of response_line failed with error'' [] (exit 1)
           else
             let line = response_line before client_selector (c_settings c) type d_name;
                 size = (case response of None \<Rightarrow> length line + 1 | Some r \<Rightarrow> length r + length line + 1) in
             call (Mem (Realloc ''response'' size)) (\<lambda>m.
             if rv m = 0 then say ERROR ''malloc of response_line failed with error'' [] (exit 1)
             else
               eff (Mem (Free ''response_line''))
               (eff (Mem (Free ''path_of_subfile''))
               (ret (Inl (Some (case response of None \<Rightarrow> line | Some r \<Rightarrow> r @ line))))))))))"

definition finish_menu :: "client_args \<Rightarrow> string \<Rightarrow> unit prog" where
  "finish_menu c r =
     call (Mem (Realloc ''response'' (length r + 4))) (\<lambda>m.
     if rv m = 0 then say ERROR ''malloc of response_line failed with error'' [] (exit 1)
     else
       let response = r @ ''.'' @ [CR, LF] in
       call (Net (Send (c_socket c) response)) (\<lambda>check.
       say_if (rv check < 0) ERROR ''failed send %s to %s because: %s''
         [AS response, AS (c_addr c), AE (errno check)]
       (eff (Mem (Free ''response''))
       (say DEBUG ''send_content_of_dir response_line to socket %d: SENT'' [AI (c_socket c)]
       (call (File Closedir) (\<lambda>closed.
       say_if (rv closed = - 1) ERROR ''failed close dir: %s'' [AS (path_of c)] (ret ())))))))"

definition send_content_of_dir :: "char \<Rightarrow> client_args \<Rightarrow> string \<Rightarrow> unit prog" where
  "send_content_of_dir before c client_selector =
     say DEBUG ''send_content_of_dir: %s'' [AS (path_of c)]
     (call (File (Opendir (path_of c))) (\<lambda>folder.
     if rv folder = 0 then say ERROR ''failed open dir: %s'' [AS (path_of c)] (ret ())
     else
       bind (loop (dir_round before c client_selector) None) (\<lambda>response.
       case response of
         None \<Rightarrow> crash ''strlen(response) of the null pointer''
       | Some r \<Rightarrow> finish_menu c r)))"

section \<open>What was listed\<close>

text \<open>
  The entries of a run: every name that \<^verbatim>\<open>readdir\<close> gave, but \<^verbatim>\<open>.\<close> and \<^verbatim>\<open>..\<close>, with the replies
  of \<^verbatim>\<open>file\<close> that follow it.
\<close>

fun group_step :: "(string \<times> reply list) list \<Rightarrow> event \<Rightarrow> (string \<times> reply list) list" where
  "group_step acc (Sys (File Readdir) r) =
     (if rv r = 0 \<or> cstr (payload r) = ''..'' \<or> cstr (payload r) = ''.'' then acc
      else acc @ [(cstr (payload r), [])])"
| "group_step acc (Sys (File (PopenGets n)) r) =
     (if acc = [] then [] else butlast acc @ [(fst (last acc), snd (last acc) @ [r])])"
| "group_step acc e = acc"

definition groups :: "event list \<Rightarrow> (string \<times> reply list) list" where
  "groups es = foldl group_step [] es"

definition listing :: "event list \<Rightarrow> (char \<times> string) list" where
  "listing es = map (\<lambda>(n, rs). (type_char (file_says rs), n)) (groups es)"

text \<open>Which events the listing makes, when \<open>names\<close> are the names read.\<close>

fun dir_event :: "string \<Rightarrow> string set \<Rightarrow> event \<Rightarrow> bool" where
  "dir_event path names (Sys (File (Popen c)) r) =
     (\<exists>n \<in> names. c = ''file -bi '' @ QUOTE # quote_body (subfile_path path n) @ [QUOTE])"
| "dir_event path names (Sys (File (PopenGets n)) r) = True"
| "dir_event path names (Sys (File Readdir) r) = True"
| "dir_event path names (Sys (Mem m) r) = True"
| "dir_event path names (Sys _ r) = False"
| "dir_event path names (Eff c) = (c \<in> range Mem \<or> c = File Pclose)"
| "dir_event path names (Log l s a) = True"

definition names_read :: "event list \<Rightarrow> string set" where
  "names_read es = fst ` set (groups es)"

lemma group_step_fst:
  "fst ` set acc \<subseteq> fst ` set (group_step acc e)"
proof (cases "(acc, e)" rule: group_step.cases)
  case (2 acc' n r)
  then show ?thesis by (cases acc rule: rev_cases) auto
qed auto

lemma groups_mono: "fst ` set acc \<subseteq> fst ` set (foldl group_step acc es)"
proof (induction es arbitrary: acc)
  case (Cons e es)
  show ?case using group_step_fst [of acc e] Cons.IH [of "group_step acc e"] by simp
qed simp

lemma names_read_mono: "names_read es \<subseteq> names_read (es @ es')"
  using groups_mono [of "groups es" es'] by (simp add: names_read_def groups_def)

lemma group_step_names:
  "n \<in> fst ` set (group_step acc e) \<Longrightarrow> n \<in> fst ` set acc \<or> (n \<noteq> ''..'' \<and> n \<noteq> ''.'')"
proof (cases "(acc, e)" rule: group_step.cases)
  case (2 acc' k r)
  then show "n \<in> fst ` set (group_step acc e) \<Longrightarrow> ?thesis"
    by (cases acc rule: rev_cases) force+
qed (auto split: if_splits)

lemma names_read_no_dots: "n \<in> names_read es \<Longrightarrow> n \<noteq> ''..'' \<and> n \<noteq> ''.''"
proof -
  have "n \<in> fst ` set (foldl group_step acc es) \<Longrightarrow> n \<in> fst ` set acc \<or> (n \<noteq> ''..'' \<and> n \<noteq> ''.'')" for acc
  proof (induction es arbitrary: acc)
    case (Cons e es)
    from Cons.IH [of "group_step acc e"] Cons.prems group_step_names [of n acc e] show ?case
      unfolding foldl.simps by blast
  qed simp
  from this [of "[]"] show "n \<in> names_read es \<Longrightarrow> ?thesis"
    by (simp add: names_read_def groups_def)
qed

lemma dir_event_mono: "dir_event path N e \<Longrightarrow> N \<subseteq> M \<Longrightarrow> dir_event path M e"
  by (cases "(path, N, e)" rule: dir_event.cases) auto

lemma type_path_dir_event:
  "type_path_event (subfile_path path n) e \<Longrightarrow> n \<in> N \<Longrightarrow> dir_event path N e"
  by (cases "(subfile_path path n, e)" rule: type_path_event.cases) auto

lemma groups_type_path:
  "\<forall>e \<in> set es. type_path_event p e \<Longrightarrow>
   foldl group_step (acc @ [(n, rs)]) es = acc @ [(n, rs @ file_replies es)]"
proof (induction es arbitrary: rs)
  case (Cons e es)
  then show ?case by (cases "(p, e)" rule: type_path_event.cases) auto
qed simp

text \<open>The events of one entry, from its \<^verbatim>\<open>readdir\<close> on.\<close>

definition entry_read :: "reply \<Rightarrow> bool" where
  "entry_read r \<longleftrightarrow> rv r \<noteq> 0 \<and> cstr (payload r) \<noteq> ''..'' \<and> cstr (payload r) \<noteq> ''.''"

lemma groups_entry:
  assumes "\<forall>e \<in> set es'. type_path_event p e" "entry_read r"
  shows "groups (es @ Sys (File Readdir) r # es') = groups es @ [(cstr (payload r), file_replies es')]"
  using assms(2) groups_type_path [OF assms(1), of "groups es" "cstr (payload r)" "[]"]
  by (simp add: groups_def entry_read_def)

lemma listing_entry:
  assumes "\<forall>e \<in> set es'. type_path_event p e" "entry_read r"
  shows "listing (es @ Sys (File Readdir) r # es') =
    listing es @ [(type_char (file_says (file_replies es')), cstr (payload r))]"
  by (simp add: listing_def groups_entry [OF assms])

lemma groups_skip: "\<not> entry_read r \<Longrightarrow> groups (es @ [Sys (File Readdir) r]) = groups es"
  by (auto simp: groups_def entry_read_def)

definition dir_events :: "string \<Rightarrow> event list \<Rightarrow> bool" where
  "dir_events path es \<longleftrightarrow> (\<forall>e \<in> set es. dir_event path (names_read es) e)"

lemma dir_events_entry:
  assumes "dir_events path es" "entry_read r"
    and "\<forall>e \<in> set es'. type_path_event (subfile_path path (cstr (payload r))) e"
  shows "dir_events path (es @ Sys (File Readdir) r # es')"
proof -
  let ?all = "es @ Sys (File Readdir) r # es'"
  have "cstr (payload r) \<in> names_read ?all"
    by (simp add: names_read_def groups_entry [OF assms(3,2)])
  moreover have "names_read es \<subseteq> names_read ?all" by (rule names_read_mono)
  ultimately show ?thesis
    using assms(1,3) unfolding dir_events_def by (auto intro: dir_event_mono type_path_dir_event)
qed

lemma dir_events_skip:
  "dir_events path es \<Longrightarrow> \<not> entry_read r \<Longrightarrow> dir_events path (es @ [Sys (File Readdir) r])"
  by (simp add: dir_events_def names_read_def groups_skip)

section \<open>The loop over the entries\<close>

definition menu_body :: "char \<Rightarrow> string \<Rightarrow> settings_t \<Rightarrow> (char \<times> string) list \<Rightarrow> string" where
  "menu_body before sel st items = concat (map (\<lambda>(t, n). response_line before sel st t n) items)"

definition listed :: "char \<Rightarrow> client_args \<Rightarrow> string \<Rightarrow> string option \<Rightarrow> event list \<Rightarrow> bool" where
  "listed before c sel response es \<longleftrightarrow> dir_events (path_of c) es \<and>
     response = (if listing es = [] then None
       else Some (menu_body before sel (c_settings c) (listing es)))"

definition dir_result :: "char \<Rightarrow> client_args \<Rightarrow> string \<Rightarrow> string option outcome \<Rightarrow> event list \<Rightarrow> bool" where
  "dir_result before c sel out es \<longleftrightarrow> dir_events (path_of c) es \<and>
     (case out of
        Ret response \<Rightarrow> listed before c sel response es
      | Exit n \<Rightarrow> n = 1 \<or> n = 5
      | ThreadExit \<Rightarrow> False
      | Crash m \<Rightarrow> path_of c = [] \<and> m = ''path_file[-1]''
      | Blocked \<Rightarrow> True)"

lemma listed_skip:
  "listed before c sel response es \<Longrightarrow> \<not> entry_read r \<Longrightarrow>
   listed before c sel response (es @ [Sys (File Readdir) r])"
  by (simp add: listed_def dir_events_skip listing_def groups_skip)

text \<open>An entry that is done is one more line of the menu.\<close>

lemma listed_entry:
  assumes "listed before c sel response es" "entry_read r"
    and "\<forall>e \<in> set es'. type_path_event (subfile_path (path_of c) (cstr (payload r))) e"
    and "text = (case response of None \<Rightarrow> [] | Some l \<Rightarrow> l) @
      response_line before sel (c_settings c) (type_char (file_says (file_replies es'))) (cstr (payload r))"
  shows "listed before c sel (Some text) (es @ Sys (File Readdir) r # es')"
  using assms(1,2) dir_events_entry [OF _ assms(2,3)]
  by (auto simp: listed_def listing_entry [OF assms(3,2)] menu_body_def assms(4))

lemma listed_entry_events:
  assumes "listed before c sel response es" "entry_read r"
    and "\<forall>e \<in> set es'. type_path_event (subfile_path (path_of c) (cstr (payload r))) e"
  shows "dir_events (path_of c) (es @ Sys (File Readdir) r # es')"
  using assms by (auto simp: listed_def intro: dir_events_entry)

lemma subfile_path_no_NUL: "NUL \<notin> set p \<Longrightarrow> NUL \<notin> set n \<Longrightarrow> NUL \<notin> set (subfile_path p n)"
  by (auto simp: subfile_path_def snprintf_def dest: in_set_takeD)

lemma dir_round_listed:
  assumes "listed before c sel response es0"
  shows "runs any_os (dir_round before c sel response)
    (round (listed before c sel) (dir_result before c sel) es0)"
  unfolding dir_round_def Let_def
proof (rule runs_call, goal_cases)
  case 1
  then show ?case using assms by (simp add: dir_result_def listed_def)
next
  case (2 r)
  have skip: "\<not> entry_read r \<Longrightarrow> listed before c sel response (es0 @ [Sys (File Readdir) r])"
    by (rule listed_skip [OF assms])
  show ?case
  proof (intro runs_if runs_ret, goal_cases)
    case 1
    then show ?case using skip by (simp add: entry_read_def dir_result_def listed_def)
  next
    case 2
    then show ?case using skip by (auto simp: entry_read_def)
  next
    case 3
    then have r: "entry_read r" by (auto simp: entry_read_def)
    let ?p = "subfile_path (path_of c) (cstr (payload r))"
    note entry = listed_entry [OF assms r] listed_entry_events [OF assms r]
    have answer: "runs any_os (type_path ?p) (type_path_result ?p)"
      by (intro runs_type_path subfile_path_no_NUL) simp_all
    show ?case
    proof (intro runs_intros, goal_cases)
      case (4 m)
      show ?case
      proof (rule runs_weaken [OF answer], goal_cases)
        case (1 out es)
        then show ?case
          by (cases out)
             (auto simp: type_path_result_def dir_result_def intro!: runs_intros entry
               split: option.splits)
      qed
    qed (unfold round.simps dir_result_def, (rule conjI, rule entry(2), simp, simp)+)
  qed
qed

lemma dir_round_consumes:
  "runs any_os (dir_round before c sel s) (\<lambda>out es. goes_round out \<longrightarrow> 0 < calls es)"
  unfolding dir_round_def Let_def
  by (rule consumes_call)
     (intro runs_if runs_call runs_say runs_ret runs_exit runs_crash runs_eff
        runs_trivial_bind [OF runs_type_path] subfile_path_no_NUL; simp)

interpretation dir_loop: loop_body "dir_round before c sel" for before c sel
  by unfold_locales (rule dir_round_consumes)

lemma runs_dir_loop:
  "runs any_os (loop (dir_round before c sel) None) (dir_result before c sel)"
  by (rule dir_loop.invariant [OF _ dir_round_listed])
     (simp add: listed_def dir_events_def listing_def groups_def)

section \<open>The whole menu\<close>

text \<open>All events of the function: those of the loop, one \<^verbatim>\<open>opendir\<close> on the path, one \<^verbatim>\<open>send\<close>.\<close>

fun menu_event :: "client_args \<Rightarrow> string set \<Rightarrow> event \<Rightarrow> bool" where
  "menu_event c names (Sys (File (Opendir p)) r) = (p = path_of c)"
| "menu_event c names (Sys (File Closedir) r) = True"
| "menu_event c names (Sys (Net (Send fd s)) r) = (fd = c_socket c)"
| "menu_event c names e = dir_event (path_of c) names e"

lemma dir_event_menu: "dir_event (path_of c) names e \<Longrightarrow> menu_event c names e"
  by (cases "(c, names, e)" rule: menu_event.cases) auto

lemma groups_Log [simp]: "groups (Log l s a # es) = groups es"
  by (simp add: groups_def)

lemma groups_Opendir [simp]: "groups (Sys (File (Opendir p)) r # es) = groups es"
  by (simp add: groups_def)

lemma groups_end:
  "\<forall>e \<in> set es'. (\<forall>acc. group_step acc e = acc) \<Longrightarrow> groups (es @ es') = groups es"
  by (induction es' rule: rev_induct) (auto simp: groups_def)

lemma dir_events_no_send: "dir_events path es \<Longrightarrow> sends es = []"
proof -
  have "\<forall>e \<in> set es. dir_event path N e \<Longrightarrow> sends es = []" for N
    by (induction es rule: sends.induct) auto
  then show "dir_events path es \<Longrightarrow> sends es = []" by (simp add: dir_events_def)
qed

definition menu_result :: "char \<Rightarrow> client_args \<Rightarrow> string \<Rightarrow> unit outcome \<Rightarrow> event list \<Rightarrow> bool" where
  "menu_result before c sel out es \<longleftrightarrow>
     (\<forall>e \<in> set es. menu_event c (names_read es) e) \<and>
     (case out of
        Ret u \<Rightarrow>
          (listing es = [] \<and> sends es = [] \<and> (\<exists>r. Sys (File (Opendir (path_of c))) r \<in> set es \<and> rv r = 0)) \<or>
          (listing es \<noteq> [] \<and> (\<exists>n. sends es =
             [(c_socket c, menu_body before sel (c_settings c) (listing es) @ ''.'' @ [CR, LF], n)]))
      | Exit n \<Rightarrow> n = 1 \<or> n = 5
      | ThreadExit \<Rightarrow> False
      | Crash m \<Rightarrow> (path_of c = [] \<and> m = ''path_file[-1]'') \<or>
          (listing es = [] \<and> m = ''strlen(response) of the null pointer'')
      | Blocked \<Rightarrow> True)"

text \<open>The calls after the loop list nothing more.\<close>

fun tail_event :: "client_args \<Rightarrow> event \<Rightarrow> bool" where
  "tail_event c (Sys (Mem m) r) = True"
| "tail_event c (Sys (Net (Send fd s)) r) = (fd = c_socket c)"
| "tail_event c (Sys (File Closedir) r) = True"
| "tail_event c (Sys _ r) = False"
| "tail_event c (Eff e) = (e \<in> range Mem)"
| "tail_event c (Log l s a) = True"

lemma tail_event_group: "tail_event c e \<Longrightarrow> group_step acc e = acc"
  by (cases "(c, e)" rule: tail_event.cases) auto

lemma tail_event_menu: "tail_event c e \<Longrightarrow> menu_event c N e"
  by (cases "(c, e)" rule: tail_event.cases) auto

lemma groups_tail: "\<forall>e \<in> set es'. tail_event c e \<Longrightarrow> groups (es @ es') = groups es"
  by (rule groups_end) (auto simp: tail_event_group)

lemma runs_finish_menu:
  "runs any_os (finish_menu c r) (\<lambda>out es'. (\<forall>e \<in> set es'. tail_event c e) \<and>
     (case out of
        Ret u \<Rightarrow> \<exists>n. sends es' = [(c_socket c, r @ ''.'' @ [CR, LF], n)]
      | Exit n \<Rightarrow> n = 1
      | Blocked \<Rightarrow> True
      | _ \<Rightarrow> False))"
  unfolding finish_menu_def Let_def by (intro runs_intros) auto

lemma menu_result_finish:
  assumes "dir_result before c sel (Ret (Some r)) es"
  shows "runs any_os (finish_menu c r) (\<lambda>out es'. menu_result before c sel out
    (Log l s a # Sys (File (Opendir (path_of c))) f # es @ es'))"
proof (rule runs_weaken [OF runs_finish_menu])
  fix out :: "unit outcome" and es'
  assume fin: "(\<forall>e \<in> set es'. tail_event c e) \<and>
     (case out of
        Ret u \<Rightarrow> \<exists>n. sends es' = [(c_socket c, r @ ''.'' @ [CR, LF], n)]
      | Exit n \<Rightarrow> n = 1
      | Blocked \<Rightarrow> True
      | _ \<Rightarrow> False)"
  then have g: "groups (es @ es') = groups es" by (blast intro: groups_tail)
  have es: "\<forall>e \<in> set es. menu_event c (names_read es) e" "sends es = []"
    using assms dir_events_no_send by (auto simp: dir_result_def dir_events_def intro: dir_event_menu)
  have r: "listing es \<noteq> []" "r = menu_body before sel (c_settings c) (listing es)"
    using assms by (auto simp: dir_result_def listed_def split: if_splits)
  have tail: "\<forall>e \<in> set es'. menu_event c (names_read es) e"
    using fin by (blast intro: tail_event_menu)
  show "menu_result before c sel out (Log l s a # Sys (File (Opendir (path_of c))) f # es @ es')"
    using fin es r tail
    by (auto simp: menu_result_def names_read_def listing_def g split: outcome.splits unit.splits)
qed

text \<open>A run that ends inside the loop.\<close>

lemma menu_result_loop:
  assumes "dir_result before c sel out es"
  shows "after any_os (\<lambda>response. case response of
          None \<Rightarrow> crash ''strlen(response) of the null pointer'' | Some r \<Rightarrow> finish_menu c r)
    (\<lambda>out es. menu_result before c sel out (Log l s a # Sys (File (Opendir (path_of c))) f # es)) out es"
proof -
  have es: "\<forall>e \<in> set es. menu_event c (names_read es) e"
    using assms by (auto simp: dir_result_def dir_events_def intro: dir_event_menu)
  show ?thesis
  proof (cases out)
    case (Ret response)
    show ?thesis
    proof (cases response)
      case None
      with assms Ret have "groups es = []"
        by (auto simp: dir_result_def listed_def listing_def split: if_splits)
      with es Ret None show ?thesis
        by (auto simp: menu_result_def names_read_def listing_def intro!: runs_crash)
    next
      case (Some r)
      with assms Ret menu_result_finish [of before c sel r es] show ?thesis by simp
    qed
  qed (use es assms in \<open>auto simp: dir_result_def menu_result_def names_read_def listing_def\<close>)
qed

lemma runs_send_content_of_dir:
  "runs any_os (send_content_of_dir before c sel) (menu_result before c sel)"
  unfolding send_content_of_dir_def
proof (intro runs_say runs_call runs_if runs_ret, goal_cases)
  case (3 f)
  show ?case by (rule runs_bind_weaken [OF runs_dir_loop menu_result_loop])
qed (auto simp: menu_result_def listing_def groups_def)

section \<open>The directory is read to its end\<close>

text \<open>
  The replies of \<^verbatim>\<open>readdir\<close>, in order. A directory with the entries \<open>names\<close> has been read when they are
  the names of all replies before the last one, and the last one is the null pointer.
\<close>

fun entries_read :: "event list \<Rightarrow> reply list" where
  "entries_read (Sys (File Readdir) r # es) = r # entries_read es"
| "entries_read (e # es) = entries_read es"
| "entries_read [] = []"

lemma entries_read_append [simp]: "entries_read (es @ es') = entries_read es @ entries_read es'"
  by (induction es rule: entries_read.induct) auto

definition directory_read :: "string list \<Rightarrow> event list \<Rightarrow> bool" where
  "directory_read names es \<longleftrightarrow> (\<exists>rs r. entries_read es = rs @ [r] \<and> rv r = 0 \<and>
     list_all (\<lambda>r. rv r \<noteq> 0) rs \<and> names = map (\<lambda>r. cstr (payload r)) rs)"

text \<open>What was listed are the entries of the replies, whatever the run did.\<close>

lemma names_listed:
  "map fst (foldl group_step acc es) =
    map fst acc @ map (\<lambda>r. cstr (payload r)) (filter entry_read (entries_read es))"
proof (induction es arbitrary: acc)
  case (Cons e es)
  have "map fst (group_step acc e) =
      map fst acc @ map (\<lambda>r. cstr (payload r)) (filter entry_read (entries_read [e]))"
  proof (cases "(acc, e)" rule: group_step.cases)
    case (2 acc' n r)
    then show ?thesis by (cases acc rule: rev_cases) auto
  qed (auto simp: entry_read_def)
  with Cons.IH [of "group_step acc e"] entries_read_append [of "[e]" es] show ?case by simp
qed simp

lemma directory_listed:
  assumes "directory_read names es"
  shows "map snd (listing es) = filter (\<lambda>n. n \<noteq> ''..'' \<and> n \<noteq> ''.'') names"
proof -
  have "map snd (listing es) = map (\<lambda>r. cstr (payload r)) (filter entry_read (entries_read es))"
    using names_listed [of "[]" es] by (simp add: listing_def groups_def split_beta comp_def)
  also have "\<dots> = filter (\<lambda>n. n \<noteq> ''..'' \<and> n \<noteq> ''.'') names"
    using assms by (auto simp: directory_read_def entry_read_def filter_map comp_def list_all_iff cong: filter_cong)
  finally show ?thesis .
qed

text \<open>The loop goes on as long as \<^verbatim>\<open>readdir\<close> gives an entry, and only then.\<close>

definition reads_on :: "event list \<Rightarrow> bool" where
  "reads_on es \<longleftrightarrow> list_all (\<lambda>r. rv r \<noteq> 0) (entries_read es)"

definition read_out :: "'a outcome \<Rightarrow> event list \<Rightarrow> bool" where
  "read_out out es \<longleftrightarrow> (\<forall>a. out = Ret a \<longrightarrow> (\<exists>names. directory_read names es))"

text \<open>Nothing but the loop reads the directory.\<close>

definition reads_no_entry :: "event \<Rightarrow> bool" where
  "reads_no_entry e \<longleftrightarrow> entries_read [e] = []"

lemma entries_read_each: "entries_read es = concat (map (\<lambda>e. entries_read [e]) es)"
proof (induction es)
  case (Cons e es)
  then show ?case using entries_read_append [of "[e]" es] by simp
qed simp

lemma no_entries_read: "\<forall>e \<in> set es. reads_no_entry e \<Longrightarrow> entries_read es = []"
  by (subst entries_read_each) (simp add: reads_no_entry_def)

lemma type_path_reads_no_entry: "only reads_no_entry (type_path p)"
proof -
  have "only reads_no_entry (drain_round s)" for s
    unfolding drain_round_def by (intro only_intros) (simp_all add: reads_no_entry_def)
  then have "only reads_no_entry (loop drain_round s)" for s
    by (rule drain.only_loop)
  then show ?thesis
    unfolding type_path_def sanitize_path_def Let_def
    by (intro only_intros) (simp_all add: reads_no_entry_def)
qed

lemma dir_round_reads_on:
  assumes "reads_on es0"
  shows "runs any_os (dir_round before c sel response) (round (\<lambda>s. reads_on) read_out es0)"
proof -
  have stays: "reads_on (es0 @ Sys (File Readdir) r # es)" if "rv r \<noteq> 0" "entries_read es = []" for r es
    using assms that by (simp add: reads_on_def)
  show ?thesis
    unfolding dir_round_def Let_def
  proof (intro runs_intros, goal_cases)
    case (2 r)
    with assms show ?case by (auto simp: read_out_def directory_read_def reads_on_def)
  next
    case (7 r m)
    show ?case
    proof (rule runs_weaken [OF type_path_reads_no_entry [unfolded only_def]], goal_cases)
      case (1 out es)
      with 7 stays show ?case
        by (cases out) (auto simp: read_out_def no_entries_read intro!: runs_intros)
    qed
  qed (use stays in \<open>auto simp: read_out_def\<close>)
qed

lemma runs_dir_loop_read_out: "runs any_os (loop (dir_round before c sel) None) read_out"
  by (rule dir_loop.invariant [OF _ dir_round_reads_on]) (simp add: reads_on_def)

lemma finish_menu_reads_no_entry: "only reads_no_entry (finish_menu c r)"
  unfolding finish_menu_def Let_def by (intro only_intros) (simp_all add: reads_no_entry_def)

lemma send_content_of_dir_reads_out:
  "runs any_os (send_content_of_dir before c sel)
    (\<lambda>out es. \<forall>a. out = Ret a \<longrightarrow> entries_read es = [] \<or> (\<exists>names. directory_read names es))"
  unfolding send_content_of_dir_def
proof (intro runs_say runs_call runs_if runs_ret, goal_cases)
  case (3 f)
  show ?case
  proof (rule runs_bind_weaken [OF runs_dir_loop_read_out], goal_cases)
    case (1 out es)
    then show ?case
    proof (cases out)
      case (Ret response)
      with 1 obtain names where names: "directory_read names es" by (auto simp: read_out_def)
      show ?thesis
      proof (cases response)
        case (Some r)
        show ?thesis
          unfolding Ret Some after.simps option.case
          by (rule runs_weaken [OF finish_menu_reads_no_entry [unfolded only_def]])
             (use names in \<open>auto simp: directory_read_def no_entries_read\<close>)
      qed (simp add: Ret runs_crash)
    qed simp_all
  qed
qed simp_all

section \<open>What the client reads\<close>

text \<open>
  A client splits the menu into lines, up to the line with the dot, and a line at its tabs
  (RFC 1436): type and name, selector, host, port.
\<close>

definition read_item :: "string \<Rightarrow> (char \<times> string \<times> string \<times> string \<times> string) option" where
  "read_item line =
     (case split_on TAB line of
        [t # n, sel, server_name, server_port] \<Rightarrow> Some (t, n, sel, server_name, server_port)
      | _ \<Rightarrow> None)"

fun read_items :: "string list \<Rightarrow> (char \<times> string \<times> string \<times> string \<times> string) list option" where
  "read_items [] = None"
| "read_items (l # ls) =
     (if l = [CHR ''.'', CR] then Some []
      else if l = [] \<or> last l \<noteq> CR then None
      else case read_item (butlast l) of
        None \<Rightarrow> None
      | Some i \<Rightarrow> map_option (Cons i) (read_items ls))"

definition read_menu :: "string \<Rightarrow> (char \<times> string \<times> string \<times> string \<times> string) list option" where
  "read_menu text = read_items (split_on LF text)"

text \<open>Text that a menu line can carry.\<close>

definition plain_text :: "string \<Rightarrow> bool" where
  "plain_text s \<longleftrightarrow> TAB \<notin> set s \<and> LF \<notin> set s"

lemma show_int_port:
  assumes "0 \<le> p" "p \<le> 65535"
  shows "length (show_int p) \<le> 5" "plain_text (show_int p)"
proof -
  have eq: "show_int p = show_nat (nat p)" using assms by (simp add: show_int_def)
  show "length (show_int p) \<le> 5"
    unfolding eq using assms by (intro show_nat_length) auto
  show "plain_text (show_int p)"
    unfolding eq plain_text_def by (auto simp: isdigit_def dest!: show_nat_digits)
qed

lemma response_line_full:
  assumes "0 \<le> port st" "port st \<le> 65535"
  shows "response_line before sel st t n = menu_text t n (entry_selector before sel n) (host st) (port st)"
  unfolding response_line_def
  using show_int_port(1) [OF assms]
  by (intro snprintf_fits) (simp add: menu_text_def len_responce_def entry_selector_def Let_def)

lemma read_item_text:
  assumes "plain_text (t # n)" "plain_text sel" "plain_text h" "plain_text p"
  shows "read_item (t # n @ TAB # sel @ TAB # h @ TAB # p) = Some (t, n, sel, h, p)"
proof -
  have "split_on TAB (t # n) = [t # n]" "split_on TAB sel = [sel]" "split_on TAB h = [h]" "split_on TAB p = [p]"
    using assms by (auto simp only: plain_text_def intro!: split_on_whole)
  note parts = this
  have "split_on TAB ((t # n) @ TAB # sel @ TAB # h @ TAB # p) = [t # n, sel, h, p]"
    unfolding split_on_sep parts by simp
  then show ?thesis by (simp add: read_item_def)
qed

lemma read_menu_line:
  assumes "plain_text (t # n)" "plain_text sel" "plain_text h" "0 \<le> p" "p \<le> 65535"
  shows "read_menu (menu_text t n sel h p @ rest) = map_option (Cons (t, n, sel, h, show_int p)) (read_menu rest)"
proof -
  let ?line = "t # n @ TAB # sel @ TAB # h @ TAB # show_int p"
  note p = show_int_port [OF assms(4,5)]
  have LF: "LF \<notin> set (?line @ [CR])"
    using assms(1-3) p(2) by (auto simp: plain_text_def)
  have "menu_text t n sel h p @ rest = (?line @ [CR]) @ LF # rest"
    by (simp add: menu_text_def)
  then have "split_on LF (menu_text t n sel h p @ rest) = (?line @ [CR]) # split_on LF rest"
    by (simp only: split_on_sep split_on_whole [OF LF]) simp
  moreover have "?line @ [CR] \<noteq> [CHR ''.'', CR]" by simp
  moreover have "last (?line @ [CR]) = CR" "butlast (?line @ [CR]) = ?line"
    by (simp_all only: last_snoc butlast_snoc)
  ultimately show ?thesis
    using read_item_text [OF assms(1-3) p(2)]
    by (simp add: read_menu_def del: split_on.simps)
qed

section \<open>Properties\<close>

text \<open>
  C30: listing a directory sends one message: the directory is read until \<^verbatim>\<open>readdir\<close> returns the null
  pointer, and there is a line for every entry but \<^verbatim>\<open>.\<close> and \<^verbatim>\<open>..\<close>, in that order, each with the type that
  \<^verbatim>\<open>file\<close> gave for it, and the line with the dot. Nothing is sent only when the directory cannot be
  opened; the process exits with 1 or 5 when a call fails, and it dereferences the null pointer only when
  the directory has no entry (or the path is empty).
\<close>

theorem menu_lists_every_entry:
  "runs any_os (send_content_of_dir before c sel) (\<lambda>out es.
     case out of
       Ret u \<Rightarrow>
         (sends es = [] \<and> (\<exists>r. Sys (File (Opendir (path_of c))) r \<in> set es \<and> rv r = 0)) \<or>
         (listing es \<noteq> [] \<and>
          (\<exists>names. directory_read names es \<and>
            map snd (listing es) = filter (\<lambda>n. n \<noteq> ''..'' \<and> n \<noteq> ''.'') names) \<and>
          (\<exists>n. sends es =
            [(c_socket c, concat (map (\<lambda>(t, n). response_line before sel (c_settings c) t n) (listing es))
               @ ''.'' @ [CR, LF], n)]))
     | Exit n \<Rightarrow> n \<in> {1, 5}
     | ThreadExit \<Rightarrow> False
     | Crash m \<Rightarrow> path_of c = [] \<or> listing es = []
     | Blocked \<Rightarrow> True)"
proof (rule runs_weaken [OF runs_conj [OF runs_send_content_of_dir send_content_of_dir_reads_out]], goal_cases)
  case (1 out es)
  have none: "entries_read es = [] \<Longrightarrow> listing es = []"
    using names_listed [of "[]" es] by (simp add: listing_def groups_def)
  from 1 show ?case
    by (cases out) (auto simp: menu_result_def menu_body_def dest: none directory_listed)
qed

text \<open>
  C37: with a port of at most 65535 no menu line is cut by its \<^verbatim>\<open>snprintf\<close>, and a client that
  reads the menu as RFC 1436 says gets back exactly the entries: their types, names, selectors
  below the requested one, and the host and port of the server. Names, selector and host name
  must hold no tab and no newline.
\<close>

theorem menu_reads_back:
  assumes "0 \<le> port st" "port st \<le> 65535" "plain_text sel" "plain_text (host st)"
    and "\<And>t n. (t, n) \<in> set items \<Longrightarrow> plain_text (t # n)"
  shows "read_menu (menu_body before sel st items @ ''.'' @ [CR, LF]) =
    Some (map (\<lambda>(t, n). (t, n, entry_selector before sel n, host st, show_int (port st))) items)"
  using assms(5)
proof (induction items)
  case Nil
  show ?case by (simp add: menu_body_def read_menu_def)
next
  case (Cons i items)
  obtain t n where i: "i = (t, n)" by fastforce
  with Cons.prems have "plain_text (t # n)" by auto
  moreover from this assms(3) have "plain_text (entry_selector before sel n)"
    by (auto simp: plain_text_def entry_selector_def)
  ultimately show ?case
    using Cons.IH [OF Cons.prems] assms(1,2,4) i
    by (simp add: menu_body_def response_line_full read_menu_line)
qed

theorem menu_reads_back_witness:
  "read_menu (menu_body NUL ''/docs'' example_settings [(CHR ''0'', ''a b.txt''), (CHR ''1'', ''sub'')] @ ''.'' @ [CR, LF]) =
    Some [(CHR ''0'', ''a b.txt'', ''/docs/a b.txt'', ''localhost'', ''7070''),
          (CHR ''1'', ''sub'', ''/docs/sub'', ''localhost'', ''7070'')]"
proof -
  have st: "port example_settings = 7070" "host example_settings = ''localhost''"
    by (simp_all add: example_settings_def)
  have seven: "show_int 7070 = ''7070''"
    by (simp add: show_int_def show_nat.simps digit_char_def)
  have "read_menu (menu_body NUL ''/docs'' example_settings [(CHR ''0'', ''a b.txt''), (CHR ''1'', ''sub'')] @ ''.'' @ [CR, LF]) =
    Some (map (\<lambda>(t, n). (t, n, entry_selector NUL ''/docs'' n, host example_settings, show_int (port example_settings)))
      [(CHR ''0'', ''a b.txt''), (CHR ''1'', ''sub'')])"
    by (rule menu_reads_back) (auto simp: st plain_text_def)
  then show ?thesis
    by (simp add: st seven entry_selector_def selector_end_def)
qed

text \<open>
  The listing never leaves the directory: each command it runs is \<^verbatim>\<open>file -bi\<close> on the path of
  a name that \<^verbatim>\<open>readdir\<close> gave, and the path of a name (no slash in it) resolves to that name
  directly below the directory.
\<close>

theorem listing_stays_in_the_directory:
  assumes "path_of c \<noteq> []"
  shows "runs any_os (send_content_of_dir before c sel) (\<lambda>out es.
     \<forall>cmd \<in> set (commands_run es). \<exists>n \<in> names_read es.
       sh_words None cmd = Some [''file'', ''-bi'', subfile_path (path_of c) n] \<and>
       (n \<noteq> [] \<and> CHR ''/'' \<notin> set n \<longrightarrow>
          resolve (subfile_path (path_of c) n) = resolve (path_of c) @ [n]))"
proof (rule runs_weaken [OF runs_send_content_of_dir])
  fix out :: "unit outcome" and es
  assume res: "menu_result before c sel out es"
  have events: "\<forall>e \<in> set es. menu_event c N e \<Longrightarrow> cmd \<in> set (commands_run es) \<Longrightarrow>
      \<exists>n \<in> N. cmd = ''file -bi '' @ QUOTE # quote_body (subfile_path (path_of c) n) @ [QUOTE]" for N cmd
    by (induction es rule: commands_run.induct) auto
  have path: "resolve (subfile_path (path_of c) n) = resolve (path_of c) @ [n]"
    if "n \<in> names_read es" "n \<noteq> []" "CHR ''/'' \<notin> set n" for n
  proof -
    have n: "components n = [n]" "enter n d = d @ [n]" for d
      using that names_read_no_dots [OF that(1)] by (simp_all add: split_on_whole enter_def)
    show ?thesis
    proof (cases "last (path_of c) = CHR ''/''")
      case True
      with assms obtain h where h: "path_of c = h @ ''/''"
        by (metis append_butlast_last_id)
      then show ?thesis
        by (simp add: subfile_path_def resolve_def split_on_sep n enter_def [of "[]"])
    next
      case False
      then show ?thesis
        by (simp add: subfile_path_def resolve_def split_on_sep n)
    qed
  qed
  show "\<forall>cmd \<in> set (commands_run es). \<exists>n \<in> names_read es.
       sh_words None cmd = Some [''file'', ''-bi'', subfile_path (path_of c) n] \<and>
       (n \<noteq> [] \<and> CHR ''/'' \<notin> set n \<longrightarrow>
          resolve (subfile_path (path_of c) n) = resolve (path_of c) @ [n])"
  proof
    fix cmd
    assume "cmd \<in> set (commands_run es)"
    with events [of "names_read es"] res obtain n where
      "n \<in> names_read es" "cmd = ''file -bi '' @ QUOTE # quote_body (subfile_path (path_of c) n) @ [QUOTE]"
      by (auto simp: menu_result_def)
    then show "\<exists>n \<in> names_read es.
       sh_words None cmd = Some [''file'', ''-bi'', subfile_path (path_of c) n] \<and>
       (n \<noteq> [] \<and> CHR ''/'' \<notin> set n \<longrightarrow>
          resolve (subfile_path (path_of c) n) = resolve (path_of c) @ [n])"
      using quoting.file_command [of "subfile_path (path_of c) n"] path by blast
  qed
qed

theorem listing_stays_in_the_directory_witness:
  "path_of example_client = ''/srv/docs'' \<and> resolve (subfile_path (path_of example_client) ''a'') = [''srv'', ''docs'', ''a''] \<and>
   runs any_os (send_content_of_dir NUL example_client ''docs'') (\<lambda>out es. commands_run es = [] \<or>
     (\<exists>n. n \<in> names_read es \<and>
        sh_words None (hd (commands_run es)) = Some [''file'', ''-bi'', subfile_path ''/srv/docs'' n]))"
proof -
  have ne: "path_of example_client \<noteq> []" by simp
  have "runs any_os (send_content_of_dir NUL example_client ''docs'') (\<lambda>out es. commands_run es = [] \<or>
     (\<exists>n. n \<in> names_read es \<and>
        sh_words None (hd (commands_run es)) = Some [''file'', ''-bi'', subfile_path ''/srv/docs'' n]))"
  proof (rule runs_weaken [OF listing_stays_in_the_directory [OF ne]], goal_cases)
    case (1 out es)
    then show ?case by (cases "commands_run es") auto
  qed
  then show ?thesis
    by (simp add: subfile_path_def resolve_def enter_def)
qed

text \<open>
  A directory without entries crashes the handler: the response is still the null pointer
  when \<^verbatim>\<open>strlen\<close> is applied to it after the loop, whatever the client asked.
\<close>

theorem empty_directory_crashes:
  assumes "\<And>h. rv (os h (File (Opendir (path_of c)))) \<noteq> 0"
    and "\<And>h. rv (os h (File Readdir)) = 0"
    and "2 \<le> budget w"
  shows "fst (send_content_of_dir before c sel os w) = Crash ''strlen(response) of the null pointer''"
proof -
  from assms(3) obtain n where "budget w = Suc (Suc n)"
    using le_Suc_ex by force
  with assms(1,2) show ?thesis
    by (simp add: send_content_of_dir_def dir_round_def loop_def run_defs)
qed

theorem empty_directory_crashes_witness:
  "fst (send_content_of_dir NUL example_client ''docs''
      (\<lambda>h c. plain_reply (if c = File Readdir then 0 else 1)) \<lparr>trace = [], budget = 2\<rparr>)
    = Crash ''strlen(response) of the null pointer''"
  by (rule empty_directory_crashes) (simp_all add: plain_reply_def)

end
