(* ===== verification/Log_Text.thy ===== *)
theory Log_Text
  imports Progress
begin

text \<open>
  The text of log messages and log records (log.c, and the record of \<^verbatim>\<open>thread_sender\<close> in
  gopher.c): the date, the buffer of \<^verbatim>\<open>write_log\<close> with its two truncations and the removal
  of trailing newlines, and the record of a transfer with the size that is allocated for it.
  \<^verbatim>\<open>strerror\<close> is a parameter. The lemmas show what fits, and that dates and records can be read
  back.
\<close>

section \<open>The date\<close>

definition month_names :: "string list" where
  "month_names = [''Jan'', ''Feb'', ''Mar'', ''Apr'', ''May'', ''Jun'',
     ''Jul'', ''Aug'', ''Sep'', ''Oct'', ''Nov'', ''Dec'']"

text \<open>\<^verbatim>\<open>timestr[4..6]\<close> of \<^verbatim>\<open>asctime\<close> is the month; \<^verbatim>\<open>snprintf(r, 23, "[%s %02d %04d %02d:%02d:%02d]")\<close>.\<close>

definition date_text :: "tm \<Rightarrow> string" where
  "date_text t =
     snprintf 23 (''['' @ month_names ! tm_mon t @ '' '' @ pad0 2 (tm_mday t) @ '' '' @ pad0 4 (tm_year t + 1900)
       @ '' '' @ pad0 2 (tm_hour t) @ '':'' @ pad0 2 (tm_min t) @ '':'' @ pad0 2 (tm_sec t) @ '']'')"

definition date_string :: "string prog" where
  "date_string =
     call (Mem (Malloc ''r'' 23)) (\<lambda>r.
     if rv r = 0 then say ERROR ''Malloc on date_string failed becouse: %s'' [AE (errno r)] (exit 5)
     else call (Proc Localtime) (\<lambda>timeinfo. ret (date_text (clock timeinfo))))"

text \<open>What \<^verbatim>\<open>localtime\<close> promises about its fields (years before 10000).\<close>

definition valid_tm :: "tm \<Rightarrow> bool" where
  "valid_tm t \<longleftrightarrow> tm_year t + 1900 < 10000 \<and> tm_mon t < 12 \<and> tm_mday t < 32 \<and> tm_hour t < 24
     \<and> tm_min t < 60 \<and> tm_sec t < 62"

section \<open>Messages\<close>

definition LOG_STR_LEN :: nat where "LOG_STR_LEN = 1024"

definition log_lv_name :: "level \<Rightarrow> string" where
  "log_lv_name l = (case l of ERROR \<Rightarrow> ''ERROR'' | WARNING \<Rightarrow> ''WARNING'' | INFO \<Rightarrow> ''INFO'' | DEBUG \<Rightarrow> ''DEBUG'')"

text \<open>The conversions of a format: each takes the next argument.\<close>

definition show_arg :: "(int \<Rightarrow> string) \<Rightarrow> log_arg \<Rightarrow> string" where
  "show_arg strerror a = (case a of AS s \<Rightarrow> s | AI i \<Rightarrow> show_int i | AE n \<Rightarrow> strerror n)"

fun expand :: "(int \<Rightarrow> string) \<Rightarrow> bool \<Rightarrow> string \<Rightarrow> log_arg list \<Rightarrow> string" where
  "expand strerror in_conv [] args = []"
| "expand strerror False (c # cs) args =
     (if c = CHR ''%'' then expand strerror True cs args else c # expand strerror False cs args)"
| "expand strerror True (c # cs) args =
     (if c \<in> set ''sdupc'' then
        (case args of [] \<Rightarrow> [] | a # as \<Rightarrow> show_arg strerror a) @ expand strerror False cs (tl args)
      else expand strerror True cs args)"

text \<open>
  \<^verbatim>\<open>while (s[strlen(s) - 1] == '\n') s[strlen(s) - 1] = 0\<close>, on the reversed text: for a text
  of newlines only the loop reads before the buffer.
\<close>

fun strip_newlines :: "string \<Rightarrow> string option" where
  "strip_newlines [] = None"
| "strip_newlines (c # cs) = (if c = LF then strip_newlines cs else Some (rev (c # cs)))"

definition log_message :: "(int \<Rightarrow> string) \<Rightarrow> string \<Rightarrow> string \<Rightarrow> log_arg list \<Rightarrow> string option" where
  "log_message strerror ds error_string args =
     strip_newlines (rev (snprintf (LOG_STR_LEN - length ds) (expand strerror False error_string args)))"

definition write_log :: "(int \<Rightarrow> string) \<Rightarrow> tm \<Rightarrow> level \<Rightarrow> string \<Rightarrow> log_arg list \<Rightarrow> string option" where
  "write_log strerror t log_lv error_string args =
     (let ds = date_text t in
      map_option (\<lambda>m. snprintf LOG_STR_LEN (ds @ '' '' @ log_lv_name log_lv @ '': '' @ m @ [LF]))
        (log_message strerror ds error_string args))"

text \<open>Levels are compared by their numbers. The stream of a level: \<^verbatim>\<open>LOG_LEVEL\<close> is \<^verbatim>\<open>DEBUG\<close>.\<close>

definition level_num :: "level \<Rightarrow> nat" where
  "level_num l = (case l of ERROR \<Rightarrow> 0 | WARNING \<Rightarrow> 1 | INFO \<Rightarrow> 2 | DEBUG \<Rightarrow> 3)"

instantiation level :: linorder
begin

definition less_eq_level :: "level \<Rightarrow> level \<Rightarrow> bool" where
  "less_eq_level l l' \<longleftrightarrow> level_num l \<le> level_num l'"

definition less_level :: "level \<Rightarrow> level \<Rightarrow> bool" where
  "less_level l l' \<longleftrightarrow> level_num l < level_num l'"

instance
  by standard (auto simp: less_eq_level_def less_level_def level_num_def split: level.splits)

end

datatype stream = Stderr | Stdout

definition log_stream :: "level \<Rightarrow> stream option" where
  "log_stream l = (if l \<le> WARNING then Some Stderr else if l \<le> DEBUG then Some Stdout else None)"

section \<open>The record of a transfer\<close>

definition record_size :: "string \<Rightarrow> client_args \<Rightarrow> nat" where
  "record_size ds c = (length ds + 1) + (length (cstr (c_path_file c)) + 1) + 24 + (length (c_addr c) + 2)"

definition record_text :: "string \<Rightarrow> client_args \<Rightarrow> string" where
  "record_text ds c =
     ds @ '' '' @ cstr (c_path_file c) @ '' '' @ show_nat (c_len_file c) @ '' B '' @ c_addr c @ [LF]"

definition logs_string :: "string \<Rightarrow> client_args \<Rightarrow> string" where
  "logs_string ds c = snprintf (record_size ds c) (record_text ds c)"

section \<open>Lemmas\<close>

lemma month_names_length: "m < 12 \<Longrightarrow> length (month_names ! m) = 3"
  by (auto simp: month_names_def less_Suc_eq numeral_eq_Suc)

lemma month_names_inj: "m < 12 \<Longrightarrow> m' < 12 \<Longrightarrow> month_names ! m = month_names ! m' \<Longrightarrow> m = m'"
proof -
  have "distinct month_names" by (simp add: month_names_def)
  moreover have "length month_names = 12" by (simp add: month_names_def)
  ultimately show "m < 12 \<Longrightarrow> m' < 12 \<Longrightarrow> month_names ! m = month_names ! m' \<Longrightarrow> m = m'"
    by (simp add: nth_eq_iff_index_eq)
qed

lemma valid_tm_lengths:
  assumes "valid_tm t"
  shows "length (month_names ! tm_mon t) = 3" "length (pad0 2 (tm_mday t)) = 2"
    "length (pad0 4 (tm_year t + 1900)) = 4" "length (pad0 2 (tm_hour t)) = 2"
    "length (pad0 2 (tm_min t)) = 2" "length (pad0 2 (tm_sec t)) = 2"
  using assms by (auto simp: valid_tm_def month_names_length intro!: pad0_length)

lemma date_text_full:
  assumes "valid_tm t"
  shows "date_text t = ''['' @ month_names ! tm_mon t @ '' '' @ pad0 2 (tm_mday t) @ '' ''
    @ pad0 4 (tm_year t + 1900) @ '' '' @ pad0 2 (tm_hour t) @ '':'' @ pad0 2 (tm_min t) @ '':''
    @ pad0 2 (tm_sec t) @ '']''"
  unfolding date_text_def using valid_tm_lengths [OF assms] by (intro snprintf_fits) simp

lemma date_text_length [text_len]: "valid_tm t \<Longrightarrow> length (date_text t) = 22"
  using valid_tm_lengths [of t] by (simp add: date_text_full)

lemma digits_val_zeros: "digits_val (replicate k (CHR ''0'') @ s) = digits_val s"
  by (induction k) (simp_all add: digits_val_def digit_val_def)

lemma pad0_inj: "pad0 k m = pad0 k n \<Longrightarrow> m = n"
  by (metis digits_val_show_nat digits_val_zeros pad0_def)

lemma strip_newlines_Some: "strip_newlines s = Some m \<Longrightarrow> m \<noteq> [] \<and> last m \<noteq> LF \<and> length m \<le> length s"
  by (induction s) (auto split: if_splits)

lemma strip_newlines_None: "strip_newlines s = None \<longleftrightarrow> set s \<subseteq> {LF}"
  by (induction s) auto

lemma strip_newlines_id: "s \<noteq> [] \<Longrightarrow> last s \<noteq> LF \<Longrightarrow> strip_newlines (rev s) = Some s"
  by (cases s rule: rev_cases) auto

lemma record_fits:
  assumes "c_len_file c < 2 ^ 64"
  shows "logs_string ds c = record_text ds c"
proof -
  have "c_len_file c < 10 ^ 20"
    using assms by (simp add: order.strict_trans)
  then have "length (show_nat (c_len_file c)) \<le> 20"
    by (rule show_nat_length) simp
  then show ?thesis
    unfolding logs_string_def by (intro snprintf_fits) (simp add: record_text_def record_size_def)
qed

section \<open>Properties\<close>

text \<open>
  The date of a log line fills its 22 characters exactly, and it can be read back: two valid
  times with the same text are the same to the second.
\<close>

theorem date_text_reads_back:
  assumes "valid_tm t" "valid_tm u"
  shows "length (date_text t) = 22 \<and> (date_text t = date_text u \<longrightarrow> t = u)"
proof (intro conjI impI)
  show "length (date_text t) = 22" using assms(1) by (rule date_text_length)
  assume "date_text t = date_text u"
  then have "month_names ! tm_mon t = month_names ! tm_mon u \<and> pad0 2 (tm_mday t) = pad0 2 (tm_mday u) \<and>
      pad0 4 (tm_year t + 1900) = pad0 4 (tm_year u + 1900) \<and> pad0 2 (tm_hour t) = pad0 2 (tm_hour u) \<and>
      pad0 2 (tm_min t) = pad0 2 (tm_min u) \<and> pad0 2 (tm_sec t) = pad0 2 (tm_sec u)"
    using valid_tm_lengths [OF assms(1)] valid_tm_lengths [OF assms(2)]
    by (simp add: date_text_full assms)
  then have "tm_mon t = tm_mon u" "tm_mday t = tm_mday u" "tm_year t = tm_year u" "tm_hour t = tm_hour u"
      "tm_min t = tm_min u" "tm_sec t = tm_sec u"
    using assms month_names_inj [of "tm_mon t" "tm_mon u"] by (auto simp: valid_tm_def dest!: pad0_inj)
  then show "t = u" by (intro tm.equality) simp_all
qed

definition example_tm :: tm where
  "example_tm = \<lparr>tm_year = 119, tm_mon = 8, tm_mday = 5, tm_hour = 12, tm_min = 3, tm_sec = 59\<rparr>"

theorem date_text_reads_back_witness:
  "date_text example_tm = ''[Sep 05 2019 12:03:59]'' \<and> length (date_text example_tm) = 22 \<and>
   date_text example_tm \<noteq> date_text (example_tm\<lparr>tm_sec := 58\<rparr>)"
proof -
  have v: "valid_tm example_tm" "valid_tm (example_tm\<lparr>tm_sec := 58\<rparr>)"
    by (simp_all add: valid_tm_def example_tm_def)
  have "date_text example_tm = ''[Sep 05 2019 12:03:59]''"
    by (simp add: date_text_def example_tm_def month_names_def pad0_def show_nat.simps digit_char_def snprintf_def)
  moreover have "example_tm \<noteq> example_tm\<lparr>tm_sec := 58\<rparr>"
    by (simp add: example_tm_def)
  ultimately show ?thesis
    using date_text_reads_back [OF v] by blast
qed

text \<open>
  A line of \<^verbatim>\<open>write_log\<close> has at most 1023 characters; a message that is left with at most 989
  characters is written whole, on one line with its date and level; the loop that removes
  newlines reads before its buffer exactly when the message is empty or nothing but newlines.
\<close>

theorem write_log_line:
  assumes "valid_tm t"
  shows "(write_log strerror t l s args = None \<longleftrightarrow> set (take 1001 (expand strerror False s args)) \<subseteq> {LF}) \<and>
    (\<forall>line. write_log strerror t l s args = Some line \<longrightarrow> length line \<le> 1023) \<and>
    (let m = expand strerror False s args in
     m \<noteq> [] \<and> last m \<noteq> LF \<and> length m \<le> 989 \<longrightarrow>
       write_log strerror t l s args = Some (date_text t @ '' '' @ log_lv_name l @ '': '' @ m @ [LF]))"
proof -
  let ?m = "expand strerror False s args"
  have cut: "snprintf (LOG_STR_LEN - length (date_text t)) ?m = take 1001 ?m"
    by (simp add: snprintf_def LOG_STR_LEN_def date_text_length assms)
  have "log_message strerror (date_text t) s args = Some ?m"
    if "?m \<noteq> []" "last ?m \<noteq> LF" "length ?m \<le> 989"
    using that by (simp add: log_message_def cut strip_newlines_id)
  moreover have "length (log_lv_name l) \<le> 7"
    by (simp add: log_lv_name_def split: level.splits)
  ultimately have "write_log strerror t l s args = Some (date_text t @ '' '' @ log_lv_name l @ '': '' @ ?m @ [LF])"
    if "?m \<noteq> []" "last ?m \<noteq> LF" "length ?m \<le> 989"
    using that by (simp add: write_log_def Let_def LOG_STR_LEN_def date_text_length assms)
  moreover have "write_log strerror t l s args = None \<longleftrightarrow> set (take 1001 ?m) \<subseteq> {LF}"
    by (simp add: write_log_def Let_def log_message_def cut strip_newlines_None)
  moreover have "length line \<le> 1023" if "write_log strerror t l s args = Some line" for line
    using that by (auto simp: write_log_def Let_def LOG_STR_LEN_def snprintf_def)
  ultimately show ?thesis by (simp add: Let_def)
qed

theorem write_log_line_witness:
  "write_log (\<lambda>_. []) example_tm INFO ''Server port: %d, mode: %s'' [AI 70, AS ''multithreaded''] =
     Some ''[Sep 05 2019 12:03:59] INFO: Server port: 70, mode: multithreaded\<newline>''"
proof -
  have v: "valid_tm example_tm" by (simp add: valid_tm_def example_tm_def)
  have d: "date_text example_tm = ''[Sep 05 2019 12:03:59]''"
    by (simp add: date_text_def example_tm_def month_names_def pad0_def show_nat.simps digit_char_def snprintf_def)
  have e: "expand (\<lambda>_. []) False ''Server port: %d, mode: %s'' [AI 70, AS ''multithreaded'']
      = ''Server port: 70, mode: multithreaded''"
    by (simp add: show_arg_def show_int_def show_nat.simps digit_char_def)
  have "let m = expand (\<lambda>_. []) False ''Server port: %d, mode: %s'' [AI 70, AS ''multithreaded''] in
      m \<noteq> [] \<and> last m \<noteq> LF \<and> length m \<le> 989 \<longrightarrow>
      write_log (\<lambda>_. []) example_tm INFO ''Server port: %d, mode: %s'' [AI 70, AS ''multithreaded''] =
        Some (date_text example_tm @ '' '' @ log_lv_name INFO @ '': '' @ m @ [LF])"
    using write_log_line [OF v] by blast
  then show ?thesis
    unfolding e d Let_def by (simp add: log_lv_name_def)
qed

text \<open>
  The record of a transfer fits the size computed for it, for every file of less than 2^64
  bytes: \<^verbatim>\<open>snprintf\<close> never cuts it, it ends with its only newline when path and address have
  none, and the length of the file can be read back from it.
\<close>

theorem transfer_record_fits:
  assumes "c_len_file c < 2 ^ 64" "LF \<notin> set ds" "LF \<notin> set (cstr (c_path_file c))" "LF \<notin> set (c_addr c)"
  shows "logs_string ds c = record_text ds c \<and> split_on LF (logs_string ds c) = [butlast (record_text ds c), []] \<and>
    length (logs_string ds c) < record_size ds c \<and>
    strtol10 (drop (length ds + 1 + length (cstr (c_path_file c)) + 1) (logs_string ds c)) = c_len_file c"
proof -
  have eq: "logs_string ds c = record_text ds c"
    using assms(1) by (rule record_fits)
  let ?body = "ds @ '' '' @ cstr (c_path_file c) @ '' '' @ show_nat (c_len_file c) @ '' B '' @ c_addr c"
  have body: "record_text ds c = ?body @ LF # []" by (simp add: record_text_def)
  have "LF \<notin> set ?body"
    using assms(2-4) by (auto simp: isdigit_def dest!: show_nat_digits)
  then have lines: "split_on LF (?body @ LF # []) = [?body, []]"
    unfolding split_on_sep by (simp add: split_on_whole del: set_append)
  have "length (logs_string ds c) \<le> record_size ds c - 1"
    unfolding logs_string_def by (rule snprintf_length)
  then have "length (logs_string ds c) < record_size ds c"
    by (simp add: record_size_def)
  moreover have "drop (length ds + 1 + length (cstr (c_path_file c)) + 1) (record_text ds c) =
      show_nat (c_len_file c) @ CHR '' '' # (''B '' @ c_addr c @ [LF])"
    by (simp add: record_text_def)
  moreover have "takeWhile isdigit (show_nat (c_len_file c) @ CHR '' '' # (''B '' @ c_addr c @ [LF])) = show_nat (c_len_file c)"
    by (rule takeWhile_append_stop) (auto simp: show_nat_digits, simp add: isdigit_def)
  ultimately show ?thesis
    using lines by (simp add: eq body strtol10_def butlast_append)
qed

theorem transfer_record_fits_witness:
  "c_len_file example_client = 0 \<and>
   logs_string ''[Sep 05 2019 12:03:59]'' example_client = ''[Sep 05 2019 12:03:59] /srv/docs 0 B 10.0.0.1:1234\<newline>''"
proof -
  have len: "c_len_file example_client = 0" "c_addr example_client = ''10.0.0.1:1234''"
    by (simp_all add: example_client_def)
  have "logs_string ''[Sep 05 2019 12:03:59]'' example_client = record_text ''[Sep 05 2019 12:03:59]'' example_client"
    using transfer_record_fits [of example_client "''[Sep 05 2019 12:03:59]''"] len by simp
  then show ?thesis
    by (simp add: record_text_def len show_nat.simps digit_char_def)
qed

end
