(* ===== verification/Log_Pipe.thy ===== *)
theory Log_Pipe
  imports Log_Text
begin

text \<open>
  The pipe between the senders and the process that writes \<^verbatim>\<open>sacagawea.log\<close>: how a record is
  framed (its length as four bytes, then its text), and \<^verbatim>\<open>log_management\<close> (log.c), the
  process that reads the frames. The interface \<open>framing\<close> states what makes a framed stream
  readable; the lemmas show that the log file receives exactly the records of the bytes read.
\<close>

section \<open>Integers in memory\<close>

text \<open>The four bytes of an \<^verbatim>\<open>int\<close>, least significant first, and the \<^verbatim>\<open>int\<close> of four bytes.\<close>

fun le_bytes :: "nat \<Rightarrow> nat \<Rightarrow> string" where
  "le_bytes 0 n = []"
| "le_bytes (Suc k) n = char_of (n mod 256) # le_bytes k (n div 256)"

fun le_val :: "string \<Rightarrow> nat" where
  "le_val [] = 0"
| "le_val (c # cs) = of_char c + 256 * le_val cs"

definition int_bytes :: "int \<Rightarrow> string" where
  "int_bytes i = le_bytes 4 (nat (i mod 2 ^ 32))"

definition bytes_int :: "string \<Rightarrow> int" where
  "bytes_int s = (let v = int (le_val s) in if v < 2 ^ 31 then v else v - 2 ^ 32)"

lemma le_bytes_length [simp]: "length (le_bytes k n) = k"
  by (induction k arbitrary: n) auto

lemma le_val_bytes: "n < 256 ^ k \<Longrightarrow> le_val (le_bytes k n) = n"
proof (induction k arbitrary: n)
  case (Suc k)
  then have "n div 256 < 256 ^ k" by (simp add: less_mult_imp_div_less mult.commute)
  with Suc.IH show ?case by simp
qed simp

lemma bytes_int_bytes:
  assumes "- (2 ^ 31) \<le> i" "i < 2 ^ 31"
  shows "bytes_int (int_bytes i) = i"
proof -
  have "nat (i mod 2 ^ 32) < 256 ^ 4" by (simp add: nat_less_iff)
  then have "int (le_val (int_bytes i)) = i mod 2 ^ 32"
    by (simp add: int_bytes_def le_val_bytes)
  moreover have "i mod 2 ^ 32 = (if 0 \<le> i then i else i + 2 ^ 32)"
  proof (cases "0 \<le> i")
    case False
    then have "(i + 2 ^ 32) mod 2 ^ 32 = i + 2 ^ 32"
      using assms by (intro mod_pos_pos_trivial) auto
    with False show ?thesis by simp
  qed (use assms in simp)
  ultimately show ?thesis
    using assms by (simp add: bytes_int_def Let_def)
qed

lemma int_bytes_length [simp]: "length (int_bytes i) = 4"
  by (simp add: int_bytes_def)

section \<open>Frames\<close>

definition frame :: "string \<Rightarrow> string" where
  "frame s = int_bytes (int (length s)) @ s"

text \<open>The records at the start of a stream, and what is left of it.\<close>

function unframe :: "string \<Rightarrow> string list \<times> string" where
  "unframe s =
     (let n = bytes_int (take 4 s) in
      if length s < 4 \<or> n < 0 \<or> int (length s) < 4 + n then ([], s)
      else (let (rs, rest) = unframe (drop (nat n) (drop 4 s)) in (take (nat n) (drop 4 s) # rs, rest)))"
  by auto
termination
  by (relation "measure length") auto

declare unframe.simps [simp del]

text \<open>
  What the readers of a stream of frames need: a frame at the start of a stream is the first
  record that is read, and a proper prefix of a frame is no record yet.
\<close>

locale framing =
  fixes put_frame :: "string \<Rightarrow> string" and get_frames :: "string \<Rightarrow> string list \<times> string"
    and fits :: "string \<Rightarrow> bool"
  assumes get_put: "fits r \<Longrightarrow> get_frames (put_frame r @ s) = (r # fst (get_frames s), snd (get_frames s))"
    and get_none: "get_frames [] = ([], [])"
    and get_part: "fits r \<Longrightarrow> strict_prefix s (put_frame r) \<Longrightarrow> get_frames s = ([], s)"
begin

lemma get_all:
  assumes "\<forall>r \<in> set rs. fits r"
  shows "get_frames (concat (map put_frame rs) @ s) = (rs @ fst (get_frames s), snd (get_frames s))"
  using assms by (induction rs) (simp_all add: get_put)

text \<open>Whatever part of the stream has arrived, its records are a prefix of those that were put.\<close>

lemma get_prefix:
  assumes "\<forall>r \<in> set rs. fits r" "prefix s (concat (map put_frame rs))"
  shows "prefix (fst (get_frames s)) rs"
  using assms
proof (induction rs arbitrary: s)
  case Nil
  then show ?case by (simp add: get_none)
next
  case (Cons r rs)
  then have "prefix s (put_frame r @ concat (map put_frame rs))" by simp
  then consider "strict_prefix s (put_frame r)"
    | s' where "s = put_frame r @ s'" "prefix s' (concat (map put_frame rs))"
  proof (cases "prefix s (put_frame r) \<and> s \<noteq> put_frame r")
    case False
    with \<open>prefix s (put_frame r @ _)\<close> have "\<exists>s'. s = put_frame r @ s' \<and> prefix s' (concat (map put_frame rs))"
      by (auto simp: prefix_append)
    then show ?thesis using that(2) by blast
  qed (simp add: that(1) strict_prefix_def)
  then show ?case
    using Cons by cases (auto simp: get_put get_part)
qed

end

definition record_ok :: "string \<Rightarrow> bool" where
  "record_ok r \<longleftrightarrow> length r < 2 ^ 31"

lemma frame_header:
  assumes "record_ok r"
  shows "take 4 (frame r @ s) = int_bytes (int (length r))"
    and "bytes_int (int_bytes (int (length r))) = int (length r)"
  using assms by (simp_all add: frame_def record_ok_def bytes_int_bytes)

lemma unframe_frame: "record_ok r \<Longrightarrow> unframe (frame r @ s) = (r # fst (unframe s), snd (unframe s))"
  using frame_header(1) [of r s] frame_header(2) [of r] by (subst unframe.simps) (simp add: Let_def split_beta frame_def)

lemma unframe_part:
  assumes "record_ok r" "strict_prefix s (frame r)"
  shows "unframe s = ([], s)"
proof (cases "length s < 4")
  case True
  then show ?thesis by (subst unframe.simps) (simp add: Let_def)
next
  case False
  from assms(2) obtain t where t: "frame r = s @ t" "t \<noteq> []"
    by (auto simp: strict_prefix_def prefix_def)
  with False have "take 4 s = take 4 (frame r @ [])" by simp
  then have "bytes_int (take 4 s) = int (length r)"
    using frame_header(1) [OF assms(1), of "[]"] frame_header(2) [OF assms(1)] by simp
  moreover have "length s < 4 + length r"
    using arg_cong [OF t(1), of length] t(2) by (simp add: frame_def)
  ultimately show ?thesis by (subst unframe.simps) (simp add: Let_def)
qed

lemma unframe_Nil: "unframe [] = ([], [])"
  by (subst unframe.simps) (simp add: Let_def)

interpretation pipe: framing frame unframe record_ok
  by unfold_locales (simp_all add: unframe_frame unframe_part unframe_Nil)

lemma unframe_append:
  "unframe s = (rs, []) \<Longrightarrow> unframe (s @ t) = (rs @ fst (unframe t), snd (unframe t))"
proof (induction s arbitrary: rs rule: unframe.induct)
  case (1 s)
  let ?n = "bytes_int (take 4 s)"
  show ?case
  proof (cases "length s < 4 \<or> ?n < 0 \<or> int (length s) < 4 + ?n")
    case True
    with "1.prems" have "s = []" "rs = []"
      by (simp_all add: unframe.simps [of s] Let_def)
    then show ?thesis by simp
  next
    case False
    let ?u = "drop (nat ?n) (drop 4 s)"
    obtain rs' rest where u: "unframe ?u = (rs', rest)" by fastforce
    from False "1.prems" u have "rest = []" "rs = take (nat ?n) (drop 4 s) # rs'"
      by (simp_all add: unframe.simps [of s] Let_def)
    with "1.IH" [OF refl False, of rs'] u
    have "unframe (?u @ t) = (rs' @ fst (unframe t), snd (unframe t))" by simp
    moreover from False have "take 4 (s @ t) = take 4 s" "drop (nat ?n) (drop 4 (s @ t)) = ?u @ t"
        "take (nat ?n) (drop 4 (s @ t)) = take (nat ?n) (drop 4 s)"
      by auto
    ultimately show ?thesis
      using False \<open>rs = _\<close> by (subst unframe.simps) (auto simp: Let_def split_beta)
  qed
qed

section \<open>The logger process\<close>

definition log_management_exit :: "int \<Rightarrow> 'a prog" where
  "log_management_exit exitCode =
     call (Thread MutexUnlock) (\<lambda>r.
     say_if (rv r \<noteq> 0) ERROR ''LOGS Process fail unlock mutex'' []
     (eff (Thread MutexDestroy) (eff (Thread CondDestroy) (eff (Proc ShmUnlink)
     (eff (File (ClosePipe 0)) (exit exitCode))))))"

text \<open>The body of a record: \<^verbatim>\<open>read\<close> until its length is there.\<close>

definition body_round :: "int \<Rightarrow> string \<Rightarrow> (string + string) prog" where
  "body_round len_string read_line =
     (if int (length read_line) < len_string then
        call (File (PipeRead (len_string - int (length read_line)))) (\<lambda>check.
        if rv check < 0 then
          say ERROR ''read() fail becouse: %s'' [AE (errno check)] (log_management_exit 1)
        else ret (Inl (read_line @ payload check)))
      else ret (Inr read_line))"

text \<open>
  One record. A short read of the length leaves the other bytes of \<^verbatim>\<open>len_string\<close> as they were.
\<close>

definition read_record :: "int \<Rightarrow> int prog" where
  "read_record len_string =
     call (File PipeReadInt) (\<lambda>check.
     if rv check < 0 then
       say ERROR ''read on log process failed becouse %s'' [AE (errno check)] (log_management_exit 1)
     else
       let len_string = bytes_int (payload check @ drop (length (payload check)) (int_bytes len_string)) in
       say INFO ''Log file received %d bytes'' [AI len_string]
       (call (File (FopenAppend SACAGAWEALOGS_PATH)) (\<lambda>log.
        if rv log = 0 then say INFO ''ERROR open logs file: %s'' [AE (errno log)] (log_management_exit 1)
        else
          call (Mem (Malloc ''read_line'' (len_string + 1))) (\<lambda>m.
          if rv m = 0 then
            say ERROR ''Malloc on logProcess failed becouse: %s'' [AE (errno m)]
            (eff (File Fclose) (log_management_exit 1))
          else
            bind (loop (body_round len_string) []) (\<lambda>read_line.
            if len_string < 0 then crash ''read_line[len_string] before the buffer''
            else
              say INFO ''received: %d, %s'' [AI len_string, AS (cstr read_line)]
              (eff (File (Fprintf (cstr read_line)))
              (eff (File Fclose) (eff (Mem (Free ''read_line'')) (ret len_string)))))))))"

text \<open>As long as \<^verbatim>\<open>cont\<close> is positive: a record, and \<^verbatim>\<open>cont\<close> goes down.\<close>

definition cont_round :: "int \<Rightarrow> (int + int) prog" where
  "cont_round len_string =
     call (Thread ContRead) (\<lambda>n.
     if rv n > 0 then
       bind (read_record len_string) (\<lambda>len_string. eff (Thread ContDecr) (ret (Inl len_string)))
     else ret (Inr len_string))"

definition wait_round :: "int \<Rightarrow> (int + unit) prog" where
  "wait_round len_string =
     call (Thread CondWait) (\<lambda>check.
     if rv check \<noteq> 0 then
       say ERROR ''LOGS Process fail on cond_wait errore %d'' [AI (rv check)] (log_management_exit 1)
     else bind (loop cont_round len_string) (\<lambda>len_string. ret (Inl len_string)))"

text \<open>\<open>garbage\<close> is what the uninitialised \<^verbatim>\<open>len_string\<close> holds.\<close>

definition log_management :: "int \<Rightarrow> unit prog" where
  "log_management garbage =
     say INFO ''Process for sacagawea.log created'' []
     (eff (Proc Prctl)
     (call (Thread MutexLock) (\<lambda>locked.
      if rv locked \<noteq> 0 then
        say ERROR ''LOGS Process fail on lock mutex'' []
        (eff (Thread MutexDestroy) (eff (Thread CondDestroy) (eff (Proc ShmUnlink)
        (eff (File (ClosePipe 0)) (exit 1)))))
      else loop wait_round garbage)))"

section \<open>What the logger reads and writes\<close>

fun piped :: "event list \<Rightarrow> string" where
  "piped (Sys (File PipeReadInt) r # es) = (if 0 \<le> rv r then payload r else []) @ piped es"
| "piped (Sys (File (PipeRead n)) r # es) = (if 0 \<le> rv r then payload r else []) @ piped es"
| "piped (e # es) = piped es"
| "piped [] = []"

fun log_written :: "event list \<Rightarrow> string" where
  "log_written (Eff (File (Fprintf s)) # es) = s @ log_written es"
| "log_written (e # es) = log_written es"
| "log_written [] = []"

lemma piped_append [simp]: "piped (es @ es') = piped es @ piped es'"
  by (induction es rule: piped.induct) auto

lemma log_written_append [simp]: "log_written (es @ es') = log_written es @ log_written es'"
  by (induction es rule: log_written.induct) auto

text \<open>
  The length of a record is written by one \<^verbatim>\<open>write\<close> of four bytes, which a pipe keeps together
  (\<^verbatim>\<open>PIPE_BUF\<close>): reading it gives four bytes or fails.
\<close>

definition pipe_os :: "call \<Rightarrow> reply \<Rightarrow> bool" where
  "pipe_os c r \<longleftrightarrow> posix_os c r \<and> (c = File PipeReadInt \<longrightarrow> rv r < 0 \<or> rv r = 4)"

text \<open>The end of a run in the middle of a record, and the end of a record.\<close>

definition log_ends :: "'a outcome \<Rightarrow> bool" where
  "log_ends out \<longleftrightarrow> out = Exit 1 \<or> out = Blocked \<or> out = Crash ''read_line[len_string] before the buffer''"

lemma runs_log_management_exit:
  assumes "\<And>es. piped es = [] \<Longrightarrow> log_written es = [] \<Longrightarrow> R (Exit n) es"
    and "\<And>es. piped es = [] \<Longrightarrow> log_written es = [] \<Longrightarrow> R Blocked es"
  shows "runs C (log_management_exit n) R"
  unfolding log_management_exit_def by (intro runs_intros) (auto intro: assms)

lemma body_round_consumes:
  "runs any_os (body_round n s) (\<lambda>out es. goes_round out \<longrightarrow> 0 < calls es)"
  unfolding body_round_def
  by (intro runs_if consumes_call runs_say runs_ret runs_log_management_exit) simp_all

interpretation body_loop: loop_body "body_round n" for n
  by unfold_locales (rule body_round_consumes)

definition body_result :: "int \<Rightarrow> string outcome \<Rightarrow> event list \<Rightarrow> bool" where
  "body_result n out es \<longleftrightarrow> log_written es = [] \<and>
     (case out of
        Ret s \<Rightarrow> s = piped es \<and> length s = nat n
      | Exit k \<Rightarrow> k = 1 \<and> int (length (piped es)) < n
      | ThreadExit \<Rightarrow> False
      | Crash m \<Rightarrow> False
      | Blocked \<Rightarrow> int (length (piped es)) < n)"

lemma runs_body_loop: "runs pipe_os (loop (body_round n) []) (body_result n)"
proof (rule body_loop.invariant [where I = "\<lambda>s es. log_written es = [] \<and> s = piped es \<and> int (length s) \<le> max n 0"])
  fix s es
  assume I: "log_written es = [] \<and> s = piped es \<and> int (length s) \<le> max n 0"
  show "runs pipe_os (body_round n s)
      (round (\<lambda>s es. log_written es = [] \<and> s = piped es \<and> int (length s) \<le> max n 0) (body_result n) es)"
    unfolding body_round_def
    by (intro runs_intros runs_log_management_exit)
       (use I in \<open>auto simp: body_result_def pipe_os_def\<close>)
qed simp

section \<open>The log file holds the records of the pipe\<close>

lemma unframe_record:
  "length h = 4 \<Longrightarrow> bytes_int h = int (length b) \<Longrightarrow> unframe (h @ b) = ([b], [])"
  by (subst unframe.simps) (simp add: Let_def unframe_Nil)

lemma unframe_short:
  "length h = 4 \<Longrightarrow> bytes_int h < 0 \<or> int (length b) < bytes_int h \<Longrightarrow> unframe (h @ b) = ([], h @ b)"
  by (subst unframe.simps) (auto simp: Let_def)

definition logged :: "event list \<Rightarrow> bool" where
  "logged es \<longleftrightarrow> log_written es = concat (map cstr (fst (unframe (piped es))))"

definition whole :: "event list \<Rightarrow> bool" where
  "whole es \<longleftrightarrow> logged es \<and> snd (unframe (piped es)) = []"

lemma whole_unframe: "whole es \<Longrightarrow> unframe (piped es) = (fst (unframe (piped es)), [])"
  by (simp add: whole_def prod_eq_iff)

lemma logged_append: "whole es \<Longrightarrow> logged es' \<Longrightarrow> logged (es @ es')"
  using unframe_append [OF whole_unframe, of es "piped es'"] by (simp add: logged_def whole_def)

lemma whole_append: "whole es \<Longrightarrow> whole es' \<Longrightarrow> whole (es @ es')"
  using unframe_append [OF whole_unframe, of es "piped es'"] logged_append [of es es']
  by (simp add: whole_def)

lemma logged_header:
  assumes "length h = 4" "piped es = h" "log_written es = []"
  shows "logged es"
proof (cases "bytes_int h = 0")
  case True
  with assms unframe_record [of h "[]"] show ?thesis by (simp add: logged_def cstr_def)
next
  case False
  with assms unframe_short [of h "[]"] show ?thesis by (cases "bytes_int h < 0") (auto simp: logged_def)
qed

lemma logged_nothing: "piped es = [] \<Longrightarrow> log_written es = [] \<Longrightarrow> whole es"
  by (simp add: whole_def logged_def unframe_Nil)

definition log_step :: "int outcome \<Rightarrow> event list \<Rightarrow> bool" where
  "log_step out es \<longleftrightarrow> (if \<exists>n. out = Ret n then whole es else logged es \<and> log_ends out)"

lemma log_step_simps [simp]:
  "log_step (Ret n) es \<longleftrightarrow> whole es"
  "log_step (Exit k) es \<longleftrightarrow> logged es \<and> k = 1"
  "log_step Blocked es \<longleftrightarrow> logged es"
  by (auto simp: log_step_def log_ends_def)

lemma runs_read_record: "runs pipe_os (read_record n) log_step"
  unfolding read_record_def Let_def
proof (rule runs_call, goal_cases)
  case 1
  show ?case by (simp add: logged_def unframe_Nil)
next
  case (2 r)
  show ?case
  proof (intro runs_if runs_say runs_log_management_exit, goal_cases)
    case 3
    then have four: "length (payload r) = 4"
      using 2 by (auto simp: pipe_os_def)
    note header = logged_header [OF four]
    let ?n = "bytes_int (payload r)"
    have len: "bytes_int (payload r @ drop (length (payload r)) (int_bytes n)) = ?n"
      using four by simp
    show ?case
      unfolding len
    proof (intro runs_call runs_if runs_say runs_eff runs_log_management_exit runs_bind
        runs_weaken [OF runs_body_loop], goal_cases)
      case (7 f m out es)
      then show ?case
        using four unframe_record [of "payload r" "piped es"] unframe_short [of "payload r" "piped es"] 3
        by (cases out)
           (auto simp: body_result_def log_step_def log_ends_def whole_def logged_def cstr_def
             intro!: runs_intros)
    qed (use 3 in \<open>auto intro!: header\<close>)
  qed (auto simp: logged_def unframe_Nil)
qed

lemma read_record_trivial: "runs any_os (read_record n) (\<lambda>_ _. True)"
  unfolding read_record_def Let_def
  by (intro runs_call runs_if runs_say runs_eff runs_ret runs_crash runs_log_management_exit
      runs_trivial_bind [OF body_loop.trivial]) simp_all

lemma cont_round_consumes:
  "runs any_os (cont_round n) (\<lambda>out es. goes_round out \<longrightarrow> 0 < calls es)"
  unfolding cont_round_def
  by (rule consumes_call)
     (intro runs_if runs_eff runs_ret runs_trivial_bind [OF read_record_trivial]; simp)

interpretation cont_loop: loop_body cont_round
  by unfold_locales (rule cont_round_consumes)

lemma wait_round_consumes:
  "runs any_os (wait_round n) (\<lambda>out es. goes_round out \<longrightarrow> 0 < calls es)"
  unfolding wait_round_def
  by (rule consumes_call)
     (intro runs_if runs_say runs_ret runs_log_management_exit runs_trivial_bind [OF cont_loop.trivial]; simp)

interpretation wait_loop: loop_body wait_round
  by unfold_locales (rule wait_round_consumes)

lemma log_step_append:
  assumes "whole es0" "log_step out es"
  shows "log_step out (es0 @ es)"
  using assms by (auto simp: log_step_def logged_append whole_append split: if_splits)

lemma log_step_quiet:
  assumes "log_step out es" "piped es' = []" "log_written es' = []" "piped es'' = []" "log_written es'' = []"
  shows "log_step out (es' @ es @ es'')"
  using assms by (auto simp: log_step_def whole_def logged_def split: if_splits)

lemma runs_cont_loop: "runs pipe_os (loop cont_round n) log_step"
proof (rule cont_loop.invariant [where I = "\<lambda>_. whole"])
  show "whole []" by (rule logged_nothing) simp_all
  fix n es0
  assume whole: "whole es0"
  show "runs pipe_os (cont_round n) (round (\<lambda>_. whole) log_step es0)"
    unfolding cont_round_def
  proof (intro runs_call runs_if runs_ret, goal_cases)
    case (2 r)
    show ?case
    proof (rule runs_bind_weaken [OF runs_read_record])
      fix out es
      assume "log_step out es"
      then have step: "log_step out (es0 @ Sys (Thread ContRead) r # es)"
        using log_step_append [OF whole log_step_quiet [of out es "[Sys (Thread ContRead) r]" "[]"]] by simp
      then show "after pipe_os (\<lambda>len. eff (Thread ContDecr) (ret (Inl len)))
          (\<lambda>out es. round (\<lambda>_. whole) log_step es0 out (Sys (Thread ContRead) r # es)) out es"
      proof (cases out)
        case (Ret k)
        with step have "whole (es0 @ Sys (Thread ContRead) r # es)" by simp
        from whole_append [OF this logged_nothing [of "[Eff (Thread ContDecr)]"]] Ret show ?thesis
          by (auto intro!: runs_eff runs_ret)
      qed (use step in simp_all)
    qed
  qed (use log_step_append [OF whole, of _ "[Sys (Thread ContRead) r]" for r] whole in
      \<open>auto simp: whole_def logged_def\<close>)
qed

lemma runs_wait_loop:
  "runs pipe_os (loop wait_round n) (\<lambda>out es. logged es \<and> log_ends out)"
proof (rule wait_loop.invariant [where I = "\<lambda>_. whole"])
  show "whole []" by (rule logged_nothing) simp_all
  fix n es0
  assume whole: "whole es0"
  let ?R = "\<lambda>out es. logged es \<and> log_ends out"
  show "runs pipe_os (wait_round n) (round (\<lambda>_. whole) ?R es0)"
    unfolding wait_round_def
  proof (intro runs_call runs_if runs_say runs_log_management_exit, goal_cases)
    case (4 r)
    show ?case
    proof (rule runs_bind_weaken [OF runs_cont_loop])
      fix out es
      assume "log_step out es"
      then have step: "log_step out (es0 @ Sys (Thread CondWait) r # es)"
        using log_step_append [OF whole log_step_quiet [of out es "[Sys (Thread CondWait) r]" "[]"]] by simp
      then show "after pipe_os (\<lambda>len. ret (Inl len))
          (\<lambda>out es. round (\<lambda>_. whole) ?R es0 out (Sys (Thread CondWait) r # es)) out es"
        by (cases out) (auto simp: log_step_def log_ends_def intro!: runs_ret)
    qed
  qed (use whole in \<open>auto simp: whole_def logged_def log_ends_def\<close>)
qed

section \<open>Properties\<close>

text \<open>
  A stream of frames is read back record by record, and from any part of it that has arrived
  the records that can be read are the first ones that were put, for records of less than 2^31
  bytes.
\<close>

theorem frames_read_back:
  assumes "\<forall>r \<in> set rs. length r < 2 ^ 31"
  shows "unframe (concat (map frame rs)) = (rs, []) \<and>
    (prefix s (concat (map frame rs)) \<longrightarrow> prefix (fst (unframe s)) rs)"
proof -
  have ok: "\<forall>r \<in> set rs. record_ok r"
    using assms by (simp add: record_ok_def)
  show ?thesis
    using pipe.get_all [OF ok, of "[]"] pipe.get_prefix [OF ok] by (simp add: unframe_Nil)
qed

theorem frames_read_back_witness:
  "unframe (concat (map frame [''one'', [], ''two''])) = ([''one'', [], ''two''], [])"
  using frames_read_back [of "[''one'', [], ''two'']"] by simp

text \<open>
  C5: whatever the senders, the scheduler and the file system do, the logger never returns, and at
  every moment it has written to the log file exactly the records that are complete in the
  bytes it has read from the pipe, in that order and each once; it ends with exit code 1, or
  by a store before its buffer when a record announces a negative length.
\<close>

theorem logger_writes_the_records:
  "runs pipe_os (log_management garbage) (\<lambda>out es.
     log_written es = concat (map cstr (fst (unframe (piped es)))) \<and>
     (out = Exit 1 \<or> out = Blocked \<or> out = Crash ''read_line[len_string] before the buffer''))"
  unfolding log_management_def
proof (intro runs_say runs_eff runs_call runs_if runs_exit, goal_cases)
  case (3 r)
  show ?case
    by (rule runs_weaken [OF runs_wait_loop]) (auto simp: logged_def log_ends_def)
qed (simp_all add: unframe_Nil)

end
