(* ===== verification/Sender.thy ===== *)
theory Sender
  imports Log_Pipe
begin

text \<open>
  Sending a file (\<^verbatim>\<open>thread_sender\<close> in gopher.c, Linux build): the loop over \<^verbatim>\<open>send\<close>, the wait for
  the client to close, and the record for the log. The lemmas show that the bytes on the wire
  are always a prefix of the file, that a record goes to the pipe only after the whole file has
  been sent, and which failures leave the mutex of the log locked.
\<close>

section \<open>The code\<close>

definition send_round :: "client_args \<Rightarrow> nat \<Rightarrow> (nat + nat) prog" where
  "send_round c bytes_sent =
     (if bytes_sent < c_len_file c then
        call (Net (Send (c_socket c) (take (c_len_file c - bytes_sent) (drop bytes_sent (c_file_to_send c))))) (\<lambda>temp.
        if rv temp < 0 then
          say ERROR ''Sending file to %s, with socket %d failed: %s''
            [AS (c_addr c), AI (c_socket c), AE (errno temp)] pthread_exit
        else if rv temp = 0 then
          say ERROR (''Client %s, with socket %d close the connection meanwhile sending file'' @ [LF])
            [AS (c_addr c), AI (c_socket c)] pthread_exit
        else
          say DEBUG (''sent %lld/%lld bytes'' @ [LF])
            [AI (int bytes_sent + rv temp), AI (int (c_len_file c))]
          (ret (Inl (bytes_sent + nat (rv temp)))))
      else ret (Inr bytes_sent))"

text \<open>After the shutdown: \<^verbatim>\<open>recv\<close> until the client has closed.\<close>

definition closing_round :: "client_args \<Rightarrow> nat \<Rightarrow> (nat + nat) prog" where
  "closing_round c n =
     call (Net (Recv (c_socket c) 512 WaitAll)) (\<lambda>r.
     if rv r < 0 then say ERROR ''recv() failed: %s'' [AE (errno r)] pthread_exit
     else if rv r \<noteq> 0 then ret (Inl n) else ret (Inr n))"

definition write_record :: "string \<Rightarrow> unit prog" where
  "write_record logs =
     call (Thread MutexLock) (\<lambda>locked.
     if rv locked \<noteq> 0 then
       say ERROR ''pthread_mutex_lock(mutex) fail on thread_sender, dont saved on logs'' []
       (eff (Mem (Free ''logs_string'')) pthread_exit)
     else
       eff (Thread ContIncr)
       (call (File (PipeWrite (int_bytes (int (length logs))))) (\<lambda>w.
        if rv w < 0 then
          say ERROR ''System call write() failed because of %s'' [AE (errno w)] pthread_exit
        else
          call (File (PipeWrite logs)) (\<lambda>w.
          if rv w < 0 then
            say ERROR ''System call write() failed because of %s'' [AE (errno w)] pthread_exit
          else
            call (Thread CondSignal) (\<lambda>signal.
            say_if (rv signal \<noteq> 0) ERROR ''pthread_cond_signal(cond) fail on thread_sender'' []
            (call (Thread MutexUnlock) (\<lambda>unlocked.
             say_if (rv unlocked \<noteq> 0) ERROR ''pthread_mutex_unlock(mutex) fail on thread_sender'' []
             (eff (Mem (Free ''logs_string'')) (ret ())))))))))"

definition log_transfer :: "client_args \<Rightarrow> unit prog" where
  "log_transfer c =
     bind date_string (\<lambda>ds.
     call (Mem (Malloc ''logs_string'' (int (record_size ds c)))) (\<lambda>m.
     if rv m = 0 then say ERROR ''malloc() failed: %s'' [AE (errno m)] pthread_exit
     else eff (Mem (Free ''ds'')) (write_record (cstr (logs_string ds c)))))"

definition thread_sender :: "client_args \<Rightarrow> unit prog" where
  "thread_sender c =
     call (Proc (IgnoreSignal ''SIGHUP'')) (\<lambda>s.
     if rv s = - 1 then say ERROR ''Signal() failed because of %s'' [AE (errno s)] (exit 1)
     else
       bind (loop (send_round c) 0) (\<lambda>bytes_sent.
       call (Net (ShutdownWr (c_socket c))) (\<lambda>s.
       if rv s < 0 then say ERROR (''shutdown() failed: %s'' @ [LF]) [AE (errno s)] pthread_exit
       else
         bind (loop (closing_round c) 0) (\<lambda>_.
         if bytes_sent = c_len_file c then bind (log_transfer c) (\<lambda>_. pthread_exit)
         else pthread_exit))))"

section \<open>What was written and what is locked\<close>

fun pipe_writes :: "event list \<Rightarrow> string list" where
  "pipe_writes (Sys (File (PipeWrite s)) r # es) = s # pipe_writes es"
| "pipe_writes (e # es) = pipe_writes es"
| "pipe_writes [] = []"

fun write_failed :: "event list \<Rightarrow> bool" where
  "write_failed (Sys (File (PipeWrite s)) r # es) = (rv r < 0 \<or> write_failed es)"
| "write_failed (Sys (Thread MutexUnlock) r # es) = (rv r \<noteq> 0 \<or> write_failed es)"
| "write_failed (e # es) = write_failed es"
| "write_failed [] = False"

text \<open>The number of successful locks of the mutex that were not undone.\<close>

fun locks_held :: "event list \<Rightarrow> int" where
  "locks_held (Sys (Thread MutexLock) r # es) = (if rv r = 0 then 1 else 0) + locks_held es"
| "locks_held (Sys (Thread MutexUnlock) r # es) = (if rv r = 0 then - 1 else 0) + locks_held es"
| "locks_held (e # es) = locks_held es"
| "locks_held [] = 0"

lemma pipe_writes_append [simp]: "pipe_writes (es @ es') = pipe_writes es @ pipe_writes es'"
  by (induction es rule: pipe_writes.induct) auto

lemma write_failed_append [simp]: "write_failed (es @ es') \<longleftrightarrow> write_failed es \<or> write_failed es'"
  by (induction es rule: write_failed.induct) auto

lemma locks_held_append [simp]: "locks_held (es @ es') = locks_held es + locks_held es'"
  by (induction es rule: locks_held.induct) auto

text \<open>No event on the pipe or the mutex.\<close>

definition no_logging :: "event list \<Rightarrow> bool" where
  "no_logging es \<longleftrightarrow> pipe_writes es = [] \<and> \<not> write_failed es \<and> locks_held es = 0"

lemma no_logging_append [simp]: "no_logging es \<Longrightarrow> no_logging es' \<Longrightarrow> no_logging (es @ es')"
  by (simp add: no_logging_def)

section \<open>The loops\<close>

text \<open>The mapping of the file has the length that was read from the descriptor.\<close>

definition mapped :: "client_args \<Rightarrow> bool" where
  "mapped c \<longleftrightarrow> length (c_file_to_send c) = c_len_file c"

lemma send_round_consumes:
  "runs any_os (send_round c n) (\<lambda>out es. goes_round out \<longrightarrow> 0 < calls es)"
  unfolding send_round_def by (intro runs_intros) simp_all

interpretation send_loop: loop_body "send_round c" for c
  by unfold_locales (rule send_round_consumes)

lemma closing_round_consumes:
  "runs any_os (closing_round c n) (\<lambda>out es. goes_round out \<longrightarrow> 0 < calls es)"
  unfolding closing_round_def by (intro runs_intros) simp_all

interpretation closing_loop: loop_body "closing_round c" for c
  by unfold_locales (rule closing_round_consumes)

text \<open>After \<open>n\<close> bytes the wire carries the first \<open>n\<close> bytes of the file.\<close>

definition sent_so_far :: "client_args \<Rightarrow> nat \<Rightarrow> event list \<Rightarrow> bool" where
  "sent_so_far c n es \<longleftrightarrow> n \<le> c_len_file c \<and> wire (c_socket c) es = take n (c_file_to_send c) \<and> no_logging es"

definition send_result :: "client_args \<Rightarrow> nat outcome \<Rightarrow> event list \<Rightarrow> bool" where
  "send_result c out es \<longleftrightarrow> prefix (wire (c_socket c) es) (c_file_to_send c) \<and> no_logging es \<and>
     (case out of
        Ret n \<Rightarrow> n = c_len_file c \<and> wire (c_socket c) es = c_file_to_send c
      | Exit n \<Rightarrow> False
      | ThreadExit \<Rightarrow> True
      | Crash m \<Rightarrow> False
      | Blocked \<Rightarrow> True)"

lemma wire_simps [simp]:
  "wire fd [] = []"
  "wire fd (Sys (Net (Send fd' s)) r # es) = (if fd' = fd then take (nat (rv r)) s else []) @ wire fd es"
  "wire fd (Sys (File f) r # es) = wire fd es"
  "wire fd (Sys (Thread t) r # es) = wire fd es"
  "wire fd (Sys (Mem m) r # es) = wire fd es"
  "wire fd (Sys (Proc p) r # es) = wire fd es"
  "wire fd (Log l s' a # es) = wire fd es"
  "wire fd (Eff e # es) = wire fd es"
  by (simp_all add: wire_def)

lemma no_logging_simps [simp]:
  "no_logging []"
  "no_logging (Sys (Net n) r # es) = no_logging es"
  "no_logging (Sys (Mem m) r # es) = no_logging es"
  "no_logging (Sys (Proc p) r # es) = no_logging es"
  "no_logging (Log l s a # es) = no_logging es"
  "no_logging (Eff x # es) = no_logging es"
  by (simp_all add: no_logging_def)

lemma runs_send_loop:
  assumes "mapped c"
  shows "runs posix_os (loop (send_round c) 0) (send_result c)"
proof (rule send_loop.invariant [where I = "sent_so_far c"])
  show "sent_so_far c 0 []" by (simp add: sent_so_far_def)
  fix n es0
  assume I: "sent_so_far c n es0"
  let ?file = "c_file_to_send c"
  have all: "take (c_len_file c) ?file = ?file" using assms by (simp add: mapped_def)
  show "runs posix_os (send_round c n) (round (sent_so_far c) (send_result c) es0)"
    unfolding send_round_def
  proof (intro runs_intros, goal_cases)
    case (4 r)
    then have "take n ?file @ take (nat (rv r)) (take (c_len_file c - n) (drop n ?file)) = take (n + nat (rv r)) ?file"
      using assms by (simp add: mapped_def take_add min_def)
    with 4 I assms show ?case
      by (simp add: sent_so_far_def mapped_def)
  qed (use I all in \<open>auto simp: sent_so_far_def send_result_def take_is_prefix\<close>)
qed

section \<open>The whole thread\<close>

definition silent :: "int \<Rightarrow> event list \<Rightarrow> bool" where
  "silent fd es \<longleftrightarrow> wire fd es = [] \<and> no_logging es"

lemma runs_closing_loop:
  "runs any_os (loop (closing_round c) n)
     (\<lambda>out es. silent (c_socket c) es \<and> (out = ThreadExit \<or> out = Blocked \<or> (\<exists>n. out = Ret n)))"
proof (rule closing_loop.invariant [where I = "\<lambda>_. silent (c_socket c)"])
  fix n es0
  assume "silent (c_socket c) es0"
  then show "runs any_os (closing_round c n) (round (\<lambda>_. silent (c_socket c))
      (\<lambda>out es. silent (c_socket c) es \<and> (out = ThreadExit \<or> out = Blocked \<or> (\<exists>n. out = Ret n))) es0)"
    unfolding closing_round_def by (intro runs_intros) (auto simp: silent_def wire_def)
qed (simp add: silent_def)

lemma runs_date_string:
  "runs any_os date_string
     (\<lambda>out es. silent fd es \<and> (out = Exit 5 \<or> out = Blocked \<or> (\<exists>t. out = Ret (date_text t))))"
  unfolding date_string_def by (intro runs_intros) (auto simp: silent_def wire_def)

text \<open>What the pipe and the mutex have seen when the thread ends.\<close>

definition record_written :: "string \<Rightarrow> unit outcome \<Rightarrow> event list \<Rightarrow> bool" where
  "record_written s out es \<longleftrightarrow>
     prefix (pipe_writes es) [int_bytes (int (length s)), s] \<and>
     (out = Blocked \<or>
      ((out = ThreadExit \<or> (\<exists>u. out = Ret u)) \<and> locks_held es = (if write_failed es then 1 else 0)))"

lemma runs_write_record:
  "runs any_os (write_record s) (\<lambda>out es. wire fd es = [] \<and> record_written s out es)"
  unfolding write_record_def
  by (intro runs_intros) (auto simp: record_written_def wire_def)

definition transfer_logged :: "client_args \<Rightarrow> unit outcome \<Rightarrow> event list \<Rightarrow> bool" where
  "transfer_logged c out es \<longleftrightarrow>
     (\<exists>t. prefix (concat (pipe_writes es)) (frame (cstr (logs_string (date_text t) c)))) \<and>
     (out = Blocked \<or> out = Exit 5 \<or>
      ((out = ThreadExit \<or> (\<exists>u. out = Ret u)) \<and> locks_held es = (if write_failed es then 1 else 0)))"

lemma prefix_frame: "prefix ws [int_bytes (int (length s)), s] \<Longrightarrow> prefix (concat ws) (frame s)"
  by (auto simp: frame_def prefix_Cons)

lemma transfer_logged_none: "no_logging es \<Longrightarrow> out = Blocked \<or> out = Exit 5 \<or> out = ThreadExit \<Longrightarrow> transfer_logged c out es"
  by (auto simp: transfer_logged_def no_logging_def)

lemma transfer_logged_record:
  "record_written (cstr (logs_string (date_text t) c)) out es \<Longrightarrow> no_logging es0 \<Longrightarrow>
   transfer_logged c out (es0 @ es)"
  unfolding transfer_logged_def record_written_def no_logging_def
  by (intro conjI exI [of _ t]) (auto simp: prefix_frame)

lemma runs_log_transfer:
  "runs any_os (log_transfer c) (\<lambda>out es. wire fd es = [] \<and> transfer_logged c out es)"
  unfolding log_transfer_def
proof (rule runs_bind_weaken [OF runs_date_string [of fd]])
  fix out es
  assume date: "silent fd es \<and> (out = Exit 5 \<or> out = Blocked \<or> (\<exists>t. out = Ret (date_text t)))"
  let ?f = "\<lambda>ds. call (Mem (Malloc ''logs_string'' (int (record_size ds c)))) (\<lambda>m.
     if rv m = 0 then say ERROR ''malloc() failed: %s'' [AE (errno m)] pthread_exit
     else eff (Mem (Free ''ds'')) (write_record (cstr (logs_string ds c))))"
  let ?R = "\<lambda>out es. wire fd es = [] \<and> transfer_logged c out es"
  show "after any_os ?f ?R out es"
  proof (cases "\<exists>t. out = Ret (date_text t)")
    case True
    then obtain t where t: "out = Ret (date_text t)" by blast
    have "runs any_os (?f (date_text t)) (\<lambda>out es'. ?R out (es @ es'))"
    proof (intro runs_call runs_if runs_say runs_eff runs_pthread_exit, goal_cases)
      case (3 m)
      show ?case
      proof (rule runs_weaken [OF runs_write_record [of _ fd]])
        fix out es'
        assume "wire fd es' = [] \<and> record_written (cstr (logs_string (date_text t) c)) out es'"
        then show "?R out (es @ Sys (Mem (Malloc ''logs_string'' (int (record_size (date_text t) c)))) m #
            Eff (Mem (Free ''ds'')) # es')"
          using date transfer_logged_record [of t c out es' "es @ [Sys (Mem (Malloc ''logs_string''
            (int (record_size (date_text t) c)))) m, Eff (Mem (Free ''ds''))]"]
          by (simp add: silent_def wire_def)
      qed
    qed (use date in \<open>auto simp: silent_def wire_def intro!: transfer_logged_none\<close>)
    with t show ?thesis by simp
  next
    case False
    with date show ?thesis by (auto simp: silent_def intro: transfer_logged_none)
  qed
qed

definition sender_result :: "client_args \<Rightarrow> unit outcome \<Rightarrow> event list \<Rightarrow> bool" where
  "sender_result c out es \<longleftrightarrow>
     prefix (wire (c_socket c) es) (c_file_to_send c) \<and>
     (pipe_writes es = [] \<or> wire (c_socket c) es = c_file_to_send c) \<and>
     transfer_logged c out es \<and> (\<forall>u. out \<noteq> Ret u)"

lemma sender_result_none:
  "no_logging es \<Longrightarrow> prefix (wire (c_socket c) es) (c_file_to_send c) \<Longrightarrow>
   out = Blocked \<or> out = ThreadExit \<Longrightarrow> sender_result c out es"
  by (auto simp: sender_result_def no_logging_def intro!: transfer_logged_none)

lemma sender_result_logged:
  assumes "no_logging es0" "wire (c_socket c) es0 = c_file_to_send c"
    and "wire (c_socket c) es = []" "transfer_logged c out es"
  shows "after any_os (\<lambda>_. pthread_exit) (\<lambda>out es. sender_result c out (es0 @ es)) out es"
proof -
  have "transfer_logged c out (es0 @ es)"
    using assms(1,4) by (simp add: transfer_logged_def no_logging_def)
  with assms show ?thesis
    by (cases out) (auto simp: sender_result_def transfer_logged_def intro!: runs_pthread_exit)
qed

lemma after_any: "after any_os f R out es \<Longrightarrow> after C f R out es"
  by (cases out) (auto intro: runs_any)

text \<open>From the shutdown on, when the whole file has been sent.\<close>

lemma runs_after_send:
  assumes "no_logging es0" "wire (c_socket c) es0 = c_file_to_send c" "n = c_len_file c"
  shows "runs any_os
     (call (Net (ShutdownWr (c_socket c))) (\<lambda>s.
       if rv s < 0 then say ERROR (''shutdown() failed: %s'' @ [LF]) [AE (errno s)] pthread_exit
       else
         bind (loop (closing_round c) 0) (\<lambda>_.
         if n = c_len_file c then bind (log_transfer c) (\<lambda>_. pthread_exit)
         else pthread_exit)))
     (\<lambda>out es. sender_result c out (es0 @ es))"
proof (intro runs_call runs_if runs_say runs_pthread_exit, goal_cases)
  case (3 s)
  show ?case
  proof (rule runs_bind_weaken [OF runs_closing_loop])
    fix out es
    assume closing: "silent (c_socket c) es \<and> (out = ThreadExit \<or> out = Blocked \<or> (\<exists>n. out = Ret n))"
    let ?es = "es0 @ Sys (Net (ShutdownWr (c_socket c))) s # es"
    have es: "no_logging ?es" "wire (c_socket c) ?es = c_file_to_send c"
      using assms closing by (simp_all add: silent_def wire_def)
    have "runs any_os (bind (log_transfer c) (\<lambda>_. pthread_exit)) (\<lambda>out es'. sender_result c out (?es @ es'))"
      by (rule runs_bind_weaken [OF runs_log_transfer [of c "c_socket c"]])
         (use sender_result_logged [OF es] in blast)
    with closing es show "after any_os (\<lambda>_. if n = c_len_file c then bind (log_transfer c) (\<lambda>_. pthread_exit)
         else pthread_exit) (\<lambda>out es. sender_result c out (es0 @ Sys (Net (ShutdownWr (c_socket c))) s # es)) out es"
      using assms(3) by (auto intro!: sender_result_none)
  qed
qed (use assms in \<open>auto simp: wire_def intro!: sender_result_none\<close>)

lemma runs_thread_sender:
  assumes "mapped c"
  shows "runs posix_os (thread_sender c)
    (\<lambda>out es. sender_result c out es \<or> (out = Exit 1 \<and> silent (c_socket c) es))"
  unfolding thread_sender_def
proof (intro runs_call runs_if runs_say runs_exit, goal_cases)
  case (3 s)
  show ?case
  proof (rule runs_bind_weaken [OF runs_send_loop [OF assms]])
    fix out es
    assume res: "send_result c out es"
    let ?es = "Sys (Proc (IgnoreSignal ''SIGHUP'')) s # es"
    have es: "no_logging ?es" "wire (c_socket c) ?es = wire (c_socket c) es"
      using res by (simp_all add: send_result_def wire_def)
    have rest: "runs posix_os
     (call (Net (ShutdownWr (c_socket c))) (\<lambda>s.
       if rv s < 0 then say ERROR (''shutdown() failed: %s'' @ [LF]) [AE (errno s)] pthread_exit
       else
         bind (loop (closing_round c) 0) (\<lambda>_.
         if n = c_len_file c then bind (log_transfer c) (\<lambda>_. pthread_exit)
         else pthread_exit)))
     (\<lambda>out es'. sender_result c out (?es @ es') \<or> (out = Exit 1 \<and> silent (c_socket c) (?es @ es')))"
      if "out = Ret n" for n
      by (rule runs_any, rule runs_weaken [OF runs_after_send [of ?es c n]])
         (use that res es in \<open>auto simp: send_result_def\<close>)
    show "after posix_os (\<lambda>bytes_sent. call (Net (ShutdownWr (c_socket c))) (\<lambda>s.
       if rv s < 0 then say ERROR (''shutdown() failed: %s'' @ [LF]) [AE (errno s)] pthread_exit
       else
         bind (loop (closing_round c) 0) (\<lambda>_.
         if bytes_sent = c_len_file c then bind (log_transfer c) (\<lambda>_. pthread_exit)
         else pthread_exit)))
      (\<lambda>out es. sender_result c out (Sys (Proc (IgnoreSignal ''SIGHUP'')) s # es) \<or>
         (out = Exit 1 \<and> silent (c_socket c) (Sys (Proc (IgnoreSignal ''SIGHUP'')) s # es))) out es"
      using res es rest by (cases out) (auto simp: send_result_def intro!: sender_result_none)
  qed
qed (auto simp: silent_def wire_def intro!: sender_result_none)

section \<open>Properties\<close>

text \<open>
  C4: whatever the client and the network do, the bytes on the wire are a prefix of the file, and
  nothing goes to the log pipe before the whole file has been sent; what goes there is a
  prefix of one frame, the record of this transfer. The thread never returns from its function:
  it ends, or the process exits with code 1 or 5.
\<close>

theorem sender_sends_the_file_then_logs:
  assumes "mapped c"
  shows "runs posix_os (thread_sender c) (\<lambda>out es.
     prefix (wire (c_socket c) es) (c_file_to_send c) \<and>
     (pipe_writes es = [] \<or> wire (c_socket c) es = c_file_to_send c) \<and>
     (\<exists>t. prefix (concat (pipe_writes es)) (frame (cstr (logs_string (date_text t) c)))) \<and>
     (out = ThreadExit \<or> out = Exit 1 \<or> out = Exit 5 \<or> out = Blocked))"
  by (rule runs_weaken [OF runs_thread_sender [OF assms]])
     (auto simp: sender_result_def transfer_logged_def silent_def no_logging_def)

theorem sender_sends_the_file_then_logs_witness:
  "mapped (example_client\<lparr>c_file_to_send := ''abc'', c_len_file := 3\<rparr>) \<and>
   runs posix_os (thread_sender (example_client\<lparr>c_file_to_send := ''abc'', c_len_file := 3\<rparr>))
     (\<lambda>out es. prefix (wire 4 es) ''abc'')"
proof -
  let ?c = "example_client\<lparr>c_file_to_send := ''abc'', c_len_file := 3\<rparr>"
  have c: "mapped ?c" "c_socket ?c = 4" "c_file_to_send ?c = ''abc''"
    by (simp_all add: mapped_def example_client_def)
  have "runs posix_os (thread_sender ?c) (\<lambda>out es. prefix (wire 4 es) ''abc'')"
    by (rule runs_weaken [OF sender_sends_the_file_then_logs [OF c(1)]]) (simp add: c)
  with c(1) show ?thesis by blast
qed

text \<open>
  The thread leaves the mutex of the log as it found it, unless a \<^verbatim>\<open>write\<close> to the pipe or the
  unlock fails: then it ends with the mutex locked, and no other sender and not even the logger
  can take it again.
\<close>

theorem sender_unlocks_unless_a_write_fails:
  assumes "mapped c"
  shows "runs posix_os (thread_sender c) (\<lambda>out es.
     out = ThreadExit \<longrightarrow> locks_held es = (if write_failed es then 1 else 0))"
  by (rule runs_weaken [OF runs_thread_sender [OF assms]])
     (auto simp: sender_result_def transfer_logged_def)

theorem sender_unlocks_unless_a_write_fails_witness:
  "mapped example_client \<and> runs posix_os (thread_sender example_client) (\<lambda>out es.
     out = Exit 1 \<or> out = Exit 5 \<or> out = Blocked \<or> locks_held es = (if write_failed es then 1 else 0))"
proof -
  have m: "mapped example_client" by (simp add: mapped_def example_client_def)
  have "runs posix_os (thread_sender example_client) (\<lambda>out es.
     out = Exit 1 \<or> out = Exit 5 \<or> out = Blocked \<or> locks_held es = (if write_failed es then 1 else 0))"
    by (rule runs_weaken [OF runs_conj [OF sender_unlocks_unless_a_write_fails [OF m] runs_thread_sender [OF m]]])
       (auto simp: sender_result_def transfer_logged_def)
  with m show ?thesis by blast
qed

end
