(* ===== verification/File_Load.thy ===== *)
theory File_Load
  imports Sender
begin

text \<open>
  Loading a file and sending it (\<^verbatim>\<open>load_file_memory_and_send\<close> in utility.c, Linux build): open,
  lock, size, map, unlock, close, then the sender in a thread that is joined. The order of
  these calls is a state machine over the events (\<open>fd_step\<close>); the lemmas show that every run
  is accepted by it and in which state each outcome leaves the descriptor.
\<close>

section \<open>The code\<close>

definition fcntl_failed :: string where
  "fcntl_failed = ''fcntl() failed on %s request, becouse: %s'' @ [LF]"

text \<open>The two error paths with the lock: release it, close, return 0.\<close>

definition give_up :: "int \<Rightarrow> client_args \<Rightarrow> (bool \<times> client_args) prog" where
  "give_up fd c =
     call (File (OfdUnlock fd)) (\<lambda>r.
     say_if (rv r = - 1) ERROR fcntl_failed [AS (c_addr c), AE (errno r)]
     (eff (File (CloseFd fd)) (ret (False, c))))"

text \<open>The mapping is there: unlock, close, and run the sender.\<close>

definition send_mapped :: "int \<Rightarrow> client_args \<Rightarrow> (bool \<times> client_args) prog" where
  "send_mapped fd c =
     call (File (OfdUnlock fd)) (\<lambda>r.
     if rv r = - 1 then say ERROR ''fcntl failed becouse: %s'' [AE (errno r)] (exit 1)
     else
       call (File (CloseFd fd)) (\<lambda>r.
       if rv r = - 1 then say ERROR ''close failed becouse: %s'' [AE (errno r)] (exit 1)
       else
         call (Thread (ThreadCreate ''thread_sender'' c)) (\<lambda>r.
         if rv r \<noteq> 0 then say ERROR ''pthread_create failed'' [] (exit 1)
         else
           in_thread (thread_sender c)
           (call (Thread ThreadJoin) (\<lambda>r.
            if rv r \<noteq> 0 then say ERROR ''pthread_create failed'' [] (exit 1)
            else
              call (File (Munmap (int (c_len_file c)))) (\<lambda>r.
              if rv r = - 1 then say ERROR ''close failed becouse: %s'' [AE (errno r)] (exit 1)
              else ret (True, c)))))))"

definition load_file_memory_and_send :: "client_args \<Rightarrow> (bool \<times> client_args) prog" where
  "load_file_memory_and_send c =
     call (File (OpenRdwr (cstr (c_path_file c)))) (\<lambda>r.
     if rv r < 0 then say ERROR (''open() failed: %s'' @ [LF]) [AE (errno r)] (ret (False, c))
     else
       let fd = rv r in
       call (File (OfdLockWait fd)) (\<lambda>r.
       if rv r = - 1 then say ERROR fcntl_failed [AS (c_addr c), AE (errno r)] (ret (False, c))
       else
         call (File (Fstat fd)) (\<lambda>stat_fd.
         if rv stat_fd = - 1 then
           say ERROR (''fstat() failed on %s request, becouse: %s'' @ [LF]) [AS (c_addr c), AE (errno stat_fd)]
           (give_up fd c)
         else
           let c = c\<lparr>c_len_file := nat (num stat_fd)\<rparr> in
           call (File (Mmap fd (int (c_len_file c)))) (\<lambda>m.
           if rv m = - 1 then
             say ERROR (''mmap() failed on %s request, becouse: %s'' @ [LF]) [AS (c_addr c), AE (errno m)]
             (give_up fd c)
           else send_mapped fd (c\<lparr>c_file_to_send := payload m\<rparr>)))))"

section \<open>The life of the descriptor\<close>

datatype fd_state = NoFile | Opened int | Locked int | Unlocked int | Closed

text \<open>
  Which event is allowed in which state: the size and the content are read under the lock, a
  descriptor is not used after it is closed, nothing is sent and nothing goes to the log
  while it is open. \<open>None\<close> is a violation.
\<close>

fun fd_step :: "event \<Rightarrow> fd_state \<Rightarrow> fd_state option" where
  "fd_step (Sys (File (OpenRdwr p)) r) st =
     (if st = NoFile then Some (if rv r < 0 then NoFile else Opened (rv r)) else None)"
| "fd_step (Sys (File (OfdLockWait fd)) r) st =
     (if st = Opened fd then Some (if rv r = - 1 then Opened fd else Locked fd) else None)"
| "fd_step (Sys (File (Fstat fd)) r) st = (if st = Locked fd then Some st else None)"
| "fd_step (Sys (File (Mmap fd n)) r) st = (if st = Locked fd then Some st else None)"
| "fd_step (Sys (File (OfdUnlock fd)) r) st =
     (if st = Locked fd then Some (if rv r = - 1 then Locked fd else Unlocked fd) else None)"
| "fd_step (Sys (File (CloseFd fd)) r) st =
     (if st = Unlocked fd then Some (if rv r = - 1 then Unlocked fd else Closed) else None)"
| "fd_step (Eff (File (CloseFd fd))) st =
     (if st = Unlocked fd \<or> st = Locked fd then Some Closed else None)"
| "fd_step (Sys (Net n) r) st = (if st = Closed then Some st else None)"
| "fd_step (Sys (File (PipeWrite s)) r) st = (if st = Closed then Some st else None)"
| "fd_step e st = Some st"

fun fd_run :: "event list \<Rightarrow> fd_state \<Rightarrow> fd_state option" where
  "fd_run [] st = Some st"
| "fd_run (e # es) st = Option.bind (fd_step e st) (fd_run es)"

lemma fd_run_append [simp]: "fd_run (es @ es') st = Option.bind (fd_run es st) (fd_run es')"
  by (induction es arbitrary: st) (auto split: Option.bind_splits)

text \<open>The events of the sender are allowed once the descriptor is closed.\<close>

fun sender_event :: "client_args \<Rightarrow> event \<Rightarrow> bool" where
  "sender_event c (Sys (Net (Send fd s)) r) = (fd = c_socket c)"
| "sender_event c (Sys (Net (Recv fd n fl)) r) = (fd = c_socket c \<and> fl = WaitAll)"
| "sender_event c (Sys (Net (ShutdownWr fd)) r) = (fd = c_socket c)"
| "sender_event c (Sys (File (PipeWrite s)) r) = True"
| "sender_event c (Sys (Mem m) r) = True"
| "sender_event c (Sys (Thread (ThreadCreate n c')) r) = False"
| "sender_event c (Sys (Thread t) r) = True"
| "sender_event c (Sys (Proc (IgnoreSignal s)) r) = True"
| "sender_event c (Sys (Proc Localtime) r) = True"
| "sender_event c (Eff (Mem m)) = True"
| "sender_event c (Eff (Thread t)) = True"
| "sender_event c (Log l s a) = True"
| "sender_event c e = False"

lemma only_thread_sender: "only (sender_event c) (thread_sender c)"
  unfolding thread_sender_def send_round_def closing_round_def log_transfer_def write_record_def date_string_def
  by (intro only_intros send_loop.only_loop [unfolded send_round_def] closing_loop.only_loop [unfolded closing_round_def])
     simp_all

lemma sender_event_closed: "sender_event c e \<Longrightarrow> fd_step e Closed = Some Closed"
  by (cases "(c, e)" rule: sender_event.cases) auto

lemma fd_run_sender: "\<forall>e \<in> set es. sender_event c e \<Longrightarrow> fd_run es Closed = Some Closed"
  by (induction es) (auto simp: sender_event_closed)

section \<open>Every run is allowed\<close>

text \<open>What is on the wire and in the log pipe comes from the mapping of the file.\<close>

definition from_mapping :: "int \<Rightarrow> event list \<Rightarrow> bool" where
  "from_mapping fd es \<longleftrightarrow> (wire fd es = [] \<and> pipe_writes es = []) \<or>
     (\<exists>f n m. Sys (File (Mmap f n)) m \<in> set es \<and> prefix (wire fd es) (payload m) \<and>
        (pipe_writes es = [] \<or> wire fd es = payload m))"

definition load_result :: "client_args \<Rightarrow> (bool \<times> client_args) outcome \<Rightarrow> event list \<Rightarrow> bool" where
  "load_result c out es \<longleftrightarrow> from_mapping (c_socket c) es \<and>
     (\<exists>st. fd_run es NoFile = Some st \<and>
       (case out of
          Ret (ok, c') \<Rightarrow> (if ok then st = Closed else st = NoFile \<or> st = Closed \<or> (\<exists>fd. st = Opened fd)) \<and>
            c_settings c' = c_settings c \<and> c_socket c' = c_socket c
        | Exit n \<Rightarrow> n = 1 \<or> n = 5
        | ThreadExit \<Rightarrow> False
        | Crash m \<Rightarrow> False
        | Blocked \<Rightarrow> True))"

lemma from_mapping_quiet: "wire fd es = [] \<Longrightarrow> pipe_writes es = [] \<Longrightarrow> from_mapping fd es"
  by (simp add: from_mapping_def)

lemma from_mapping_append:
  "from_mapping fd es \<Longrightarrow> wire fd es' = [] \<Longrightarrow> pipe_writes es' = [] \<Longrightarrow> from_mapping fd (es @ es')"
  unfolding from_mapping_def by (elim disjE exE) auto

lemma runs_give_up:
  assumes "fd_run es0 NoFile = Some (Locked fd)" "wire (c_socket c) es0 = []" "pipe_writes es0 = []"
    and "c_settings c' = c_settings c" "c_socket c' = c_socket c"
  shows "runs any_os (give_up fd c') (\<lambda>out es. load_result c out (es0 @ es))"
  unfolding give_up_def
  by (intro runs_intros) (use assms in \<open>auto simp: load_result_def wire_def intro!: from_mapping_quiet\<close>)

lemma mapped_new: "rv m \<noteq> - 1 \<Longrightarrow> posix_os (File (Mmap fd (int n))) m \<Longrightarrow>
    mapped (c\<lparr>c_len_file := n, c_file_to_send := payload m\<rparr>)"
  by (simp add: mapped_def)

lemma runs_send_mapped:
  assumes "fd_run es0 NoFile = Some (Locked fd)" "wire (c_socket c) es0 = []" "pipe_writes es0 = []"
    and c': "c_settings c' = c_settings c" "c_socket c' = c_socket c" "mapped c'"
    and m: "Sys (File (Mmap f n)) m \<in> set es0" "c_file_to_send c' = payload m"
  shows "runs posix_os (send_mapped fd c') (\<lambda>out es. load_result c out (es0 @ es))"
  unfolding send_mapped_def
proof (intro runs_call runs_if runs_say runs_exit, goal_cases)
  case (7 r1 r2 r3)
  let ?es = "es0 @ [Sys (File (OfdUnlock fd)) r1, Sys (File (CloseFd fd)) r2,
    Sys (Thread (ThreadCreate ''thread_sender'' c')) r3]"
  have before: "fd_run ?es NoFile = Some Closed" "wire (c_socket c) ?es = []" "pipe_writes ?es = []"
    using assms 7 by (simp_all add: wire_def)
  have thread: "runs posix_os (thread_sender c') (\<lambda>out es.
      (sender_result c' out es \<or> (out = Exit 1 \<and> silent (c_socket c') es)) \<and> (\<forall>e \<in> set es. sender_event c' e))"
    by (rule runs_only [OF runs_thread_sender only_thread_sender]) (rule c'(3))
  show ?case
  proof (rule runs_in_thread, rule runs_weaken [OF thread], goal_cases)
    case (1 out es)
    then have "fd_run es Closed = Some Closed"
      using fd_run_sender [of es c'] by simp
    then have es: "fd_run (?es @ es) NoFile = Some Closed"
      by (simp only: fd_run_append [of ?es es] before(1) Option.bind.simps)
    have on: "fd_run ((?es @ es) @ es') NoFile = fd_run es' Closed" for es'
      by (simp only: fd_run_append [of "?es @ es" es'] es Option.bind.simps)
    have wire: "wire (c_socket c) (?es @ es) = wire (c_socket c') es" "pipe_writes (?es @ es) = pipe_writes es"
      using before c' by (simp_all add: wire_def)
    have "from_mapping (c_socket c) (?es @ es)"
    proof (cases "out = Exit 1 \<and> silent (c_socket c') es")
      case True
      then show ?thesis using wire by (simp add: from_mapping_def silent_def no_logging_def)
    next
      case False
      with 1 have "prefix (wire (c_socket c') es) (payload m)"
        "pipe_writes es = [] \<or> wire (c_socket c') es = payload m"
        using m(2) by (auto simp: sender_result_def)
      then show ?thesis
        using m(1) wire unfolding from_mapping_def by (intro disjI2 exI [of _ f] exI [of _ n] exI [of _ m]) auto
    qed
    note mapping = this
    have later: "from_mapping (c_socket c) ((?es @ es) @ es')" if "wire (c_socket c) es' = []" "pipe_writes es' = []" for es'
      using mapping that by (rule from_mapping_append)
    from 1 have "out = ThreadExit \<or> out = Exit 1 \<or> out = Exit 5 \<or> out = Blocked"
      by (auto simp: sender_result_def transfer_logged_def)
    then show ?case
      using es on mapping later c'
      by (auto simp: load_result_def wire_def intro!: runs_intros)
  qed
qed (use assms in \<open>auto simp: load_result_def wire_def intro!: from_mapping_quiet\<close>)

lemma runs_load_file:
  "runs posix_os (load_file_memory_and_send c) (load_result c)"
  unfolding load_file_memory_and_send_def Let_def
proof (intro runs_call runs_if runs_say runs_ret, goal_cases)
  case (6 op lk st)
  show ?case
    by (rule runs_any, rule runs_weaken [OF runs_give_up [of "[Sys (File (OpenRdwr (cstr (c_path_file c)))) op,
        Sys (File (OfdLockWait (rv op))) lk, Sys (File (Fstat (rv op))) st,
        Log ERROR (''fstat() failed on %s request, becouse: %s'' @ [LF]) [AS (c_addr c), AE (errno st)]]" _ c c]])
       (use 6 in simp_all)
next
  case (8 op lk st m)
  let ?c = "c\<lparr>c_len_file := nat (num st)\<rparr>"
  show ?case
    by (rule runs_any, rule runs_weaken [OF runs_give_up [of "[Sys (File (OpenRdwr (cstr (c_path_file c)))) op,
        Sys (File (OfdLockWait (rv op))) lk, Sys (File (Fstat (rv op))) st,
        Sys (File (Mmap (rv op) (int (c_len_file ?c)))) m,
        Log ERROR (''mmap() failed on %s request, becouse: %s'' @ [LF]) [AS (c_addr ?c), AE (errno m)]]" _ c ?c]])
       (use 8 in simp_all)
next
  case (9 op lk st m)
  let ?c = "c\<lparr>c_len_file := nat (num st)\<rparr>"
  have "mapped (?c\<lparr>c_file_to_send := payload m\<rparr>)"
    using mapped_new [of m "rv op" "nat (num st)" c] 9 by simp
  then show ?case
    by (intro runs_weaken [OF runs_send_mapped [of "[Sys (File (OpenRdwr (cstr (c_path_file c)))) op,
        Sys (File (OfdLockWait (rv op))) lk, Sys (File (Fstat (rv op))) st,
        Sys (File (Mmap (rv op) (int (c_len_file ?c)))) m]" _ c "?c\<lparr>c_file_to_send := payload m\<rparr>"
        "rv op" "int (c_len_file ?c)" m]])
       (use 9 in simp_all)
qed (auto simp: load_result_def intro!: from_mapping_quiet)

text \<open>Which events the function makes: the only file it opens is the path of the client.\<close>

fun load_event :: "client_args \<Rightarrow> event \<Rightarrow> bool" where
  "load_event c (Sys (File (OpenRdwr p)) r) = (p = cstr (c_path_file c))"
| "load_event c (Sys (File (OfdLockWait fd)) r) = True"
| "load_event c (Sys (File (OfdUnlock fd)) r) = True"
| "load_event c (Sys (File (Fstat fd)) r) = True"
| "load_event c (Sys (File (Mmap fd n)) r) = True"
| "load_event c (Sys (File (Munmap n)) r) = True"
| "load_event c (Sys (File (CloseFd fd)) r) = True"
| "load_event c (Sys (Thread (ThreadCreate n c')) r) = (n = ''thread_sender'' \<and> c_settings c' = c_settings c)"
| "load_event c (Eff (File (CloseFd fd))) = True"
| "load_event c e = sender_event c e"

lemma sender_event_load: "sender_event c' e \<Longrightarrow> c_socket c' = c_socket c \<Longrightarrow> load_event c e"
  by (cases "(c', e)" rule: sender_event.cases) auto

lemma only_load_file: "only (load_event c) (load_file_memory_and_send c)"
  unfolding load_file_memory_and_send_def send_mapped_def give_up_def Let_def
  by (intro only_intros only_weaken [OF only_thread_sender]; (erule sender_event_load)?; simp)

section \<open>Properties\<close>

text \<open>
  C18: the order of the calls around a file: its size and its bytes are read only under the
  exclusive lock, the lock is released and the descriptor closed before the first byte is
  sent, and no descriptor is used after it is closed. When the function reports success the
  descriptor is closed; when it reports failure nothing was opened, or it is closed, or (only
  when the lock was refused) it is still open.
\<close>

theorem file_closed_before_sending:
  "runs posix_os (load_file_memory_and_send c) (\<lambda>out es.
     \<exists>st. fd_run es NoFile = Some st \<and>
       (case out of
          Ret (ok, c') \<Rightarrow> (if ok then st = Closed else st \<in> {NoFile, Closed} \<or> (\<exists>fd. st = Opened fd))
        | Exit n \<Rightarrow> n \<in> {1, 5}
        | ThreadExit \<Rightarrow> False
        | Crash m \<Rightarrow> False
        | Blocked \<Rightarrow> True))"
  by (rule runs_weaken [OF runs_load_file])
     (auto simp: load_result_def split: outcome.splits if_splits)

text \<open>
  The client gets only bytes of the mapped file, from its start and in order, and a record is
  written to the log pipe only when the client's socket has taken all of them.
\<close>

theorem client_gets_the_mapped_file:
  "runs posix_os (load_file_memory_and_send c) (\<lambda>out es.
     (wire (c_socket c) es = [] \<and> pipe_writes es = []) \<or>
     (\<exists>f n m. Sys (File (Mmap f n)) m \<in> set es \<and> prefix (wire (c_socket c) es) (payload m) \<and>
        (pipe_writes es = [] \<or> wire (c_socket c) es = payload m)))"
  by (rule runs_weaken [OF runs_load_file]) (auto simp: load_result_def from_mapping_def)

text \<open>
  A file of length 0 is never sent: mapping 0 bytes fails (POSIX \<^verbatim>\<open>mmap\<close>, EINVAL), and the
  function gives up without a byte on the wire and without a record.
\<close>

theorem empty_file_is_not_sent:
  assumes "\<And>h fd. rv (os h (File (Mmap fd 0))) = - 1"
    and "\<And>h fd. num (os h (File (Fstat fd))) = 0" "\<And>h fd. rv (os h (File (Fstat fd))) = 0"
    and "\<And>h p. 0 \<le> rv (os h (File (OpenRdwr p)))" "\<And>h fd. rv (os h (File (OfdLockWait fd))) = 0"
    and "5 \<le> budget w" "trace w = []"
  shows "fst (load_file_memory_and_send c os w) = Ret (False, c\<lparr>c_len_file := 0\<rparr>) \<and>
    sends (trace (snd (load_file_memory_and_send c os w))) = [] \<and>
    pipe_writes (trace (snd (load_file_memory_and_send c os w))) = []"
proof -
  from assms(6) obtain k where "budget w = 5 + k"
    using le_Suc_ex by blast
  then have n: "budget w = Suc (Suc (Suc (Suc (Suc k))))" by simp
  have "\<not> rv (os h (File (OpenRdwr p))) < 0" for h p
    using assms(4) [of h p] by simp
  with assms n show ?thesis
    by (simp add: load_file_memory_and_send_def give_up_def run_defs)
qed

theorem empty_file_is_not_sent_witness:
  "sends (trace (snd (load_file_memory_and_send example_client
     (\<lambda>h c. plain_reply (case c of File (Mmap fd n) \<Rightarrow> - 1 | _ \<Rightarrow> 0)) \<lparr>trace = [], budget = 5\<rparr>))) = []"
proof -
  let ?os = "\<lambda>h c. plain_reply (case c of File (Mmap fd n) \<Rightarrow> - 1 | _ \<Rightarrow> 0)"
  have "fst (load_file_memory_and_send example_client ?os \<lparr>trace = [], budget = 5\<rparr>)
      = Ret (False, example_client\<lparr>c_len_file := 0\<rparr>) \<and>
    sends (trace (snd (load_file_memory_and_send example_client ?os \<lparr>trace = [], budget = 5\<rparr>))) = [] \<and>
    pipe_writes (trace (snd (load_file_memory_and_send example_client ?os \<lparr>trace = [], budget = 5\<rparr>))) = []"
    by (rule empty_file_is_not_sent) (simp_all add: plain_reply_def)
  then show ?thesis by blast
qed

end
