(* ===== verification/Request.thy ===== *)
theory Request
  imports Menu File_Load
begin

text \<open>
  One request (children.c): \<^verbatim>\<open>read_request\<close> collects bytes until CR LF, \<^verbatim>\<open>management_function\<close>
  builds the path, guards it, and answers with a menu, a file or an error line. The lemmas show
  that the selector depends only on the bytes received and not on how they arrived, that the
  length test never fails, and that the handler opens nothing but the guarded path (and lists
  its entries).
\<close>

section \<open>Reading the request\<close>

definition EWOULDBLOCK :: int where "EWOULDBLOCK = 11"

text \<open>The loop that looks for CR LF from \<^verbatim>\<open>read_bytes\<close> to \<^verbatim>\<open>total_recv\<close>, and cuts the text there.\<close>

function scan :: "nat \<Rightarrow> nat \<Rightarrow> string \<Rightarrow> bool \<times> nat \<times> string" where
  "scan read_bytes total_recv buf =
     (if read_bytes < total_recv then
        (if read_bytes > 0 \<and> buf ! (read_bytes - 1) = CR \<and> buf ! read_bytes = LF
         then (True, read_bytes, buf[read_bytes - 1 := NUL])
         else scan (read_bytes + 1) total_recv buf)
      else (False, read_bytes, buf))"
  by auto
termination
  by (relation "measure (\<lambda>(i, n, b). n - i)") auto

declare scan.simps [simp del]

text \<open>
  The state is \<^verbatim>\<open>total_recv\<close>, \<^verbatim>\<open>read_bytes\<close> and the buffer; the result is \<open>None\<close> for \<^verbatim>\<open>return -1\<close>.
\<close>

definition read_round :: "int \<Rightarrow> nat \<Rightarrow> nat \<times> nat \<times> string \<Rightarrow>
    ((nat \<times> nat \<times> string) + (nat \<times> string) option) prog" where
  "read_round sd buflen s =
     (let (total_recv, read_bytes, buf) = s in
      if read_bytes \<ge> buflen then
        say ERROR ''sd - %d, failed because of wrong input. Closing the connection'' [AI sd] (ret (Inr None))
      else
        call (Net (Recv sd (buflen - read_bytes) DontWait)) (\<lambda>check.
        if rv check > 0 then
          let buf = take read_bytes buf @ payload check @ drop (read_bytes + length (payload check)) buf;
              total_recv = total_recv + nat (rv check);
              (found, read_bytes, buf) = scan read_bytes total_recv buf in
          if found then ret (Inr (Some (read_bytes, buf)))
          else ret (Inl (total_recv, read_bytes, buf))
        else if rv check = 0 then
          say DEBUG ''Connection closed %lld'' [AI sd] (ret (Inr None))
        else if errno check \<noteq> EWOULDBLOCK then
          say ERROR ''recv() of sd - %d, failed with error: %s. Closing the connection.''
            [AI sd, AE (errno check)] (ret (Inr None))
        else ret (Inl (total_recv, read_bytes, buf))))"

text \<open>
  The buffer is shrunk with \<^verbatim>\<open>realloc\<close>, whose result only the callee sees. \<open>num\<close> of the reply
  says whether the block was moved: then the caller is left with a dangling pointer.
\<close>

definition read_request :: "int \<Rightarrow> string \<Rightarrow> nat \<Rightarrow> (nat \<times> string \<times> bool) option prog" where
  "read_request sd buf buflen =
     bind (loop (read_round sd buflen) (0, 0, buf)) (\<lambda>res.
     case res of
       None \<Rightarrow> ret None
     | Some (read_bytes, buf) \<Rightarrow>
         call (Mem (Realloc ''buf'' read_bytes)) (\<lambda>m.
         if rv m = 0 then
           say ERROR ''read_request(): realloc failed with error: %s. Closing connection.'' [AE (errno m)]
           (ret None)
         else ret (Some (read_bytes, take read_bytes buf, num m \<noteq> 0))))"

section \<open>The handler\<close>

definition free_client_args :: "'a prog \<Rightarrow> 'a prog" where
  "free_client_args p = eff (Mem (Free ''path_file'')) (eff (Mem (Free ''c'')) p)"

definition close_socket :: "int \<Rightarrow> 'a prog \<Rightarrow> 'a prog" where
  "close_socket sd p = eff (File (CloseFd sd)) (say DEBUG ''Closed socket %lld'' [AI sd] p)"

definition kill_thread :: "int \<Rightarrow> 'a prog" where
  "kill_thread errcode = pthread_exit"

definition close_socket_kill_child :: "client_args \<Rightarrow> int \<Rightarrow> 'a prog" where
  "close_socket_kill_child c errcode =
     (let m = mode (c_settings c); s = c_socket c in
      free_client_args
        (if m = CHR ''t'' then close_socket s (kill_thread errcode) else exit errcode))"

text \<open>The error line; \<^verbatim>\<open>char temp[strlen(input) + 8]\<close>.\<close>

definition error_text :: "string \<Rightarrow> string option" where
  "error_text input =
     (let temp = ''3'' @ [TAB] @ input @ [CR, LF] @ ''.'' @ [CR, LF]
      in if length temp + 1 \<le> length input + 8 then Some temp else None)"

text \<open>The answer, by the type of the path; \<open>before\<close> is the byte before \<^verbatim>\<open>input\<close>.\<close>

definition answer :: "char \<Rightarrow> client_args \<Rightarrow> string \<Rightarrow> char \<Rightarrow> unit prog" where
  "answer before c input type =
     (if type = CHR ''1'' then send_content_of_dir before c input
      else if type = CHR ''3'' then
        case error_text input of
          None \<Rightarrow> crash ''write past the end of temp''
        | Some temp \<Rightarrow>
            call (Net (Send (c_socket c) temp)) (\<lambda>check.
            say_if (rv check < 0) ERROR ''failed send ERROR message to %s because: %s''
              [AS (c_addr c), AE (errno check)] (ret ()))
      else
        bind (load_file_memory_and_send c) (\<lambda>_. say DEBUG (''finito invio '' @ [LF]) [] (ret ())))"

text \<open>The part after the request has been read: build the path, guard it, answer.\<close>

definition serve :: "char \<Rightarrow> client_args \<Rightarrow> string \<Rightarrow> unit prog" where
  "serve before c input =
     say DEBUG (''RECEIVED: \"%s\" at addr %p'' @ [LF]) [AS input]
     (call (Mem (Malloc ''path_file'' (int PATH_MAX))) (\<lambda>m.
      if rv m = 0 then say ERROR ''calloc of c->path_file failed with error: %s'' [AE (errno m)] (exit 1)
      else
        let path_file = home (c_settings c);
            len_check = length path_file + length input in
        if len_check \<ge> PATH_MAX then
          say ERROR ''Exceeded PATH_MAX length: requested path is %d chars long'' [AI (int len_check)]
          (close_socket_kill_child c 0)
        else
          let c = c\<lparr>c_path_file := path_file @ input\<rparr> in
          say DEBUG ''PATH+SELECTOR %d bytes: %s'' [AI (int (length (c_path_file c))), AS (c_path_file c)]
          (if check_security_path (c_path_file c) then
             say WARNING (''Path traversal detected in client'' @ [QUOTE] @ ''s request: %s'') [AS (c_path_file c)]
             (eff (Mem (Free ''input'')) (close_socket_kill_child c 0))
           else
             bind (type_path (c_path_file c)) (\<lambda>type.
             bind (answer before c input type) (\<lambda>_.
             eff (Mem (Free ''input'')) (close_socket_kill_child c 0))))))"

definition byte_before :: "reply \<Rightarrow> char" where
  "byte_before m = (case payload m of [] \<Rightarrow> NUL | b # bs \<Rightarrow> b)"

definition management_function :: "client_args \<Rightarrow> unit prog" where
  "management_function c =
     (let size = MAX_REQUEST_LEN - length (home (c_settings c)) in
      call (Mem (Malloc ''input'' (int size))) (\<lambda>m.
      if rv m = 0 then say ERROR ''calloc of input failed with error: %s'' [AE (errno m)] (exit 1)
      else
        bind (read_request (c_socket c) (replicate size NUL) size) (\<lambda>check.
        case check of
          None \<Rightarrow> close_socket_kill_child c 0
        | Some (n, input, moved) \<Rightarrow>
            if moved then crash ''input used after realloc moved it''
            else serve (byte_before m) c (cstr input))))"

section \<open>What a request is\<close>

text \<open>The text before the first CR LF.\<close>

fun cut :: "string \<Rightarrow> string option" where
  "cut [] = None"
| "cut (c # cs) =
     (if c = CR \<and> cs \<noteq> [] \<and> hd cs = LF then Some [] else map_option (Cons c) (cut cs))"

fun received :: "event list \<Rightarrow> string" where
  "received (Sys (Net (Recv fd n DontWait)) r # es) = (if 0 < rv r then payload r else []) @ received es"
| "received (e # es) = received es"
| "received [] = []"

text \<open>The two builds receive with different flags; what is proved of the loop holds for both.\<close>

fun heard :: "recv_flag \<Rightarrow> event list \<Rightarrow> string" where
  "heard fl (Sys (Net (Recv fd n f)) r # es) = (if f = fl \<and> 0 < rv r then payload r else []) @ heard fl es"
| "heard fl (e # es) = heard fl es"
| "heard fl [] = []"

lemma heard_append [simp]: "heard fl (es @ es') = heard fl es @ heard fl es'"
  by (induction fl es rule: heard.induct) auto

lemma received_heard: "received es = heard DontWait es"
  by (induction es rule: received.induct) auto

lemma received_append [simp]: "received (es @ es') = received es @ received es'"
  by (induction es rule: received.induct) auto

lemma cut_more: "cut s = Some t \<Longrightarrow> cut (s @ u) = Some t"
proof (induction s arbitrary: t)
  case (Cons d s)
  then show ?case by (cases s) (auto split: if_splits)
qed simp

lemma cut_Some: "cut s = Some t \<Longrightarrow> \<exists>u. s = t @ CR # LF # u"
  by (induction s arbitrary: t) (auto split: if_splits simp: neq_Nil_conv)

lemma cut_snoc:
  "cut s = None \<Longrightarrow> cut (s @ [c]) = (if s \<noteq> [] \<and> last s = CR \<and> c = LF then Some (butlast s) else None)"
proof (induction s)
  case (Cons d s)
  then show ?case by (cases s) (auto split: if_splits)
qed simp

text \<open>The loop finds the first CR LF of all the bytes, when there is none in those already seen.\<close>

lemma scan_spec:
  assumes "i \<le> n" "n \<le> length buf" "cut (take i buf) = None"
  shows "scan i n buf =
    (case cut (take n buf) of
       None \<Rightarrow> (False, n, buf)
     | Some t \<Rightarrow> (True, Suc (length t), buf[length t := NUL]))"
  using assms
proof (induction i n buf rule: scan.induct)
  case (1 i n buf)
  show ?case
  proof (cases "i < n")
    case False
    with "1.prems" show ?thesis by (simp add: scan.simps)
  next
    case True
    have next_take: "take (Suc i) buf = take i buf @ [buf ! i]"
      using True "1.prems"(2) by (simp add: take_Suc_conv_app_nth)
    have rest: "take n buf = take (Suc i) buf @ take (n - Suc i) (drop (Suc i) buf)"
      using True by (simp flip: take_add)
    have last: "0 < i \<Longrightarrow> last (take i buf) = buf ! (i - 1)"
      using True "1.prems"(2) by (subst last_conv_nth) auto
    show ?thesis
    proof (cases "i > 0 \<and> buf ! (i - 1) = CR \<and> buf ! i = LF")
      case found: True
      have "cut (take (Suc i) buf) = Some (butlast (take i buf))"
        unfolding next_take using found True "1.prems" last by (subst cut_snoc) auto
      then have "cut (take n buf) = Some (butlast (take i buf))"
        unfolding rest by (rule cut_more)
      moreover have "length (butlast (take i buf)) = i - 1"
        using True "1.prems"(2) by simp
      ultimately show ?thesis
        using found True by (subst scan.simps) simp
    next
      case False
      have "cut (take (Suc i) buf) = None"
        unfolding next_take using False last "1.prems"(3) by (subst cut_snoc) auto
      with "1.IH" [OF True False] True "1.prems" False show ?thesis
        by (subst scan.simps) auto
    qed
  qed
qed

definition read_state :: "recv_flag \<Rightarrow> nat \<Rightarrow> nat \<times> nat \<times> string \<Rightarrow> event list \<Rightarrow> bool" where
  "read_state fl buflen s es \<longleftrightarrow>
     (let (n, i, buf) = s in n = i \<and> i \<le> buflen \<and> length buf = buflen \<and> take i buf = heard fl es \<and>
        cut (heard fl es) = None)"

definition read_result :: "recv_flag \<Rightarrow> nat \<Rightarrow> (nat \<times> string) option outcome \<Rightarrow> event list \<Rightarrow> bool" where
  "read_result fl buflen out es \<longleftrightarrow>
     (case out of
        Ret None \<Rightarrow> cut (heard fl es) = None
      | Ret (Some (j, buf)) \<Rightarrow> (\<exists>t. cut (heard fl es) = Some t \<and> j = Suc (length t) \<and> j < buflen \<and>
          take j buf = t @ [NUL])
      | Blocked \<Rightarrow> cut (heard fl es) = None
      | _ \<Rightarrow> False)"

text \<open>
  The common form of \<^verbatim>\<open>read_request\<close> in both builds: the flag of \<^verbatim>\<open>recv\<close>, the error that means
  to try again, and the two messages with their argument are what the builds differ in.
\<close>

definition receive_round :: "recv_flag \<Rightarrow> int \<Rightarrow> string \<Rightarrow> (int \<Rightarrow> log_arg) \<Rightarrow> int \<Rightarrow> nat \<Rightarrow> nat \<times> nat \<times> string \<Rightarrow>
    ((nat \<times> nat \<times> string) + (nat \<times> string) option) prog" where
  "receive_round fl again failed arg sd buflen s =
     (let (total_recv, read_bytes, buf) = s in
      if read_bytes \<ge> buflen then
        say ERROR ''sd - %d, failed because of wrong input. Closing the connection'' [AI sd] (ret (Inr None))
      else
        call (Net (Recv sd (buflen - read_bytes) fl)) (\<lambda>check.
        if rv check > 0 then
          let buf = take read_bytes buf @ payload check @ drop (read_bytes + length (payload check)) buf;
              total_recv = total_recv + nat (rv check);
              (found, read_bytes, buf) = scan read_bytes total_recv buf in
          if found then ret (Inr (Some (read_bytes, buf)))
          else ret (Inl (total_recv, read_bytes, buf))
        else if rv check = 0 then
          say DEBUG ''Connection closed %lld'' [AI sd] (ret (Inr None))
        else if errno check \<noteq> again then say ERROR failed [AI sd, arg (errno check)] (ret (Inr None))
        else ret (Inl (total_recv, read_bytes, buf))))"

definition receive_request :: "recv_flag \<Rightarrow> int \<Rightarrow> string \<Rightarrow> string \<Rightarrow> (int \<Rightarrow> log_arg) \<Rightarrow> int \<Rightarrow> string \<Rightarrow> nat \<Rightarrow>
    (nat \<times> string \<times> bool) option prog" where
  "receive_request fl again failed no_memory arg sd buf buflen =
     bind (loop (receive_round fl again failed arg sd buflen) (0, 0, buf)) (\<lambda>res.
     case res of
       None \<Rightarrow> ret None
     | Some (read_bytes, buf) \<Rightarrow>
         call (Mem (Realloc ''buf'' read_bytes)) (\<lambda>m.
         if rv m = 0 then say ERROR no_memory [arg (errno m)] (ret None)
         else ret (Some (read_bytes, take read_bytes buf, num m \<noteq> 0))))"

lemma read_request_receives:
  "read_request sd buf buflen = receive_request DontWait EWOULDBLOCK
     ''recv() of sd - %d, failed with error: %s. Closing the connection.''
     ''read_request(): realloc failed with error: %s. Closing connection.'' AE sd buf buflen"
proof -
  have "read_round sd buflen = receive_round DontWait EWOULDBLOCK
     ''recv() of sd - %d, failed with error: %s. Closing the connection.'' AE sd buflen"
    by (rule ext) (simp add: read_round_def receive_round_def)
  then show ?thesis by (simp only: read_request_def receive_request_def)
qed

lemma receive_round_consumes:
  "runs any_os (receive_round fl again failed arg sd n s) (\<lambda>out es. goes_round out \<longrightarrow> 0 < calls es)"
  unfolding receive_round_def Let_def
  by (cases s) (auto split: prod.splits intro!: runs_intros consumes_call)

interpretation read_loop: loop_body "receive_round fl again failed arg sd n" for fl again failed arg sd n
  by unfold_locales (rule receive_round_consumes)

text \<open>One \<^verbatim>\<open>recv\<close> that brought bytes.\<close>

lemma recv_step:
  assumes "read_state fl buflen (n, i, buf) es" "i < buflen" "length p \<le> buflen - i"
  defines "buf' \<equiv> take i buf @ p @ drop (i + length p) buf"
  shows "scan i (n + length p) buf' =
    (case cut (heard fl es @ p) of
       None \<Rightarrow> (False, n + length p, buf')
     | Some t \<Rightarrow> (True, Suc (length t), buf'[length t := NUL]))"
    and "length buf' = buflen" "take (n + length p) buf' = heard fl es @ p"
proof -
  from assms(1) have st: "n = i" "length buf = buflen" "take i buf = heard fl es" "cut (heard fl es) = None"
    by (auto simp: read_state_def)
  show len: "length buf' = buflen"
    using st(2) assms(2,3) by (simp add: buf'_def)
  have i: "length (take i buf) = i" using st(2) assms(2) by simp
  show all: "take (n + length p) buf' = heard fl es @ p"
    using i st(1,3) by (simp add: buf'_def)
  have "take i buf' = heard fl es"
    using i st(3) by (simp add: buf'_def)
  then show "scan i (n + length p) buf' =
    (case cut (heard fl es @ p) of
       None \<Rightarrow> (False, n + length p, buf')
     | Some t \<Rightarrow> (True, Suc (length t), buf'[length t := NUL]))"
    using scan_spec [of i "n + length p" buf'] len all st assms(2,3) by simp
qed

lemma receive_round_state:
  assumes "read_state fl buflen s es0"
  shows "runs posix_os (receive_round fl again failed arg sd buflen s) (round (read_state fl buflen) (read_result fl buflen) es0)"
proof -
  obtain n i buf where s: "s = (n, i, buf)" by (cases s)
  from assms s have st: "n = i" "i \<le> buflen" "length buf = buflen" "take i buf = heard fl es0"
      "cut (heard fl es0) = None"
    by (auto simp: read_state_def)
  show ?thesis
    unfolding receive_round_def s Let_def prod.case
  proof (intro runs_if runs_say runs_ret runs_call, goal_cases)
    case (3 r)
    let ?buf = "take i buf @ payload r @ drop (i + length (payload r)) buf"
    from 3 have p: "length (payload r) = nat (rv r)" "length (payload r) \<le> buflen - i" "i < buflen"
      by auto
    have read: "heard fl (es0 @ [Sys (Net (Recv sd (buflen - i) fl)) r]) = heard fl es0 @ payload r"
      using 3 by simp
    have recv: "scan i (n + nat (rv r)) ?buf =
        (case cut (heard fl es0 @ payload r) of
           None \<Rightarrow> (False, n + nat (rv r), ?buf)
         | Some t \<Rightarrow> (True, Suc (length t), ?buf[length t := NUL]))"
      "length ?buf = buflen" "take (n + nat (rv r)) ?buf = heard fl es0 @ payload r"
      using recv_step [OF assms [unfolded s] p(3,2)] unfolding p(1) by simp_all
    show ?case
    proof (cases "cut (heard fl es0 @ payload r)")
      case None
      then show ?thesis
        using recv st p read by (simp add: recv(1)) (intro runs_ret, simp add: read_state_def)
    next
      case (Some t)
      then obtain u where u: "heard fl es0 @ payload r = t @ CR # LF # u"
        using cut_Some by blast
      have "length (heard fl es0 @ payload r) = n + nat (rv r)"
        using recv(2,3) p st(1) by (metis le_diff_conv2 length_take less_imp_le min.absorb2 add.commute)
      with u have len: "Suc (length t) < n + nat (rv r)" by simp
      have "take (Suc (length t)) (?buf[length t := NUL]) = (take (Suc (length t)) ?buf)[length t := NUL]"
        by (rule take_update_swap)
      also have "take (Suc (length t)) ?buf = take (Suc (length t)) (take (n + nat (rv r)) ?buf)"
        by (rule take_take_le [symmetric]) (use len in simp)
      also have "\<dots> = t @ [CR]" unfolding recv(3) u by simp
      also have "(t @ [CR])[length t := NUL] = t @ [NUL]" by simp
      finally have "take (Suc (length t)) (?buf[length t := NUL]) = t @ [NUL]" .
      note cut_buf = this
      have found: "scan i (n + nat (rv r)) ?buf = (True, Suc (length t), ?buf[length t := NUL])"
        using recv(1) Some by simp
      have "j < buflen \<Longrightarrow> take j b = t @ [NUL] \<Longrightarrow> j = Suc (length t) \<Longrightarrow>
          round (read_state fl buflen) (read_result fl buflen) es0 (Ret (Inr (Some (j, b))))
            [Sys (Net (Recv sd (buflen - i) fl)) r]" for j b
        using Some read by (simp add: read_result_def)
      moreover have "Suc (length t) < buflen"
        using len p(1,2,3) st(1) by linarith
      ultimately show ?thesis
        unfolding found prod.case if_True using cut_buf by (intro runs_ret) blast
    qed
  qed (use st assms s in \<open>auto simp: read_result_def read_state_def\<close>)
qed

lemma runs_receive_request:
  assumes "length buf = buflen"
  shows "runs posix_os (receive_request fl again failed no_memory arg sd buf buflen) (\<lambda>out es.
    case out of
      Ret None \<Rightarrow> cut (heard fl es) = None \<or> (\<exists>n m. Sys (Mem (Realloc ''buf'' n)) m \<in> set es \<and> rv m = 0)
    | Ret (Some (j, s, moved)) \<Rightarrow> (\<exists>t. cut (heard fl es) = Some t \<and> j = Suc (length t) \<and> j < buflen \<and>
        s = t @ [NUL]) \<and> (moved \<longrightarrow> (\<exists>n m. Sys (Mem (Realloc ''buf'' n)) m \<in> set es \<and> num m \<noteq> 0))
    | Blocked \<Rightarrow> True
    | _ \<Rightarrow> False)"
    (is "runs posix_os _ ?R")
proof -
  have loop: "runs posix_os (loop (receive_round fl again failed arg sd buflen) (0, 0, buf)) (read_result fl buflen)"
    by (rule read_loop.invariant [where I = "read_state fl buflen", OF _ receive_round_state])
       (simp add: read_state_def assms)
  show ?thesis
    unfolding receive_request_def
  proof (rule runs_bind_weaken [OF loop])
    fix out es
    assume "read_result fl buflen out es"
    then show "after posix_os (\<lambda>res. case res of
       None \<Rightarrow> ret None
     | Some (read_bytes, buf) \<Rightarrow>
         call (Mem (Realloc ''buf'' read_bytes)) (\<lambda>m.
         if rv m = 0 then
           say ERROR no_memory [arg (errno m)] (ret None)
         else ret (Some (read_bytes, take read_bytes buf, num m \<noteq> 0)))) ?R out es"
      by (cases out) (auto simp: read_result_def intro!: runs_intros split: option.splits, blast+)
  qed
qed

lemma runs_read_request:
  assumes "length buf = buflen"
  shows "runs posix_os (read_request sd buf buflen) (\<lambda>out es.
    case out of
      Ret None \<Rightarrow> cut (received es) = None \<or> (\<exists>n m. Sys (Mem (Realloc ''buf'' n)) m \<in> set es \<and> rv m = 0)
    | Ret (Some (j, s, moved)) \<Rightarrow> (\<exists>t. cut (received es) = Some t \<and> j = Suc (length t) \<and> j < buflen \<and>
        s = t @ [NUL]) \<and> (moved \<longrightarrow> (\<exists>n m. Sys (Mem (Realloc ''buf'' n)) m \<in> set es \<and> num m \<noteq> 0))
    | Blocked \<Rightarrow> True
    | _ \<Rightarrow> False)"
  unfolding read_request_receives received_heard by (rule runs_receive_request [OF assms])

lemma only_receive_request:
  assumes "\<And>n r. P (Sys (Net (Recv sd n fl)) r)" "\<And>n r. P (Sys (Mem (Realloc ''buf'' n)) r)" "\<And>l s a. P (Log l s a)"
  shows "only P (receive_request fl again failed no_memory arg sd buf n)"
proof -
  have "only P (receive_round fl again failed arg sd n s)" for s
    unfolding receive_round_def Let_def
    by (cases s) (use assms in \<open>auto split: prod.splits intro!: only_intros\<close>)
  then have "only P (loop (receive_round fl again failed arg sd n) s)" for s
    by (rule read_loop.only_loop)
  then show ?thesis
    unfolding receive_request_def
    by (intro only_intros) (use assms in \<open>auto intro!: only_intros split: option.splits\<close>)
qed

section \<open>How a request ends\<close>

text \<open>
  The handler ends its thread (after freeing its arguments and closing the socket) or its
  process with code 0, or the process with 1 or 5 when a call fails; it never returns.
\<close>

definition farewell :: "client_args \<Rightarrow> event list" where
  "farewell c = [Eff (Mem (Free ''path_file'')), Eff (Mem (Free ''c'')), Eff (File (CloseFd (c_socket c))),
     Log DEBUG ''Closed socket %lld'' [AI (c_socket c)]]"

definition handler_end :: "client_args \<Rightarrow> unit outcome \<Rightarrow> event list \<Rightarrow> bool" where
  "handler_end c out es \<longleftrightarrow>
     (case out of
        Ret u \<Rightarrow> False
      | Exit n \<Rightarrow> n = 1 \<or> n = 5 \<or> (n = 0 \<and> mode (c_settings c) \<noteq> CHR ''t'')
      | ThreadExit \<Rightarrow> mode (c_settings c) = CHR ''t'' \<and> suffix (farewell c) es
      | Crash m \<Rightarrow> m = ''strlen(response) of the null pointer'' \<or> m = ''input used after realloc moved it''
      | Blocked \<Rightarrow> True)"

interpretation handler: ending "handler_end c" for c
  by unfold_locales (auto simp: handler_end_def suffix_Cons split: outcome.splits)

lemma runs_close_socket_kill_child:
  assumes "c_settings c' = c_settings c" "c_socket c' = c_socket c"
  shows "runs any_os (close_socket_kill_child c' 0) (handler_end c)"
  unfolding close_socket_kill_child_def free_client_args_def close_socket_def kill_thread_def Let_def
  by (intro runs_intros) (use assms in \<open>auto simp: handler_end_def farewell_def\<close>)

text \<open>A function of the handler that returns, exits with 1 or 5, or meets an empty directory.\<close>

definition part_end :: "'a outcome \<Rightarrow> bool" where
  "part_end out \<longleftrightarrow>
     (case out of
        Ret u \<Rightarrow> True
      | Exit n \<Rightarrow> n = 1 \<or> n = 5
      | ThreadExit \<Rightarrow> False
      | Crash m \<Rightarrow> m = ''strlen(response) of the null pointer''
      | Blocked \<Rightarrow> True)"

lemma part_end_passes: "part_end out \<Longrightarrow> handler.passes c out"
  by (cases out) (auto simp: part_end_def handler_end_def)

lemma runs_part:
  assumes "runs C p (\<lambda>out es. part_end out)" "\<And>a. runs C (f a) (handler_end c)"
  shows "runs C (bind p f) (handler_end c)"
  by (rule handler.part [OF runs_weaken [OF assms(1) part_end_passes] assms(2)])

lemma handler_exit: "n = 1 \<or> n = 5 \<Longrightarrow> runs C (exit n) (handler_end c)"
  by (rule runs_exit) (auto simp: handler_end_def)

lemmas handler_intros = handler.says handler.effs handler.calls_then handler_exit runs_if

lemma type_path_part: "NUL \<notin> set path \<Longrightarrow> runs any_os (type_path path) (\<lambda>out es. part_end out)"
  by (rule runs_weaken [OF runs_type_path])
     (auto simp: type_path_result_def part_end_def split: outcome.splits)

lemma error_text_fits: "error_text input = Some (''3'' @ [TAB] @ input @ [CR, LF] @ ''.'' @ [CR, LF])"
  by (simp add: error_text_def)

lemma answer_part:
  assumes "path_of c \<noteq> []"
  shows "runs posix_os (answer before c input type) (\<lambda>out es. part_end out)"
proof -
  have menu: "runs posix_os (send_content_of_dir before c input) (\<lambda>out es. part_end out)"
    by (rule runs_any, rule runs_weaken [OF runs_send_content_of_dir])
       (use assms in \<open>auto simp: menu_result_def part_end_def split: outcome.splits\<close>)
  have "after posix_os (\<lambda>_. say DEBUG (''finito invio '' @ [LF]) [] (ret ())) (\<lambda>out es. part_end out) out es"
    if "load_result c out es" for out es
    using that by (cases out) (auto simp: load_result_def part_end_def intro!: runs_intros split: prod.splits)
  then have sending: "runs posix_os (bind (load_file_memory_and_send c) (\<lambda>_. say DEBUG (''finito invio '' @ [LF]) [] (ret ())))
      (\<lambda>out es. part_end out)"
    by (intro runs_bind_weaken [OF runs_load_file]) blast
  show ?thesis
    unfolding answer_def error_text_fits option.case
    by (intro runs_if menu sending runs_call runs_say_if runs_say runs_ret) (simp_all add: part_end_def)
qed

section \<open>What a request touches\<close>

text \<open>
  The events of \<^verbatim>\<open>serve\<close> for the path \<open>q\<close>: the file system is touched only through \<open>q\<close>, and
  only when the guard accepts it; commands are \<^verbatim>\<open>file -bi\<close> on \<open>q\<close> or on an entry below it;
  bytes go to the client only, and nothing more is read of the request.
\<close>

fun serve_event :: "client_args \<Rightarrow> string \<Rightarrow> event \<Rightarrow> bool" where
  "serve_event c q (Sys (File (OpenRdwr p)) r) = (p = q \<and> \<not> check_security_path q)"
| "serve_event c q (Sys (File (Opendir p)) r) = (p = q \<and> \<not> check_security_path q)"
| "serve_event c q (Sys (File (Popen cmd)) r) =
     (\<not> check_security_path q \<and>
      (cmd = ''file -bi '' @ QUOTE # quote_body q @ [QUOTE] \<or>
       (\<exists>n. n \<noteq> ''.'' \<and> n \<noteq> ''..'' \<and>
          cmd = ''file -bi '' @ QUOTE # quote_body (subfile_path q n) @ [QUOTE])))"
| "serve_event c q (Sys (File (FopenRead p)) r) = False"
| "serve_event c q (Sys (File (FopenAppend p)) r) = False"
| "serve_event c q (Sys (Net (Send fd s)) r) = (fd = c_socket c)"
| "serve_event c q (Sys (Net (Recv fd n fl)) r) = (fd = c_socket c \<and> fl = WaitAll)"
| "serve_event c q (Sys (Net (Accept fd)) r) = False"
| "serve_event c q (Sys (Proc Fork) r) = False"
| "serve_event c q (Sys (Thread (ThreadCreate n c')) r) = (n = ''thread_sender'' \<and> c_settings c' = c_settings c)"
| "serve_event c q e = True"

lemma only_runs: "runs any_os p R \<Longrightarrow> (\<And>out es e. R out es \<Longrightarrow> e \<in> set es \<Longrightarrow> P e) \<Longrightarrow> only P p"
  unfolding only_def by (erule runs_weaken) blast

lemma type_path_serve_event:
  "type_path_event q e \<Longrightarrow> \<not> check_security_path q \<Longrightarrow> serve_event c q e"
  by (cases "(q, e)" rule: type_path_event.cases) auto

lemma menu_serve_event:
  assumes "menu_event c N e" "path_of c = q" "\<not> check_security_path q"
    and "\<And>n. n \<in> N \<Longrightarrow> n \<noteq> ''.'' \<and> n \<noteq> ''..''"
  shows "serve_event c q e"
proof (cases "(q, e)" rule: type_path_event.cases)
  case (1 p cmd r)
  with assms show ?thesis by auto
qed (use assms in \<open>auto elim!: dir_event.elims menu_event.elims\<close>)

lemma load_serve_event:
  "load_event c e \<Longrightarrow> cstr (c_path_file c) = q \<Longrightarrow> \<not> check_security_path q \<Longrightarrow> serve_event c q e"
  by (cases "(c, q, e)" rule: serve_event.cases) simp_all

lemma only_menu_serve:
  assumes "\<not> check_security_path (path_of c)"
  shows "only (serve_event c (path_of c)) (send_content_of_dir before c sel)"
proof (rule only_runs [OF runs_send_content_of_dir])
  fix out :: "unit outcome" and es e
  assume "menu_result before c sel out es" "e \<in> set es"
  then have "menu_event c (names_read es) e" by (simp add: menu_result_def)
  then show "serve_event c (path_of c) e"
    using assms by (rule menu_serve_event [OF _ refl]) (auto dest: names_read_no_dots)
qed

lemma only_answer:
  assumes "\<not> check_security_path (path_of c)"
  shows "only (serve_event c (path_of c)) (answer before c sel type)"
  unfolding answer_def error_text_fits option.case
  by (intro only_intros only_menu_serve [OF assms]
        only_weaken [OF only_load_file load_serve_event [OF _ refl assms]])
     simp_all

lemma only_farewell: "only (serve_event c q) (close_socket_kill_child c' n)"
  unfolding close_socket_kill_child_def free_client_args_def close_socket_def kill_thread_def Let_def
  by (intro only_intros) simp_all

text \<open>The path of a request: nothing of it is lost in the buffer.\<close>

abbreviation target :: "client_args \<Rightarrow> string \<Rightarrow> string" where
  "target c input \<equiv> home (c_settings c) @ input"

lemma cstr_target: "NUL \<notin> set input \<Longrightarrow> cstr (target c input) = target c input"
  by (rule cstr_id) simp

lemma only_serve:
  assumes "NUL \<notin> set input"
  shows "only (serve_event c (target c input)) (serve before c input)"
proof -
  let ?c = "c\<lparr>c_path_file := target c input\<rparr>"
  have path: "path_of ?c = target c input" using cstr_target [OF assms] by simp
  have same: "serve_event ?c q = serve_event c q" for q
    by (intro ext, rename_tac e, case_tac "(c, q, e)" rule: serve_event.cases) auto
  have type: "only (serve_event c (target c input)) (type_path (target c input))"
    if "\<not> check_security_path (target c input)"
  proof (rule only_runs [OF runs_type_path])
    show "NUL \<notin> set (target c input)" using assms by simp
    show "serve_event c (target c input) e"
      if "type_path_result (target c input) out es" "e \<in> set es" for out es e
      using that \<open>\<not> check_security_path (target c input)\<close>
      by (auto simp: type_path_result_def intro: type_path_serve_event)
  qed
  have reply: "only (serve_event c (target c input)) (answer before ?c input t)"
    if "\<not> check_security_path (target c input)" for t
    using only_answer [of ?c before input t] that unfolding path same by simp
  show ?thesis
    unfolding serve_def Let_def
    by (intro only_intros only_farewell) (use type reply in simp_all)
qed

lemma runs_serve:
  assumes "NUL \<notin> set input" "home (c_settings c) \<noteq> []"
  shows "runs posix_os (serve before c input) (handler_end c)"
proof -
  let ?c = "c\<lparr>c_path_file := target c input\<rparr>"
  have last: "runs posix_os (close_socket_kill_child c' 0) (handler_end c)"
    if "c_settings c' = c_settings c" "c_socket c' = c_socket c" for c'
    using that by (intro runs_any [OF runs_close_socket_kill_child])
  have "path_of ?c \<noteq> []" using assms cstr_target [OF assms(1)] by simp
  then show ?thesis
    unfolding serve_def Let_def
    by (intro handler_intros runs_part answer_part last runs_any [OF type_path_part])
       (use assms(1) in simp_all)
qed

section \<open>The whole handler\<close>

fun read_event :: "client_args \<Rightarrow> event \<Rightarrow> bool" where
  "read_event c (Sys (Net (Recv fd n fl)) r) = (fd = c_socket c \<and> fl = DontWait)"
| "read_event c (Sys (Mem m) r) = True"
| "read_event c (Sys _ r) = False"
| "read_event c e = True"

text \<open>First the request is read, then its path is served.\<close>

definition request_events :: "client_args \<Rightarrow> event list \<Rightarrow> bool" where
  "request_events c es \<longleftrightarrow>
     (\<exists>es1 es2. es = es1 @ es2 \<and> (\<forall>e \<in> set es1. read_event c e) \<and>
        (es2 = [] \<or> (\<exists>t. cut (received es1) = Some t \<and> (\<forall>e \<in> set es2. serve_event c (target c (cstr t)) e))))"

lemma request_events_read: "\<forall>e \<in> set es. read_event c e \<Longrightarrow> request_events c es"
  unfolding request_events_def by (intro exI [of _ es] exI [of _ "[]"]) simp

lemma only_read_farewell: "only (read_event c) (close_socket_kill_child c' n)"
  unfolding close_socket_kill_child_def free_client_args_def close_socket_def kill_thread_def Let_def
  by (intro only_intros) simp_all

lemma only_read_request: "only (read_event c) (read_request (c_socket c) buf n)"
  unfolding read_request_receives by (rule only_receive_request) simp_all

text \<open>The length of a request and the home directory always fit the array of the path.\<close>

lemma request_length:
  assumes "Suc (length t) < MAX_REQUEST_LEN - length (home st)"
  shows "length (home st) + length (cstr t) < PATH_MAX"
proof -
  have "length (cstr t) \<le> length t" by simp
  with assms show ?thesis unfolding MAX_REQUEST_LEN_def PATH_MAX_def by linarith
qed

lemma cstr_cut: "cstr (t @ [NUL]) = cstr t"
  by (induction t) (auto simp: cstr_def)

definition handled :: "client_args \<Rightarrow> unit outcome \<Rightarrow> event list \<Rightarrow> bool" where
  "handled c out es \<longleftrightarrow> handler_end c out es \<and> request_events c es"

text \<open>After the request has been read.\<close>

lemma handled_after_read:
  assumes "\<forall>e \<in> set es. read_event c e" "home (c_settings c) \<noteq> []"
    and "case res of None \<Rightarrow> True | Some (n, input, moved) \<Rightarrow> \<exists>t. cut (received es) = Some t \<and> input = t @ [NUL]"
  shows "runs posix_os (case res of
          None \<Rightarrow> close_socket_kill_child c 0
        | Some (n, input, moved) \<Rightarrow>
            if moved then crash ''input used after realloc moved it''
            else serve before c (cstr input)) (\<lambda>out es'. handled c out (es @ es'))"
proof (cases res)
  case None
  have "runs posix_os (close_socket_kill_child c 0) (\<lambda>out es'. handler_end c out es' \<and> (\<forall>e \<in> set es'. read_event c e))"
    by (rule runs_only [OF runs_any [OF runs_close_socket_kill_child] only_read_farewell]) simp_all
  then have "runs posix_os (close_socket_kill_child c 0) (\<lambda>out es'. handled c out (es @ es'))"
    by (rule runs_weaken) (use assms(1) in \<open>simp add: handled_def handler.append request_events_read ball_Un\<close>)
  with None show ?thesis by simp
next
  case (Some r)
  obtain n input moved where r: "r = (n, input, moved)" by (cases r)
  from Some r assms(3) obtain t where t: "cut (received es) = Some t" "input = t @ [NUL]" by auto
  have "runs posix_os (serve before c (cstr t)) (\<lambda>out es'. handler_end c out es' \<and>
      (\<forall>e \<in> set es'. serve_event c (target c (cstr t)) e))"
    by (rule runs_only [OF runs_serve [OF _ assms(2)] only_serve]) simp_all
  then have served: "runs posix_os (serve before c (cstr t)) (\<lambda>out es'. handled c out (es @ es'))"
    by (rule runs_weaken)
       (use assms(1) t(1) in \<open>auto simp: handled_def request_events_def intro: handler.append\<close>)
  have "handled c (Crash ''input used after realloc moved it'') es"
    using request_events_read [OF assms(1)] by (simp add: handled_def handler_end_def)
  then show ?thesis
    using served Some r t(2) cstr_cut [of t] by (auto intro!: runs_crash)
qed

lemma runs_management_function:
  assumes "home (c_settings c) \<noteq> []"
  shows "runs posix_os (management_function c) (handled c)"
  unfolding management_function_def Let_def
proof (intro runs_call runs_if runs_say runs_exit, goal_cases)
  case (3 m)
  let ?size = "MAX_REQUEST_LEN - length (home (c_settings c))"
  let ?m = "Sys (Mem (Malloc ''input'' (int ?size))) m"
  show ?case
  proof (rule runs_bind_weaken [OF runs_only [OF runs_read_request only_read_request]], goal_cases)
    case 1
    show ?case by simp
  next
    case (2 out es)
    then have read: "\<forall>e \<in> set (?m # es). read_event c e" by simp
    show ?case
    proof (cases out)
      case (Ret res)
      have "received (?m # es) = received es" by simp
      then have "case res of None \<Rightarrow> True | Some (n, input, moved) \<Rightarrow>
          \<exists>t. cut (received (?m # es)) = Some t \<and> input = t @ [NUL]"
        using 2 Ret by (auto split: option.splits)
      from handled_after_read [OF read assms this] Ret show ?thesis by simp
    qed (use 2 request_events_read [OF read] in \<open>auto simp: handled_def handler_end_def\<close>)
  qed
qed (auto simp: handled_def handler_end_def intro!: request_events_read)

section \<open>What is opened, run and sent\<close>

fun opened :: "event list \<Rightarrow> string list" where
  "opened (Sys (File (OpenRdwr p)) r # es) = p # opened es"
| "opened (Sys (File (Opendir p)) r # es) = p # opened es"
| "opened (e # es) = opened es"
| "opened [] = []"

lemma opened_append [simp]: "opened (es @ es') = opened es @ opened es'"
  by (induction es rule: opened.induct) auto

lemma read_event_nothing:
  assumes "\<forall>e \<in> set es. read_event c e"
  shows "opened es = []" "commands_run es = []" "sends es = []"
proof -
  show "opened es = []"
    using assms by (induction es rule: opened.induct) auto
  show "commands_run es = []"
    using assms by (induction es rule: commands_run.induct) auto
  show "sends es = []"
    using assms by (induction es rule: sends.induct) auto
qed

lemma serve_event_received: "\<forall>e \<in> set es. serve_event c q e \<Longrightarrow> received es = []"
  by (induction es rule: received.induct) auto

lemma serve_event_opened:
  "\<forall>e \<in> set es. serve_event c q e \<Longrightarrow> p \<in> set (opened es) \<Longrightarrow> p = q \<and> \<not> check_security_path q"
  by (induction es rule: opened.induct) auto

lemma serve_event_sends: "\<forall>e \<in> set es. serve_event c q e \<Longrightarrow> x \<in> set (sends es) \<Longrightarrow> fst x = c_socket c"
  by (induction es rule: sends.induct) auto

definition file_on :: "string \<Rightarrow> string \<Rightarrow> bool" where
  "file_on q cmd \<longleftrightarrow> sh_words None cmd = Some [''file'', ''-bi'', q]"

lemma serve_event_commands:
  "\<forall>e \<in> set es. serve_event c q e \<Longrightarrow> cmd \<in> set (commands_run es) \<Longrightarrow>
   \<not> check_security_path q \<and>
   (file_on q cmd \<or> (\<exists>n. n \<noteq> ''.'' \<and> n \<noteq> ''..'' \<and> file_on (subfile_path q n) cmd))"
  using quoting.file_command
  by (induction es rule: commands_run.induct) (auto simp: file_on_def)

text \<open>
  What a handler with the settings of \<open>c\<close> may touch, when \<open>t\<close> is the text of its request.
\<close>

definition confined_to :: "client_args \<Rightarrow> string option \<Rightarrow> string \<Rightarrow> bool" where
  "confined_to c req p \<longleftrightarrow> (\<exists>t. req = Some t \<and> p = target c (cstr t) \<and> \<not> check_security_path p \<and>
     prefix (if last_component (cstr t) = ''..'' then butlast (resolve (home (c_settings c)))
             else resolve (home (c_settings c))) (resolve p))"

definition asks_about :: "client_args \<Rightarrow> string option \<Rightarrow> string \<Rightarrow> bool" where
  "asks_about c req cmd \<longleftrightarrow> (\<exists>t. req = Some t \<and> \<not> check_security_path (target c (cstr t)) \<and>
     (file_on (target c (cstr t)) cmd \<or>
      (\<exists>n. n \<noteq> ''.'' \<and> n \<noteq> ''..'' \<and> file_on (subfile_path (target c (cstr t)) n) cmd)))"

lemma request_confined:
  assumes "settings_inv (c_settings c)" "request_events c es"
  shows "p \<in> set (opened es) \<Longrightarrow> confined_to c (cut (received es)) p"
    and "cmd \<in> set (commands_run es) \<Longrightarrow> asks_about c (cut (received es)) cmd"
    and "x \<in> set (sends es) \<Longrightarrow> fst x = c_socket c"
proof -
  have slash: "ends_in_slash (home (c_settings c))"
    using assms(1) by (simp add: settings_inv_def homedir_ok_def)
  from assms(2) obtain es1 es2 where es: "es = es1 @ es2" "\<forall>e \<in> set es1. read_event c e"
    and served: "es2 = [] \<or> (\<exists>t. cut (received es1) = Some t \<and> (\<forall>e \<in> set es2. serve_event c (target c (cstr t)) e))"
    unfolding request_events_def by blast
  note quiet = read_event_nothing [OF es(2)]
  have "(p \<in> set (opened es) \<longrightarrow> confined_to c (cut (received es)) p) \<and>
      (cmd \<in> set (commands_run es) \<longrightarrow> asks_about c (cut (received es)) cmd) \<and>
      (x \<in> set (sends es) \<longrightarrow> fst x = c_socket c)" for p cmd x
  proof (cases "es2 = []")
    case True
    with es quiet show ?thesis by simp
  next
    case False
    with served obtain t where t: "cut (received es1) = Some t"
      "\<forall>e \<in> set es2. serve_event c (target c (cstr t)) e" by blast
    have same: "cut (received es) = Some t" "opened es = opened es2" "commands_run es = commands_run es2"
        "sends es = sends es2"
      using es t(1) serve_event_received [OF t(2)] quiet by simp_all
    show ?thesis
      unfolding same confined_to_def asks_about_def
      using serve_event_opened [OF t(2), of p] serve_event_commands [OF t(2), of cmd]
        serve_event_sends [OF t(2), of x] guard.confined [OF slash, of "cstr t"]
      by blast
  qed
  then show "p \<in> set (opened es) \<Longrightarrow> confined_to c (cut (received es)) p"
    "cmd \<in> set (commands_run es) \<Longrightarrow> asks_about c (cut (received es)) cmd"
    "x \<in> set (sends es) \<Longrightarrow> fst x = c_socket c" by blast+
qed

section \<open>Properties\<close>

text \<open>
  C1: whatever the client sends, the only path that the handler opens, as a file or as a
  directory, is the home directory followed by the text before the first CR LF (up to its
  first NUL), and only when that path passes the guard; so it lies in the home directory, or
  in its parent for a selector that ends in the component \<^verbatim>\<open>..\<close>. Every command run is
  \<^verbatim>\<open>file -bi\<close> on that path or on the path of an entry below it, and bytes are sent to this
  client only.
\<close>

theorem handler_opens_only_the_confined_path:
  assumes "settings_inv (c_settings c)"
  shows "runs posix_os (management_function c) (\<lambda>out es.
    (\<forall>p \<in> set (opened es). \<exists>t. cut (received es) = Some t \<and> p = target c (cstr t) \<and>
       \<not> check_security_path p \<and>
       prefix (if last_component (cstr t) = ''..'' then butlast (resolve (home (c_settings c)))
               else resolve (home (c_settings c))) (resolve p)) \<and>
    (\<forall>cmd \<in> set (commands_run es). \<exists>t. cut (received es) = Some t \<and>
       \<not> check_security_path (target c (cstr t)) \<and>
       (file_on (target c (cstr t)) cmd \<or>
        (\<exists>n. n \<noteq> ''.'' \<and> n \<noteq> ''..'' \<and> file_on (subfile_path (target c (cstr t)) n) cmd))) \<and>
    (\<forall>x \<in> set (sends es). fst x = c_socket c))"
proof -
  have "home (c_settings c) \<noteq> []"
    using assms by (auto simp: settings_inv_def homedir_ok_def ends_in_slash_def)
  from runs_management_function [OF this] show ?thesis
  proof (rule runs_weaken, goal_cases)
    case (1 out es)
    then have "request_events c es" by (simp add: handled_def)
    note confined = request_confined [OF assms this, unfolded confined_to_def asks_about_def]
    show ?case
      using confined by (intro conjI ballI)
  qed
qed

theorem handler_opens_only_the_confined_path_witness:
  "settings_inv (c_settings example_client) \<and>
   runs posix_os (management_function example_client) (\<lambda>out es.
     opened es = [] \<or> (\<exists>t. cut (received es) = Some t \<and> hd (opened es) = ''/srv/'' @ cstr t))"
proof -
  have home: "home (c_settings example_client) = ''/srv/''"
    by (simp add: example_client_def example_settings_def)
  have inv: "settings_inv (c_settings example_client)"
    by (simp add: example_client_def example_settings_inv)
  have "runs posix_os (management_function example_client) (\<lambda>out es.
     opened es = [] \<or> (\<exists>t. cut (received es) = Some t \<and> hd (opened es) = ''/srv/'' @ cstr t))"
  proof (rule runs_weaken [OF handler_opens_only_the_confined_path [OF inv]], goal_cases)
    case (1 out es)
    then show ?case unfolding home by (cases "opened es") auto
  qed
  with inv show ?thesis by blast
qed



text \<open>
  C27: what \<^verbatim>\<open>read_request\<close> returns depends only on the bytes received, not on how \<^verbatim>\<open>recv\<close>
  cut them up: the text before their first CR LF, with its length. It returns -1 only when
  no CR LF has come (closed, failed, or the buffer is full) or when \<^verbatim>\<open>realloc\<close> fails; and a request
  that it returns fits the array of the path behind the home directory, so the length test that
  follows never fires.
\<close>

theorem request_is_the_text_before_crlf:
  "runs posix_os (read_request sd (replicate (MAX_REQUEST_LEN - length (home st)) NUL)
       (MAX_REQUEST_LEN - length (home st))) (\<lambda>out es.
    case out of
      Ret None \<Rightarrow> cut (received es) = None \<or> (\<exists>n m. Sys (Mem (Realloc ''buf'' n)) m \<in> set es \<and> rv m = 0)
    | Ret (Some (n, input, moved)) \<Rightarrow>
        (\<exists>t. cut (received es) = Some t \<and> n = Suc (length t) \<and> cstr input = cstr t) \<and>
        length (home st) + length (cstr input) < PATH_MAX
    | Blocked \<Rightarrow> True
    | _ \<Rightarrow> False)"
proof (rule runs_weaken [OF runs_read_request [OF length_replicate]], goal_cases)
  case (1 out es)
  show ?case
  proof (cases "\<exists>n input moved. out = Ret (Some (n, input, moved))")
    case True
    then obtain n input moved where out: "out = Ret (Some (n, input, moved))" by blast
    with 1 obtain t where t: "cut (received es) = Some t" "n = Suc (length t)"
        "n < MAX_REQUEST_LEN - length (home st)" "input = t @ [NUL]" by auto
    then show ?thesis
      using out request_length [of t st] by (simp add: cstr_cut)
  qed (use 1 in \<open>auto split: outcome.splits option.splits\<close>)
qed

text \<open>
  The answer goes by the type of the path. A directory is answered with its menu, a path
  without a known type with one line that repeats the selector (it fits the array \<^verbatim>\<open>temp\<close>),
  everything else with bytes of the file.
\<close>

theorem answer_goes_by_type:
  "runs posix_os (answer before c input type) (\<lambda>out es.
    if type = CHR ''3'' then
      (out = Ret () \<and> (\<exists>n. sends es = [(c_socket c, ''3'' @ [TAB] @ input @ [CR, LF] @ ''.'' @ [CR, LF], n)]))
      \<or> (out = Blocked \<and> es = [])
    else if type = CHR ''1'' then menu_result before c input out es
    else set (opened es) \<subseteq> {path_of c} \<and>
      (wire (c_socket c) es = [] \<or>
       (\<exists>f n m. Sys (File (Mmap f n)) m \<in> set es \<and> prefix (wire (c_socket c) es) (payload m))))"
proof -
  have sending: "runs posix_os (bind (load_file_memory_and_send c) (\<lambda>_. say DEBUG (''finito invio '' @ [LF]) [] (ret ())))
      (\<lambda>out es. from_mapping (c_socket c) es)"
  proof (rule runs_bind_weaken [OF runs_load_file])
    fix out es
    assume "load_result c out es"
    then have "from_mapping (c_socket c) es" by (simp add: load_result_def)
    then show "after posix_os (\<lambda>_. say DEBUG (''finito invio '' @ [LF]) [] (ret ()))
        (\<lambda>out es. from_mapping (c_socket c) es) out es"
      using from_mapping_append [of "c_socket c" es "[Log DEBUG (''finito invio '' @ [LF]) []]"]
      by (cases out) (auto intro!: runs_intros)
  qed
  have "only (load_event c) (bind (load_file_memory_and_send c) (\<lambda>_. say DEBUG (''finito invio '' @ [LF]) [] (ret ())))"
    by (intro only_intros only_load_file) simp_all
  note file_part = runs_only [OF sending this]
  have opened: "set (opened es) \<subseteq> {path_of c}" if "\<forall>e \<in> set es. load_event c e" for es
    using that by (induction es rule: opened.induct) auto
  consider "type = CHR ''3''" | "type = CHR ''1''" | "type \<noteq> CHR ''3''" "type \<noteq> CHR ''1''" by blast
  then show ?thesis
  proof cases
    case 1
    then show ?thesis
      unfolding answer_def error_text_fits option.case by (auto intro!: runs_intros)
  next
    case 2
    then show ?thesis
      unfolding answer_def by (simp add: runs_any [OF runs_send_content_of_dir])
  next
    case 3
    have "runs posix_os (bind (load_file_memory_and_send c) (\<lambda>_. say DEBUG (''finito invio '' @ [LF]) [] (ret ())))
      (\<lambda>out es. set (opened es) \<subseteq> {path_of c} \<and> (wire (c_socket c) es = [] \<or>
       (\<exists>f n m. Sys (File (Mmap f n)) m \<in> set es \<and> prefix (wire (c_socket c) es) (payload m))))"
    proof (rule runs_weaken [OF file_part])
      fix out :: "unit outcome" and es
      assume "from_mapping (c_socket c) es \<and> (\<forall>e \<in> set es. load_event c e)"
      with opened [of es]
      show "set (opened es) \<subseteq> {path_of c} \<and> (wire (c_socket c) es = [] \<or>
          (\<exists>f n m. Sys (File (Mmap f n)) m \<in> set es \<and> prefix (wire (c_socket c) es) (payload m)))"
        unfolding from_mapping_def by blast
    qed
    with 3 show ?thesis unfolding answer_def by simp
  qed
qed

end
