(* ===== verification/Children.thy ===== *)
theory Children
  imports Request
begin

text \<open>
  Starting a handler for a client (children.c, sacagalib.c; Linux build): a detached thread or a
  forked process. A thread runs beside its creator, so its program \<open>start_thread_management\<close> is
  separate and the event of its creation carries the arguments it gets; \<^verbatim>\<open>fork\<close> returns in both
  processes, and the reply 0 continues as the child.
\<close>

section \<open>The code\<close>

definition print_client_args :: "client_args \<Rightarrow> 'a prog \<Rightarrow> 'a prog" where
  "print_client_args c p =
     say DEBUG ''SOCKET = %d;  IP:port =  %s'' [AI (c_socket c), AS (c_addr c)] p"

definition start_thread_management :: "client_args \<Rightarrow> unit prog" where
  "start_thread_management c =
     call (Proc (IgnoreSignal ''SIGHUP'')) (\<lambda>s.
     if rv s = - 1 then say ERROR ''Signal() failed because of %s'' [AE (errno s)] (exit 1)
     else management_function c)"

text \<open>\<open>num\<close> of the reply is the identifier that \<^verbatim>\<open>pthread_create\<close> stored (or left) in \<^verbatim>\<open>tid\<close>.\<close>

definition thread_management :: "client_args \<Rightarrow> unit prog" where
  "thread_management c =
     print_client_args c
     (call (Thread (ThreadCreate ''start_thread_management'' c)) (\<lambda>created.
      say_if (rv created \<noteq> 0) ERROR ''pthread_create( management_function ) failed '' []
      (call (Thread ThreadDetach) (\<lambda>detached.
       say_if (rv detached \<noteq> 0) ERROR ''pthread_detach( %d ) failed '' [AI (num created)] (ret ())))))"

definition process_management :: "client_args \<Rightarrow> bool prog" where
  "process_management c =
     call (Proc Fork) (\<lambda>pid.
     if rv pid < 0 then say ERROR ''fork for management the connection failed'' [] (ret False)
     else if rv pid = 0 then bind (management_function c) (\<lambda>_. exit 1)
     else eff (File (CloseFd (c_socket c))) (eff (Mem (Free ''client_info'')) (ret False)))"

section \<open>What starting a handler does\<close>

text \<open>The thread is one handler, after SIGHUP has been switched off for it.\<close>

lemma runs_start_thread_management:
  assumes "home (c_settings c) \<noteq> []"
  shows "runs posix_os (start_thread_management c) (handler_end c)"
proof -
  have "runs posix_os (management_function c) (handler_end c)"
    by (rule runs_weaken [OF runs_management_function [OF assms]]) (simp add: handled_def)
  then show ?thesis
    unfolding start_thread_management_def by (intro handler_intros) auto
qed

text \<open>\<^verbatim>\<open>exit(1)\<close> behind the handler of the child process is never reached.\<close>

lemma runs_forked_child:
  assumes "home (c_settings c) \<noteq> []"
  shows "runs posix_os (bind (management_function c) (\<lambda>_. exit 1)) (handled c)"
proof (rule runs_bind_weaken [OF runs_management_function [OF assms]])
  fix out es
  assume "handled c out es"
  then show "after posix_os (\<lambda>_. exit 1) (handled c) out es"
    by (cases out) (simp_all add: handled_def handler_end_def)
qed

text \<open>
  A handler takes no connection and forks no process, and the only thread it starts is the
  sender of its own client.
\<close>

fun handler_event :: "client_args \<Rightarrow> event \<Rightarrow> bool" where
  "handler_event c (Sys (Net (Accept fd)) r) = False"
| "handler_event c (Sys (Proc Fork) r) = False"
| "handler_event c (Sys (Thread (ThreadCreate n c')) r) = (n = ''thread_sender'' \<and> c_settings c' = c_settings c)"
| "handler_event c e = True"

lemma serve_event_handler: "serve_event c q e \<Longrightarrow> handler_event c e"
  by (cases "(c, e)" rule: handler_event.cases) simp_all

lemma read_event_handler: "read_event c e \<Longrightarrow> handler_event c e"
  by (cases "(c, e)" rule: handler_event.cases) simp_all

lemma only_management_function: "only (handler_event c) (management_function c)"
proof -
  have serve: "only (handler_event c) (serve before c (cstr s))" for before s
    by (rule only_weaken [OF only_serve serve_event_handler]) simp
  have read: "only (handler_event c) (read_request (c_socket c) buf n)" for buf n
    by (rule only_weaken [OF only_read_request read_event_handler])
  have farewell: "only (handler_event c) (close_socket_kill_child c 0)"
    by (rule only_weaken [OF only_read_farewell read_event_handler])
  show ?thesis
    unfolding management_function_def Let_def
    by (intro only_intros read) (auto intro!: only_intros serve farewell split: option.splits)
qed

end
