(* ===== verification/Listener.thy ===== *)
theory Listener
  imports Children
begin

text \<open>
  The listening socket (socket.c, Linux build): \<^verbatim>\<open>open_socket\<close> prepares it, \<^verbatim>\<open>listen_descriptor\<close>
  waits on it, \<^verbatim>\<open>accept_wrapper\<close> takes every connection that is queued and starts a handler for
  each. The lemmas show that exactly one handler is started for each connection, in order,
  with a copy of the settings and the address of the client untruncated.
\<close>

section \<open>Opening the socket\<close>

text \<open>\<^verbatim>\<open>htons\<close> keeps the low 16 bits of the port; \<open>SO_RCVBUF\<close> gets the bytes of the text \<^verbatim>\<open>65536\<close>.\<close>

definition open_socket :: "settings_t \<Rightarrow> int prog" where
  "open_socket st =
     call (Net Socket) (\<lambda>s.
     if rv s < 0 then say ERROR ''socket failed: %s'' [AE (errno s)] (exit 5)
     else
       let ListenSocket = rv s in
       call (Net (SetReuseAddr ListenSocket)) (\<lambda>r.
       say_if (rv r < 0) ERROR ''setsockopt(SO_REUSEADDR) failed: %s'' [AE (errno r)]
       (call (Net (SetNonBlocking ListenSocket)) (\<lambda>r.
        if rv r < 0 then
          say ERROR ''ioctl failed: %s'' [AE (errno r)] (eff (File (CloseFd ListenSocket)) (exit 5))
        else
          call (Net (SetRecvBuf ListenSocket (S_SOCK_RECVBUF_LEN @ [NUL]))) (\<lambda>r.
          if rv r \<noteq> 0 then say ERROR ''setsockopt failed: %s'' [AE (errno r)] (exit 5)
          else
            call (Net (BindAny ListenSocket (nat (port st mod 65536)))) (\<lambda>r.
            if rv r = - 1 then say ERROR (''bind failed: %s'' @ [LF]) [AE (errno r)] (exit 5)
            else
              call (Net (Listen ListenSocket 100)) (\<lambda>r.
              if rv r < 0 then say ERROR (''listen failed: %s'' @ [LF]) [AE (errno r)] (exit 5)
              else ret ListenSocket)))))))"

section \<open>Accepting\<close>

text \<open>The arguments of a handler: a zeroed \<^verbatim>\<open>client_args\<close> with a copy of the settings.\<close>

definition new_client :: "settings_t \<Rightarrow> client_args" where
  "new_client st = \<lparr>c_addr = [], c_socket = 0, c_path_file = [], c_file_to_send = [], c_len_file = 0,
     c_settings = st\<rparr>"

lemma c_settings_new_client [simp]: "c_settings (new_client st) = st"
  by (simp add: new_client_def)

definition addr_text :: "reply \<Rightarrow> string" where
  "addr_text a = snprintf ADDR_MAXLEN (payload a @ '':'' @ show_int (num a))"

definition accept_round :: "settings_t \<Rightarrow> unit \<Rightarrow> (unit + bool) prog" where
  "accept_round st u =
     call (Mem (Malloc ''client_info'' 1)) (\<lambda>m.
     if rv m = 0 then say ERROR ''calloc for client_info failed'' [] (exit 5)
     else
       let client_info = new_client st in
       call (Net (Accept (socket st))) (\<lambda>new_s.
       if rv new_s = - 1 then free_client_args (ret (Inr True))
       else if rv new_s < 0 \<and> errno new_s \<noteq> EWOULDBLOCK then
         say ERROR ''socket accept() failed: %s'' [AE (errno new_s)] (free_client_args (exit 5))
       else
         let client_info = client_info\<lparr>c_addr := addr_text new_s\<rparr> in
         say INFO ''New connection at sock_t %d from %s'' [AI (rv new_s), AS (c_addr client_info)]
         (let client_info = client_info\<lparr>c_socket := rv new_s\<rparr> in
          if mode st = CHR ''t'' then bind (thread_management client_info) (\<lambda>_. ret (Inl ()))
          else if mode st = CHR ''p'' then bind (process_management client_info) (\<lambda>_. ret (Inl ()))
          else
            say ERROR ''Multithread/multiprocess mode not set correctly'' []
            (free_client_args (exit 5)))))"

definition accept_wrapper :: "settings_t \<Rightarrow> bool prog" where
  "accept_wrapper st = loop (accept_round st) ()"

definition EINTR :: int where "EINTR = 4"

text \<open>\<open>num\<close> of the reply to \<^verbatim>\<open>select\<close> says whether the socket is in the set.\<close>

definition listen_descriptor :: "settings_t \<Rightarrow> bool prog" where
  "listen_descriptor st =
     say DEBUG ''Waiting on select()...'' []
     (call (Net (Select (socket st))) (\<lambda>num_fd_ready.
      if rv num_fd_ready < 0 then
        if errno num_fd_ready = EINTR then ret True
        else say ERROR ''select failed: %s'' [AE (errno num_fd_ready)] (exit 5)
      else if rv num_fd_ready = 0 then ret True
      else if num num_fd_ready \<noteq> 0 then bind (accept_wrapper st) (\<lambda>_. ret True)
      else ret True))"

section \<open>Connections and handlers\<close>

definition client_of :: "settings_t \<Rightarrow> reply \<Rightarrow> client_args" where
  "client_of st a = (new_client st)\<lparr>c_addr := addr_text a, c_socket := rv a\<rparr>"

text \<open>
  The connections taken, the calls that start a thread with what they returned, the forks and the sockets
  closed, in order. A thread runs only when its \<^verbatim>\<open>pthread_create\<close> returned 0.
\<close>

fun connections :: "event list \<Rightarrow> reply list" where
  "connections (Sys (Net (Accept s)) r # es) = (if rv r = - 1 then [] else [r]) @ connections es"
| "connections (e # es) = connections es"
| "connections [] = []"

fun thread_calls :: "event list \<Rightarrow> (client_args \<times> int) list" where
  "thread_calls (Sys (Thread (ThreadCreate n c)) r # es) = (c, rv r) # thread_calls es"
| "thread_calls (e # es) = thread_calls es"
| "thread_calls [] = []"

abbreviation thread_args :: "event list \<Rightarrow> client_args list" where
  "thread_args es \<equiv> map fst (thread_calls es)"

definition threads :: "event list \<Rightarrow> client_args list" where
  "threads es = map fst (filter (\<lambda>(c, k). k = 0) (thread_calls es))"

text \<open>How often a failed \<^verbatim>\<open>pthread_create\<close> was reported.\<close>

fun thread_errors :: "event list \<Rightarrow> nat" where
  "thread_errors (Log l s a # es) =
     (if l = ERROR \<and> s = ''pthread_create( management_function ) failed '' then 1 else 0) + thread_errors es"
| "thread_errors (e # es) = thread_errors es"
| "thread_errors [] = 0"

definition failures_reported :: "event list \<Rightarrow> bool" where
  "failures_reported es \<longleftrightarrow> thread_errors es = length (filter (\<lambda>(c, k). k \<noteq> 0) (thread_calls es))"

fun forks :: "event list \<Rightarrow> int list" where
  "forks (Sys (Proc Fork) r # es) = rv r # forks es"
| "forks (e # es) = forks es"
| "forks [] = []"

fun closed_fds :: "event list \<Rightarrow> int list" where
  "closed_fds (Eff (File (CloseFd fd)) # es) = fd # closed_fds es"
| "closed_fds (e # es) = closed_fds es"
| "closed_fds [] = []"

lemma connections_append [simp]: "connections (es @ es') = connections es @ connections es'"
  by (induction es rule: connections.induct) auto

lemma thread_calls_append [simp]: "thread_calls (es @ es') = thread_calls es @ thread_calls es'"
  by (induction es rule: thread_calls.induct) auto

lemma thread_errors_append [simp]: "thread_errors (es @ es') = thread_errors es + thread_errors es'"
  by (induction es rule: thread_errors.induct) auto

lemma failures_reported_simps [simp]:
  "failures_reported []"
  "failures_reported (Sys (Mem m) r # es) = failures_reported es"
  "failures_reported (Sys (Net n) r # es) = failures_reported es"
  "failures_reported (Eff c # es) = failures_reported es"
  "s \<noteq> ''pthread_create( management_function ) failed '' \<Longrightarrow>
   failures_reported (Log l s x # es) = failures_reported es"
  by (simp_all add: failures_reported_def)

lemma failures_reported_append:
  "failures_reported es \<Longrightarrow> failures_reported es' \<Longrightarrow> failures_reported (es @ es')"
  by (simp add: failures_reported_def)

lemma forks_append [simp]: "forks (es @ es') = forks es @ forks es'"
  by (induction es rule: forks.induct) auto

lemma closed_fds_append [simp]: "closed_fds (es @ es') = closed_fds es @ closed_fds es'"
  by (induction es rule: closed_fds.induct) auto

text \<open>When the calls are those for the connections, those that succeed are for the connections whose call succeeded.\<close>

lemma calls_of_connections:
  assumes "prefix (map fst tc) (map f as)"
  shows "map fst (filter (\<lambda>(c, k). P k) tc) = map (f \<circ> fst) (filter (\<lambda>(a, k). P k) (zip as (map snd tc)))"
  using assms
proof (induction tc arbitrary: as)
  case (Cons t tc)
  then show ?case by (cases as) auto
qed simp

text \<open>
  What the server has done for the connections it took: in thread mode one \<^verbatim>\<open>pthread_create\<close> with the right
  arguments for each, and a report when it failed; in process mode one \<^verbatim>\<open>fork\<close> for each, and its own copy of the socket is
  closed when the fork succeeded. It makes no other system call than those of \<open>accept_event\<close>.
\<close>

fun accept_event :: "settings_t \<Rightarrow> event \<Rightarrow> bool" where
  "accept_event st (Sys (Net (Accept fd)) r) = (fd = socket st)"
| "accept_event st (Sys (Thread (ThreadCreate n c)) r) = (n = ''start_thread_management'' \<and> c_settings c = st)"
| "accept_event st (Sys (Thread ThreadDetach) r) = True"
| "accept_event st (Sys (Proc Fork) r) = True"
| "accept_event st (Sys (Mem m) r) = True"
| "accept_event st (Sys c r) = False"
| "accept_event st e = True"

definition served :: "settings_t \<Rightarrow> event list \<Rightarrow> bool" where
  "served st es \<longleftrightarrow> (\<forall>e \<in> set es. accept_event st e) \<and>
     (if mode st = CHR ''t'' then
        thread_args es = map (client_of st) (connections es) \<and> forks es = [] \<and> closed_fds es = [] \<and> failures_reported es
      else
        thread_args es = [] \<and> length (forks es) = length (connections es) \<and>
        closed_fds es = map (rv \<circ> fst) (filter (\<lambda>(a, pid). 0 < pid) (zip (connections es) (forks es))))"

text \<open>The run goes on as the child: what follows the \<^verbatim>\<open>fork\<close> is one handler.\<close>

definition child_run :: "settings_t \<Rightarrow> unit outcome \<Rightarrow> event list \<Rightarrow> bool" where
  "child_run st out es \<longleftrightarrow> mode st = CHR ''p'' \<and>
     (\<exists>es1 es2 a. es = es1 @ es2 \<and> (\<forall>e \<in> set es1. accept_event st e) \<and> connections es1 \<noteq> [] \<and> a = last (connections es1) \<and>
        forks es1 \<noteq> [] \<and> last (forks es1) = 0 \<and> handled (client_of st a) out es2)"

fun ended :: "'a outcome \<Rightarrow> unit outcome" where
  "ended (Ret a) = Ret ()"
| "ended (Exit n) = Exit n"
| "ended ThreadExit = ThreadExit"
| "ended (Crash m) = Crash m"
| "ended Blocked = Blocked"

text \<open>At every moment of a run in thread mode at most the last connection has no thread asked for yet.\<close>

definition in_order :: "settings_t \<Rightarrow> event list \<Rightarrow> bool" where
  "in_order st es \<longleftrightarrow> (\<forall>e \<in> set es. accept_event st e) \<and> prefix (thread_args es) (map (client_of st) (connections es)) \<and>
     length (connections es) \<le> length (thread_args es) + 1 \<and> closed_fds es = [] \<and> failures_reported es"

definition accept_result :: "settings_t \<Rightarrow> bool outcome \<Rightarrow> event list \<Rightarrow> bool" where
  "accept_result st out es \<longleftrightarrow>
     (out = Ret True \<and> served st es) \<or>
     (out = Blocked \<and> (mode st = CHR ''t'' \<longrightarrow> in_order st es) \<and> (\<forall>e \<in> set es. accept_event st e)) \<or>
     (out = Exit 5 \<and> served st es) \<or>
     child_run st (ended out) es"

lemma runs_thread_management:
  "runs any_os (thread_management c) (\<lambda>out es. connections es = [] \<and> forks es = [] \<and> closed_fds es = [] \<and> failures_reported es \<and>
     (\<forall>e \<in> set es. accept_event (c_settings c) e) \<and>
     (out = Ret () \<and> thread_args es = [c] \<or> out = Blocked \<and> prefix (thread_args es) [c]))"
  unfolding thread_management_def print_client_args_def by (intro runs_intros) (simp_all add: failures_reported_def)

lemma runs_process_management:
  assumes "home (c_settings c) \<noteq> []"
  shows "runs posix_os (process_management c) (\<lambda>out es.
     (\<exists>p. out = Ret False \<and> p \<noteq> 0 \<and> (\<forall>e \<in> set es. accept_event (c_settings c) e) \<and> connections es = [] \<and> thread_args es = [] \<and> forks es = [p] \<and>
        closed_fds es = (if 0 < p then [c_socket c] else [])) \<or>
     (out = Blocked \<and> es = []) \<or>
     (\<exists>r es'. es = Sys (Proc Fork) r # es' \<and> rv r = 0 \<and> handled c (ended out) es'))"
  unfolding process_management_def
proof (intro runs_call runs_if runs_say runs_eff runs_ret, goal_cases)
  case (3 r)
  show ?case
  proof (rule runs_bind_weaken [OF runs_management_function [OF assms]])
    fix out es
    assume "handled c out es"
    with 3 show "after posix_os (\<lambda>_. exit 1) (\<lambda>out es.
      (\<exists>p. out = Ret False \<and> p \<noteq> 0 \<and> (\<forall>e \<in> set (Sys (Proc Fork) r # es). accept_event (c_settings c) e) \<and>
        connections (Sys (Proc Fork) r # es) = [] \<and> thread_args (Sys (Proc Fork) r # es) = [] \<and>
        forks (Sys (Proc Fork) r # es) = [p] \<and> closed_fds (Sys (Proc Fork) r # es) = (if 0 < p then [c_socket c] else [])) \<or>
     (out = Blocked \<and> Sys (Proc Fork) r # es = []) \<or>
     (\<exists>r' es'. Sys (Proc Fork) r # es = Sys (Proc Fork) r' # es' \<and> rv r' = 0 \<and> handled c (ended out) es')) out es"
      by (cases out) (auto simp: handled_def handler_end_def)
  qed
qed auto

text \<open>One round keeps the account.\<close>

lemma served_quiet:
  "served st es \<Longrightarrow> \<forall>e \<in> set es'. accept_event st e \<Longrightarrow> connections es' = [] \<Longrightarrow> thread_args es' = [] \<Longrightarrow> forks es' = [] \<Longrightarrow> closed_fds es' = [] \<Longrightarrow>
   failures_reported es' \<Longrightarrow> served st (es @ es')"
  by (simp add: served_def ball_Un failures_reported_append)

lemma served_thread:
  "served st es \<Longrightarrow> \<forall>e \<in> set es'. accept_event st e \<Longrightarrow> mode st = CHR ''t'' \<Longrightarrow> connections es' = [a] \<Longrightarrow> thread_args es' = [client_of st a] \<Longrightarrow>
   forks es' = [] \<Longrightarrow> closed_fds es' = [] \<Longrightarrow> failures_reported es' \<Longrightarrow> served st (es @ es')"
  by (simp add: served_def ball_Un failures_reported_append)

lemma served_fork:
  "served st es \<Longrightarrow> \<forall>e \<in> set es'. accept_event st e \<Longrightarrow> mode st \<noteq> CHR ''t'' \<Longrightarrow> connections es' = [a] \<Longrightarrow> thread_args es' = [] \<Longrightarrow>
   forks es' = [p] \<Longrightarrow> closed_fds es' = (if 0 < p then [rv a] else []) \<Longrightarrow> served st (es @ es')"
  by (simp add: served_def ball_Un)

lemma served_events: "served st es \<Longrightarrow> e \<in> set es \<Longrightarrow> accept_event st e"
  by (simp add: served_def)

lemma served_in_order:
  "served st es \<Longrightarrow> mode st = CHR ''t'' \<Longrightarrow> \<forall>e \<in> set es'. accept_event st e \<Longrightarrow>
   connections es' = [a] \<and> prefix (thread_args es') [client_of st a] \<or> connections es' = [] \<and> thread_args es' = [] \<Longrightarrow>
   closed_fds es' = [] \<Longrightarrow> failures_reported es' \<Longrightarrow> in_order st (es @ es')"
  by (auto simp: served_def in_order_def failures_reported_append)

lemma accept_round_served:
  assumes "settings_inv st" "served st es0"
  shows "runs posix_os (accept_round st u) (round (\<lambda>_. served st) (accept_result st) es0)"
  unfolding accept_round_def Let_def free_client_args_def
proof (intro runs_call runs_if runs_say runs_eff runs_ret runs_exit, goal_cases)
  case (6 m a)
  let ?c = "(new_client st)\<lparr>c_addr := addr_text a, c_socket := rv a\<rparr>"
  note c = client_of_def [of st a, symmetric, simplified]
  show ?case
  proof (rule runs_any, rule runs_bind_weaken [OF runs_thread_management])
    fix out es
    assume "connections es = [] \<and> forks es = [] \<and> closed_fds es = [] \<and> failures_reported es \<and>
      (\<forall>e \<in> set es. accept_event (c_settings ?c) e) \<and>
      (out = Ret () \<and> thread_args es = [?c] \<or> out = Blocked \<and> prefix (thread_args es) [?c])"
    then show "after any_os (\<lambda>_. ret (Inl ())) (\<lambda>out es. round (\<lambda>_. served st) (accept_result st) es0 out
      (Sys (Mem (Malloc ''client_info'' 1)) m # Sys (Net (Accept (socket st))) a #
       Log INFO ''New connection at sock_t %d from %s''
         [AI (rv a), AS (c_addr (new_client st\<lparr>c_addr := addr_text a\<rparr>))] # es)) out es"
      using 6 served_in_order [OF assms(2)]
      by (auto simp: accept_result_def client_of_def intro: served_events [OF assms(2)]
          intro!: runs_ret served_thread [OF assms(2), where a = a])
  qed
next
  case (7 m a)
  let ?c = "(new_client st)\<lparr>c_addr := addr_text a, c_socket := rv a\<rparr>"
  let ?pre = "[Sys (Mem (Malloc ''client_info'' 1)) m, Sys (Net (Accept (socket st))) a,
     Log INFO ''New connection at sock_t %d from %s''
       [AI (rv a), AS (c_addr (new_client st\<lparr>c_addr := addr_text a\<rparr>))]]"
  let ?R = "\<lambda>out es. round (\<lambda>_. served st) (accept_result st) es0 out
     (Sys (Mem (Malloc ''client_info'' 1)) m # Sys (Net (Accept (socket st))) a #
      Log INFO ''New connection at sock_t %d from %s''
        [AI (rv a), AS (c_addr (new_client st\<lparr>c_addr := addr_text a\<rparr>))] # es)"
  have "ends_in_slash (home st)"
    using assms(1) by (simp add: settings_inv_def homedir_ok_def)
  then have home: "home (c_settings ?c) \<noteq> []"
    by (auto simp: new_client_def ends_in_slash_def)
  show ?case
  proof (rule runs_bind_weaken [OF runs_process_management [OF home]], elim disjE exE conjE)
    fix out :: "bool outcome" and es p
    assume "out = Ret False" "p \<noteq> 0" "connections es = []" "thread_args es = []" "forks es = [p]"
      "closed_fds es = (if 0 < p then [c_socket ?c] else [])" "\<forall>e \<in> set es. accept_event (c_settings ?c) e"
    then show "after posix_os (\<lambda>_. ret (Inl ())) ?R out es"
      using 7 served_fork [OF assms(2), of "?pre @ es" a p] by (auto intro!: runs_ret)
  next
    fix out :: "bool outcome" and es :: "event list"
    assume "out = Blocked" "es = []"
    then show "after posix_os (\<lambda>_. ret (Inl ())) ?R out es"
      using 7(7) assms(2) by (auto simp: accept_result_def served_def)
  next
    fix out :: "bool outcome" and es r es'
    assume child: "es = Sys (Proc Fork) r # es'" "rv r = 0" "handled ?c (ended out) es'"
    have "child_run st (ended out) (es0 @ ?pre @ es)"
      unfolding child_run_def
      by (rule conjI, rule 7(7), rule exI [of _ "es0 @ ?pre @ [Sys (Proc Fork) r]"], rule exI [of _ es'],
          rule exI [of _ a]) (use child 7 served_events [OF assms(2)] in \<open>auto simp: client_of_def\<close>)
    with child show "after posix_os (\<lambda>_. ret (Inl ())) ?R out es"
      by (cases out) (auto simp: accept_result_def handled_def handler_end_def)
  qed
next
  case 8
  then show ?case using assms(1) by (simp add: settings_inv_def mode_ok_def)
qed (use assms(2) served_in_order [OF assms(2), of "[]"] in
    \<open>auto simp: accept_result_def intro: served_events intro!: served_quiet served_in_order\<close>)

lemma runs_of_only: "only P p \<Longrightarrow> runs any_os p (\<lambda>_ _. True)"
  unfolding only_def by (erule runs_weaken) simp

lemma accept_round_consumes:
  "runs any_os (accept_round st u) (\<lambda>out es. goes_round out \<longrightarrow> 0 < calls es)"
proof -
  have "only (\<lambda>_. True) (thread_management c)" "only (\<lambda>_. True) (process_management c)" for c
    unfolding thread_management_def print_client_args_def process_management_def
    by (intro only_intros only_weaken [OF only_management_function]; simp)+
  then show ?thesis
    unfolding accept_round_def free_client_args_def Let_def
    by (intro consumes_call runs_intros runs_trivial_bind [OF runs_of_only]) auto
qed

interpretation accept_loop: loop_body "accept_round st" for st
  by unfold_locales (rule accept_round_consumes)

lemma runs_accept_wrapper:
  assumes "settings_inv st"
  shows "runs posix_os (accept_wrapper st) (accept_result st)"
  unfolding accept_wrapper_def
  by (rule accept_loop.invariant [where I = "\<lambda>_. served st", OF _ accept_round_served [OF assms]])
     (simp add: served_def)

section \<open>The size of the address\<close>

lemma addr_text_full:
  assumes "posix_os (Net (Accept fd)) a" "rv a \<noteq> - 1"
  shows "addr_text a = payload a @ '':'' @ show_int (num a)"
proof -
  from assms have a: "length (payload a) \<le> 15" "0 \<le> num a" "num a \<le> 65535" by simp_all
  then have "length (show_int (num a)) \<le> 5" by (intro show_int_port)
  with a(1) have "length (payload a @ '':'' @ show_int (num a)) < ADDR_MAXLEN"
    by (simp add: ADDR_MAXLEN_def)
  then show ?thesis unfolding addr_text_def by (rule snprintf_fits)
qed

section \<open>Properties\<close>

text \<open>
  C16: in thread mode \<^verbatim>\<open>accept_wrapper\<close> calls \<^verbatim>\<open>pthread_create\<close> exactly once for every connection that it takes,
  in the order of the connections, with its socket, its address and a copy of the settings; at every moment at
  most the last connection has no call yet. The threads that run are those of the connections whose call
  returned 0; every other call is reported as an error, and its client is left alone: the server closes none of the
  sockets. The function returns when \<^verbatim>\<open>accept\<close> fails and ends the process only when memory is exhausted.
\<close>

theorem every_connection_gets_one_thread:
  assumes "settings_inv st" "mode st = CHR ''t''"
  shows "runs posix_os (accept_wrapper st) (\<lambda>out es.
     out \<in> {Ret True, Exit 5, Blocked} \<and>
     prefix (map fst (thread_calls es)) (map (client_of st) (connections es)) \<and>
     length (connections es) \<le> length (thread_calls es) + (if out = Blocked then 1 else 0) \<and>
     threads es = map (client_of st \<circ> fst)
       (filter (\<lambda>(a, k). k = 0) (zip (connections es) (map snd (thread_calls es)))) \<and>
     thread_errors es = length (filter (\<lambda>(c, k). k \<noteq> 0) (thread_calls es)) \<and>
     closed_fds es = [])"
proof (rule runs_weaken [OF runs_accept_wrapper [OF assms(1)]])
  fix out es
  assume "accept_result st out es"
  moreover have "\<not> child_run st (ended out) es" using assms(2) by (simp add: child_run_def)
  ultimately have account: "out \<in> {Ret True, Exit 5, Blocked}"
     "prefix (thread_args es) (map (client_of st) (connections es))"
     "length (connections es) \<le> length (thread_calls es) + (if out = Blocked then 1 else 0)"
     "failures_reported es" "closed_fds es = []"
    using assms(2) by (auto simp: accept_result_def served_def in_order_def dest: arg_cong [where f = length])
  with calls_of_connections [OF account(2), of "\<lambda>k. k = 0"]
  show "out \<in> {Ret True, Exit 5, Blocked} \<and>
     prefix (map fst (thread_calls es)) (map (client_of st) (connections es)) \<and>
     length (connections es) \<le> length (thread_calls es) + (if out = Blocked then 1 else 0) \<and>
     threads es = map (client_of st \<circ> fst)
       (filter (\<lambda>(a, k). k = 0) (zip (connections es) (map snd (thread_calls es)))) \<and>
     thread_errors es = length (filter (\<lambda>(c, k). k \<noteq> 0) (thread_calls es)) \<and>
     closed_fds es = []"
    by (simp add: failures_reported_def threads_def)
qed

theorem every_connection_gets_one_thread_witness:
  "runs posix_os (accept_wrapper example_settings) (\<lambda>out es.
     prefix (map fst (thread_calls es)) (map (client_of example_settings) (connections es)) \<and> closed_fds es = [])"
proof -
  have t: "mode example_settings = CHR ''t''" by (simp add: example_settings_def)
  show ?thesis
    by (rule runs_weaken [OF every_connection_gets_one_thread [OF example_settings_inv t]]) simp
qed

text \<open>
  C17: in process mode the server forks once for every connection and closes its own copy of the
  socket, unless the \<^verbatim>\<open>fork\<close> failed (then that socket stays open); the child process runs the
  handler of the connection it was forked for, and never comes back to the accept loop.
\<close>

theorem every_connection_gets_one_process:
  assumes "settings_inv st" "mode st = CHR ''p''"
  shows "runs posix_os (accept_wrapper st) (\<lambda>out es.
     out = Blocked \<or>
     (out \<in> {Ret True, Exit 5} \<and> length (forks es) = length (connections es) \<and>
      closed_fds es = map (rv \<circ> fst) (filter (\<lambda>(a, pid). 0 < pid) (zip (connections es) (forks es)))) \<or>
     (\<exists>es1 es2. es = es1 @ es2 \<and> forks es1 \<noteq> [] \<and> last (forks es1) = 0 \<and>
        handled (client_of st (last (connections es1))) (ended out) es2))"
proof (rule runs_weaken [OF runs_accept_wrapper [OF assms(1)]])
  fix out es
  assume "accept_result st out es"
  then consider "out = Blocked" | "out \<in> {Ret True, Exit 5}" "served st es" | "child_run st (ended out) es"
    by (auto simp: accept_result_def)
  then show "out = Blocked \<or>
     (out \<in> {Ret True, Exit 5} \<and> length (forks es) = length (connections es) \<and>
      closed_fds es = map (rv \<circ> fst) (filter (\<lambda>(a, pid). 0 < pid) (zip (connections es) (forks es)))) \<or>
     (\<exists>es1 es2. es = es1 @ es2 \<and> forks es1 \<noteq> [] \<and> last (forks es1) = 0 \<and>
        handled (client_of st (last (connections es1))) (ended out) es2)"
  proof cases
    case 3
    then show ?thesis unfolding child_run_def by blast
  qed (use assms(2) in \<open>simp_all add: served_def\<close>)
qed

theorem every_connection_gets_one_process_witness:
  "runs posix_os (accept_wrapper (example_settings\<lparr>mode := CHR ''p''\<rparr>)) (\<lambda>out es.
     out \<in> {Blocked, Ret True, Exit 5} \<or> 0 \<in> set (forks es))"
proof -
  let ?st = "example_settings\<lparr>mode := CHR ''p''\<rparr>"
  have p: "settings_inv ?st" "mode ?st = CHR ''p''"
    by (simp_all add: settings_inv_mode example_settings_inv mode_ok_def)
  show ?thesis
  proof (rule runs_weaken [OF every_connection_gets_one_process [OF p]], goal_cases)
    case (1 out es)
    then show ?case by (auto dest: last_in_set)
  qed
qed

text \<open>
  The address of a client is never cut by the 22 bytes of its array: it is the dotted address,
  a colon and the decimal port.
\<close>

theorem client_address_fits:
  assumes "posix_os (Net (Accept fd)) a" "rv a \<noteq> - 1"
  shows "c_addr (client_of st a) = payload a @ '':'' @ show_int (num a) \<and>
    length (c_addr (client_of st a)) < ADDR_MAXLEN"
proof -
  have "length (addr_text a) \<le> ADDR_MAXLEN - 1" unfolding addr_text_def by (rule snprintf_length)
  then show ?thesis
    using addr_text_full [OF assms] by (simp add: client_of_def ADDR_MAXLEN_def)
qed

theorem client_address_fits_witness:
  "c_addr (client_of example_settings ((plain_reply 4)\<lparr>payload := ''255.255.255.255'', num := 65535\<rparr>))
     = ''255.255.255.255:65535''"
proof -
  let ?a = "(plain_reply 4)\<lparr>payload := ''255.255.255.255'', num := 65535\<rparr>"
  have a: "posix_os (Net (Accept 3)) ?a" "rv ?a \<noteq> - 1"
    by (simp_all add: plain_reply_def)
  show ?thesis
    using client_address_fits [OF a, of example_settings]
    by (simp add: show_int_def show_nat.simps digit_char_def plain_reply_def)
qed

text \<open>
  The receive buffer of the socket: \<^verbatim>\<open>setsockopt\<close> reads the first four of the six bytes it is
  given, the characters \<^verbatim>\<open>6553\<close>, as a number.
\<close>

lemma recvbuf_is_not_65536: "bytes_int (take 4 (S_SOCK_RECVBUF_LEN @ [NUL])) = 859125046"
  by (simp add: S_SOCK_RECVBUF_LEN_def bytes_int_def)

end
