(* ===== verification/Startup.thy ===== *)
theory Startup
  imports Listener Config
begin

text \<open>
  The stages of \<^verbatim>\<open>main\<close> before the server loop (server/sacagawea.c, Linux build): the settings
  and the command line, \<^verbatim>\<open>become_daemon\<close>, the shared memory with the mutex and the condition
  variable, the pipe and the logger process, the signal handlers; and \<^verbatim>\<open>close_all\<close>. The global
  variables that \<^verbatim>\<open>close_all\<close> reads are a record. \<^verbatim>\<open>fork\<close> returns in both processes: the run goes
  on as the process that the reply selects.
\<close>

section \<open>Global variables and the end of the server\<close>

record globals =
  g_settings :: "settings_t option"
  g_condVar :: bool
  g_logProcess :: int
  g_logs_proces_pid :: int

text \<open>\<^verbatim>\<open>"System call f() failed because of %s"\<close>.\<close>

definition because :: "string \<Rightarrow> string" where
  "because f = ''System call '' @ f @ ''() failed because of %s''"

definition close_all :: "globals \<Rightarrow> 'a prog" where
  "close_all g =
     say INFO ''Gracefully closing the server...'' []
     (case g_settings g of
        None \<Rightarrow> crash ''settings->socket of the null pointer''
      | Some st \<Rightarrow>
          call (File (CloseFd (socket st))) (\<lambda>r.
          say_if (rv r = - 1) ERROR (because ''close'') [AE (errno r)]
          (call (Proc (Kill (g_logProcess g) ''15'')) (\<lambda>r.
           say_if (rv r = - 1) ERROR (because ''kill'') [AE (errno r)]
           (if \<not> g_condVar g then crash ''condVar->pipe_conf of the null pointer''
            else
              call (File (ClosePipe 1)) (\<lambda>r.
              say_if (rv r = - 1) ERROR (because ''close'') [AE (errno r)]
              (call (Proc (Kill (g_logs_proces_pid g) ''SIGTERM'')) (\<lambda>r.
               say_if (rv r = - 1) ERROR (because ''kill'') [AE (errno r)]
               (call (Proc ShmUnlink) (\<lambda>r.
                say_if (rv r = - 1) ERROR (because ''shm_unlink'') [AE (errno r)]
                (eff (Mem (Free ''settings'')) (exit 1))))))))))))"

text \<open>A call whose failure is logged and ends the process.\<close>

definition need :: "call \<Rightarrow> (reply \<Rightarrow> bool) \<Rightarrow> (reply \<Rightarrow> 'a prog) \<Rightarrow> 'a prog \<Rightarrow> 'a prog" where
  "need c failed abandon p = call c (\<lambda>r. if failed r then abandon r else p)"

section \<open>The daemon\<close>

definition become_daemon :: "unit prog" where
  "become_daemon =
     call (Proc Fork) (\<lambda>pid.
     if rv pid < 0 then say ERROR (because ''fork'') [AE (errno pid)] (exit 1)
     else if rv pid > 0 then exit 0
     else
       need (Proc Setsid) (\<lambda>r. rv r < 0) (\<lambda>r. say ERROR (because ''setsid'') [AE (errno r)] (exit 1))
       (need (Proc (IgnoreSignal ''SIGHUP'')) (\<lambda>r. rv r = - 1)
          (\<lambda>r. say ERROR ''Signal() failed because of %s'' [AE (errno r)] (exit 1))
       (call (Proc Fork) (\<lambda>pid.
        if rv pid < 0 then say ERROR (because ''setsid'') [AE (errno pid)] (exit 1)
        else if rv pid > 0 then say INFO ''Sacagawea daemon at pid: %d'' [AI (rv pid)] (exit 0)
        else
          need (Proc (Chdir ''./'')) (\<lambda>r. rv r < 0) (\<lambda>r. say ERROR (because ''chdir'') [AE (errno r)] (exit 1))
          (eff (Proc (Umask 23))
          (need (File (CloseFd 0)) (\<lambda>r. rv r = - 1) (\<lambda>r. say ERROR (because ''close'') [AE (errno r)] (exit 1))
          (need (File (CloseFd 1)) (\<lambda>r. rv r = - 1) (\<lambda>r. say ERROR (because ''close'') [AE (errno r)] (exit 1))
          (need (File (CloseFd 2)) (\<lambda>r. rv r = - 1) (\<lambda>r. say ERROR (because ''close'') [AE (errno r)] (exit 1))
          (need (File (OpenDevNull ''O_RDONLY'')) (\<lambda>r. rv r = - 1)
             (\<lambda>r. say ERROR ''failed to reopen stdin while daemonising (errno=%d)'' [AI (errno r)] (exit 1))
          (need (File (OpenDevNull ''O_WRONLY'')) (\<lambda>r. rv r = - 1)
             (\<lambda>r. say ERROR ''failed to reopen stdout while daemonising (errno=%d)'' [AI (errno r)] (exit 1))
          (need (File (OpenDevNull ''O_RDWR'')) (\<lambda>r. rv r = - 1)
             (\<lambda>r. say ERROR ''failed to reopen stderr while daemonising (errno=%d)'' [AI (errno r)] (exit 1))
          (ret ()))))))))))))"

section \<open>The settings\<close>

definition no_globals :: globals where
  "no_globals = \<lparr>g_settings = None, g_condVar = False, g_logProcess = 0, g_logs_proces_pid = 0\<rparr>"

text \<open>
  The default settings: the working directory with a slash, and the host name. The arrays come
  from \<^verbatim>\<open>calloc\<close>; a host name that does not fit is stored without its end.
\<close>

definition default_settings :: "settings_t prog" where
  "default_settings =
     call (Mem (Malloc ''settings'' 1)) (\<lambda>m.
     if rv m = 0 then say ERROR ''calloc of settings failed'' [] (close_all no_globals)
     else
       let st = \<lparr>port = DEFAULT_SERVER_PORT, socket = 0, mode = CHR ''t'',
                 homedir = zeroed PATH_MAX [], hostname = zeroed HOSTNAME_LEN []\<rparr> in
       call (Proc (Getcwd (PATH_MAX - 1))) (\<lambda>cwd.
       if rv cwd = 0 then
         say ERROR ''getcwd failed: %d'' [AE (errno cwd)] (close_all (no_globals\<lparr>g_settings := Some st\<rparr>))
       else
         let st = st\<lparr>homedir := append_slash (zeroed PATH_MAX (payload cwd))\<rparr> in
         call (Proc (Gethostname (HOSTNAME_LEN - 1))) (\<lambda>r.
         let st = st\<lparr>hostname := zeroed HOSTNAME_LEN (payload r)\<rparr> in
         if rv r \<noteq> 0 then
           say WARNING ''gethostname failed: %d'' [AE (errno r)]
           (ret (st\<lparr>hostname := strncpy (hostname st) ''localhost'' 10\<rparr>))
         else ret st)))"

section \<open>The command line\<close>

text \<open>\<^verbatim>\<open>atoi\<close>: \<^verbatim>\<open>strtol\<close>, which stops at the bounds of \<^verbatim>\<open>long\<close>, cut down to an \<^verbatim>\<open>int\<close>.\<close>

definition to_int :: "int \<Rightarrow> int" where
  "to_int n = (n + 2 ^ 31) mod 2 ^ 32 - 2 ^ 31"

definition strtol :: "string \<Rightarrow> int" where
  "strtol s =
     (let s = dropWhile isspace s;
          digits = (if s \<noteq> [] \<and> (hd s = CHR ''-'' \<or> hd s = CHR ''+'') then tl s else s);
          n = int (digits_val (takeWhile isdigit digits));
          n = (if s \<noteq> [] \<and> hd s = CHR ''-'' then - n else n)
      in max (- (2 ^ 63)) (min (2 ^ 63 - 1) n))"

definition atoi :: "string \<Rightarrow> int" where
  "atoi s = to_int (strtol s)"

definition usage :: string where
  "usage = ''Usage: sacagawea [-P number_of_port][-p/-t for use subprocess/threads to handle client connections][-d enable debug mode (don'' @ [QUOTE] @ ''t become a daemon)]''"

definition option_round :: "settings_t \<times> bool \<Rightarrow> (settings_t \<times> bool + settings_t \<times> bool) prog" where
  "option_round s =
     (let (st, debug_mode) = s in
      call (Proc Getopt) (\<lambda>c.
      if rv c = - 1 then ret (Inr (st, debug_mode))
      else if rv c = of_char (CHR ''p'') then
        say INFO (''mode change: '' @ [QUOTE, CHR ''p'', QUOTE]) [] (ret (Inl (st\<lparr>mode := CHR ''p''\<rparr>, debug_mode)))
      else if rv c = of_char (CHR ''P'') then
        (let st = st\<lparr>port := atoi (payload c)\<rparr> in
         say INFO ''port change: %d'' [AI (port st)] (ret (Inl (st, debug_mode))))
      else if rv c = of_char (CHR ''t'') then
        say INFO (''mode change: '' @ [QUOTE, CHR ''t'', QUOTE]) [] (ret (Inl (st\<lparr>mode := CHR ''t''\<rparr>, debug_mode)))
      else if rv c = of_char (CHR ''d'') then
        say INFO (''debug mode (AKA \"dont become a daemon\" mode) is on'') [] (ret (Inl (st, True)))
      else if rv c = of_char (CHR ''?'') then say INFO usage [] (exit 20)
      else ret (Inl (st, debug_mode))))"

definition read_options :: "settings_t \<Rightarrow> (settings_t \<times> bool) prog" where
  "read_options st = loop option_round (st, False)"

section \<open>Shared memory and the logger\<close>

text \<open>
  The shared struct: memory, counter, mutex and condition variable for several processes, and
  the pipe. 16 and 22 are \<^verbatim>\<open>EBUSY\<close> and \<^verbatim>\<open>EINVAL\<close>.
\<close>

definition shared_memory :: "unit prog" where
  "shared_memory =
     need (Proc ShmOpen) (\<lambda>r. rv r < 0) (\<lambda>r. say ERROR (because ''shm_open'') [AE (errno r)] (exit 5))
     (need (Proc Ftruncate) (\<lambda>r. rv r \<noteq> 0) (\<lambda>r. say ERROR (because ''ftruncate'') [AE (errno r)] (exit 5))
     (need (Proc MmapShared) (\<lambda>r. rv r = - 1) (\<lambda>r. say ERROR (because ''mmap'') [AE (errno r)] (exit 5))
     (eff (Thread ContReset)
     (need (Thread CondattrShared) (\<lambda>r. rv r \<noteq> 0) (\<lambda>r. say ERROR ''pthread_condattr_setpshared() failed '' [] (exit 5))
     (need (Thread MutexattrShared) (\<lambda>r. rv r \<noteq> 0) (\<lambda>r. say ERROR ''pthread_muteattr_setpshared() failed '' [] (exit 5))
     (need (Thread MutexInit) (\<lambda>r. rv r \<noteq> 0) (\<lambda>r. say ERROR ''pthread_mutex_init() failed '' [] (exit 5))
     (need (Thread CondInit) (\<lambda>r. rv r \<noteq> 0) (\<lambda>r. say ERROR ''pthread_cond_init() failed '' [] (exit 5))
     (call (Thread CondattrDestroy) (\<lambda>r.
      say_if (rv r = 16 \<or> rv r = 22) ERROR ''pthread_condattr_destroy(&cattr); failed becouse %d'' [AI (rv r)]
      (call (Thread MutexattrDestroy) (\<lambda>r.
       say_if (rv r \<noteq> 0) ERROR ''pthread_mutexattr_destroy(&mattr); failed becouse %d'' [AI (rv r)]
       (need (Proc PipeCreate) (\<lambda>r. rv r \<noteq> 0) (\<lambda>r. say ERROR (because ''pipe'') [AE (errno r)] (exit 5))
        (ret ())))))))))))))"

text \<open>The logger process runs \<open>log_management\<close> and never goes on to serve.\<close>

definition start_logger :: "int \<Rightarrow> settings_t \<Rightarrow> globals prog" where
  "start_logger garbage st =
     call (Proc Fork) (\<lambda>pid.
     if rv pid < 0 then say ERROR (because ''fork'') [AE (errno pid)] (exit 5)
     else if rv pid = 0 then
       need (File (ClosePipe 1)) (\<lambda>r. rv r = - 1) (\<lambda>r. say ERROR (because ''close'') [AE (errno r)] (exit 1))
       (bind (log_management garbage) (\<lambda>_. exit 0))
     else
       let g = \<lparr>g_settings = Some st, g_condVar = True, g_logProcess = rv pid, g_logs_proces_pid = 0\<rparr> in
       need (File (ClosePipe 0)) (\<lambda>r. rv r = - 1) (\<lambda>r. say ERROR (because ''close'') [AE (errno r)] (close_all g))
       (ret (g\<lparr>g_logs_proces_pid := rv pid\<rparr>)))"

section \<open>Signals\<close>

definition add_signals :: "globals \<Rightarrow> (string \<times> string) list \<Rightarrow> 'a prog \<Rightarrow> 'a prog" where
  "add_signals g sigs p =
     need (Proc Sigemptyset) (\<lambda>r. rv r = - 1) (\<lambda>r. say ERROR ''sigemptyset() failed'' [] (close_all g))
     (foldr (\<lambda>(s, msg) p. need (Proc (Sigaddset s)) (\<lambda>r. rv r = - 1) (\<lambda>r. say ERROR msg [] (close_all g)) p) sigs p)"

definition set_action :: "globals \<Rightarrow> string \<Rightarrow> 'a prog \<Rightarrow> 'a prog" where
  "set_action g s p =
     need (Proc (Sigaction s)) (\<lambda>r. rv r < 0) (\<lambda>r. say ERROR (because ''sigaction'') [AE (errno r)] (close_all g)) p"

text \<open>SIGHUP runs \<^verbatim>\<open>sighup_handler\<close>; the five signals that would end the process run \<^verbatim>\<open>close_all\<close>.\<close>

definition install_signals :: "globals \<Rightarrow> unit prog" where
  "install_signals g =
     add_signals g [(''SIGHUP'', ''sigaddset() for SIGHUP failed'')]
     (set_action g ''SIGHUP''
     (add_signals g
       [(''SIGHUP'', ''sigaddset() for SIGHUP failed''), (''SIGINT'', ''sigaddset() failed''),
        (''SIGTERM'', ''sigaddset() for SIGTERM failed''), (''SIGALRM'', ''sigaddset() for SIGALRM failed''),
        (''SIGUSR1'', ''sigaddset() for SIGUSR1 failed''), (''SIGUSR2'', ''sigaddset() for SIGUSR2 failed'')]
     (set_action g ''SIGINT''
     (set_action g ''SIGTERM''
     (set_action g ''SIGALRM''
     (set_action g ''SIGUSR1''
     (set_action g ''SIGUSR2'' (ret ()))))))))"

section \<open>What the stages do\<close>

lemma keeps_need [keeps_intros]:
  "(\<And>r. posix_os c r \<Longrightarrow> P (Sys c r)) \<Longrightarrow> (\<And>r. posix_os c r \<Longrightarrow> failed r \<Longrightarrow> keeps P Q (abandon r)) \<Longrightarrow>
   keeps P Q p \<Longrightarrow> keeps P Q (need c failed abandon p)"
  unfolding need_def by (intro keeps_call keeps_if)

lemma runs_need [runs_intros]:
  "R Blocked [] \<Longrightarrow> (\<And>r. C c r \<Longrightarrow> failed r \<Longrightarrow> runs C (abandon r) (\<lambda>out es. R out (Sys c r # es))) \<Longrightarrow>
   (\<And>r. C c r \<Longrightarrow> \<not> failed r \<Longrightarrow> runs C p (\<lambda>out es. R out (Sys c r # es))) \<Longrightarrow>
   runs C (need c failed abandon p) R"
  unfolding need_def by (intro runs_call runs_if)

lemma only_need [only_intros]:
  "(\<And>r. P (Sys c r)) \<Longrightarrow> (\<And>r. failed r \<Longrightarrow> only P (abandon r)) \<Longrightarrow> only P p \<Longrightarrow> only P (need c failed abandon p)"
  unfolding need_def by (intro only_call only_if)

text \<open>Before the server loop no connection is touched, no file of a client is opened, no command is
  run and no thread is started.\<close>

fun startup_event :: "event \<Rightarrow> bool" where
  "startup_event (Sys (Net n) r) = False"
| "startup_event (Sys (File (OpenRdwr p)) r) = False"
| "startup_event (Sys (File (Popen p)) r) = False"
| "startup_event (Sys (Thread (ThreadCreate n c)) r) = False"
| "startup_event e = True"

lemma only_close_all: "only startup_event (close_all g)"
  unfolding close_all_def
  by (intro only_intros) simp_all

lemma keeps_close_all [keeps_intros]: "keeps startup_event Q (close_all g)"
proof -
  have "runs posix_os (close_all g) (\<lambda>out es. \<forall>a. out \<noteq> Ret a)"
    unfolding close_all_def by (intro runs_intros) simp_all
  moreover have "runs posix_os (close_all g) (\<lambda>out es. \<forall>e \<in> set es. startup_event e)"
    using only_close_all by (auto simp: only_def intro: runs_any)
  ultimately show ?thesis
    unfolding keeps_def by (rule runs_weaken [OF runs_conj]) auto
qed

text \<open>Reading the configuration touches memory, the file and the directories it names.\<close>

fun conf_event :: "event \<Rightarrow> bool" where
  "conf_event (Sys (Mem m) r) = True"
| "conf_event (Sys (File (FopenRead p)) r) = True"
| "conf_event (Sys (File (Fgets n)) r) = True"
| "conf_event (Sys (File (Opendir p)) r) = True"
| "conf_event (Sys _ r) = False"
| "conf_event (Eff c) = (c = File Closedir \<or> c = File Fclose \<or> c \<in> range Mem)"
| "conf_event (Log l s a) = True"

lemma only_conf_event: "only conf_event (read_and_check_conf st h)"
proof -
  have regex: "only conf_event (do_regex p l)" for p l
    unfolding do_regex_def by (intro only_intros) simp_all
  have "only conf_event (read_conf_mode l st)" "only conf_event (read_conf_homedir l st)"
    "only conf_event (read_conf_hostname l st)" "only conf_event (check_if_port_change l st)" for l st
    unfolding read_conf_mode_def read_conf_homedir_def read_conf_hostname_def check_if_port_change_def
    by (intro only_intros regex; simp)+
  note parts = this
  have "only conf_event (conf_round h s)" for s
    unfolding conf_round_def use_line_def read_conf_line_def by (intro only_intros parts) simp_all
  then show ?thesis
    unfolding read_and_check_conf_def
    by (intro only_intros conf_loop.only_loop) simp_all
qed

lemma conf_event_startup: "conf_event e \<Longrightarrow> startup_event e"
  by (cases e rule: startup_event.cases) simp_all

lemma only_read_and_check_conf: "only startup_event (read_and_check_conf st h)"
  by (rule only_weaken [OF only_conf_event conf_event_startup])

lemma only_log_management: "only startup_event (log_management n)"
proof -
  have exit: "only startup_event (log_management_exit k)" for k
    unfolding log_management_exit_def by (intro only_intros) simp_all
  have body: "only startup_event (body_round n s)" for n s
    unfolding body_round_def by (intro only_intros exit) simp_all
  have rec: "only startup_event (read_record n)" for n
    unfolding read_record_def Let_def
    by (intro only_intros exit body_loop.only_loop body) simp_all
  have cont: "only startup_event (cont_round n)" for n
    unfolding cont_round_def by (intro only_intros rec) simp_all
  have wait: "only startup_event (wait_round n)" for n
    unfolding wait_round_def by (intro only_intros exit cont_loop.only_loop cont) simp_all
  show ?thesis
    unfolding log_management_def by (intro only_intros wait_loop.only_loop wait) simp_all
qed

text \<open>The settings are well-formed from the start, and neither file nor command line breaks them.\<close>

text \<open>
  The slash behind a string that leaves room for it. The second store is two places behind the
  string: with a string of \<open>n - 2\<close> characters it is one place behind the array.
\<close>

lemma append_slash_zeroed:
  assumes "NUL \<notin> set s" "length s + 1 < n"
  shows "append_slash (zeroed n s) = zeroed n (s @ ''/'')"
proof -
  obtain k where k: "n - length s = Suc (Suc k)"
    using assms(2) by (metis Suc_diff_Suc add_lessD1 less_diff_conv2 nat_less_le Suc_eq_plus1 zero_less_diff less_Suc_eq_0_disj)
  then have k': "n - length (s @ ''/'') = Suc k" by simp
  have z: "zeroed n s = s @ NUL # NUL # replicate k NUL" "zeroed n (s @ ''/'') = (s @ ''/'') @ NUL # replicate k NUL"
    unfolding zeroed_def k k' by simp_all
  have "length (cstr (zeroed n s)) = length s"
    using assms(1) by simp
  moreover have "(s @ NUL # NUL # replicate k NUL)[length s := CHR ''/''] = (s @ ''/'') @ NUL # replicate k NUL"
    by simp
  moreover have "length (cstr ((s @ ''/'') @ NUL # replicate k NUL)) = length (s @ ''/'')"
    using assms(1) by (subst cstr_append_NUL) simp_all
  moreover have "((s @ ''/'') @ NUL # replicate k NUL)[length (s @ ''/'') + 1 := NUL] = (s @ ''/'') @ NUL # replicate k NUL"
    by (cases k) (simp_all add: list_update_append)
  ultimately show ?thesis
    unfolding append_slash_def Let_def z by simp
qed

definition first_settings :: "string \<Rightarrow> string \<Rightarrow> settings_t" where
  "first_settings cwd name = \<lparr>port = 7070, socket = 0, mode = CHR ''t'',
     homedir = zeroed PATH_MAX (cwd @ ''/''), hostname = name\<rparr>"

lemma first_settings_inv:
  assumes "NUL \<notin> set cwd" "length cwd + 1 < PATH_MAX" "hostname_ok name"
  shows "settings_inv (first_settings cwd name)"
proof -
  have "homedir_ok (zeroed PATH_MAX (cwd @ ''/''))"
    using assms(1,2) by (intro homedir_ok_zeroed) (simp_all add: ends_in_slash_def)
  with assms(3) show ?thesis by (simp add: settings_inv_def first_settings_def mode_ok_def)
qed

lemma hostname_ok_payload:
  assumes "length p \<le> 255"
  shows "hostname_ok (zeroed HOSTNAME_LEN p)" "hostname_ok (strncpy (zeroed HOSTNAME_LEN p) ''localhost'' 10)"
proof -
  show 1: "hostname_ok (zeroed HOSTNAME_LEN p)"
    using assms by (intro hostname_ok_zeroed) (simp add: HOSTNAME_LEN_def)
  then show "hostname_ok (strncpy (zeroed HOSTNAME_LEN p) ''localhost'' 10)"
    by (simp add: hostname_ok_def strncpy_length strncpy_def HOSTNAME_LEN_def nth_append)
qed

lemma runs_default_settings:
  "runs posix_os default_settings (\<lambda>out es.
     case out of
       Ret st \<Rightarrow> lines_read es = [] \<and> (\<exists>r name. Sys (Proc (Getcwd 4095)) r \<in> set es \<and> hostname_ok name \<and>
         length (payload r) < 4095 \<and> NUL \<notin> set (payload r) \<and> st = first_settings (payload r) name)
     | Exit n \<Rightarrow> False
     | ThreadExit \<Rightarrow> False
     | Crash m \<Rightarrow> True
     | Blocked \<Rightarrow> True)"
proof -
  have close: "runs posix_os (close_all g) R"
    if "g_settings g = None \<or> \<not> g_condVar g" "\<And>m es. R (Crash m) es" "\<And>es. R Blocked es" for g R
    using that unfolding close_all_def by (auto intro!: runs_intros split: option.splits)
  have home: "append_slash (zeroed PATH_MAX p) = zeroed PATH_MAX (p @ ''/'')"
    if "length p < 4095" "NUL \<notin> set p" for p
    using that by (intro append_slash_zeroed) (simp_all add: PATH_MAX_def)
  show ?thesis
    unfolding default_settings_def Let_def
    by (intro runs_intros close)
       (auto simp: no_globals_def first_settings_def const_defs home [unfolded PATH_MAX_def]
          intro: hostname_ok_payload [unfolded HOSTNAME_LEN_def])
qed

text \<open>The command line is a sequence of options; each changes the settings or the debug mode.\<close>

fun options_read :: "event list \<Rightarrow> (int \<times> string) list" where
  "options_read (Sys (Proc Getopt) r # es) = (if rv r = - 1 then [] else [(rv r, payload r)]) @ options_read es"
| "options_read (e # es) = options_read es"
| "options_read [] = []"

lemma options_read_append [simp]: "options_read (es @ es') = options_read es @ options_read es'"
  by (induction es rule: options_read.induct) auto

definition apply_option :: "settings_t \<times> bool \<Rightarrow> int \<times> string \<Rightarrow> settings_t \<times> bool" where
  "apply_option s opt =
     (if fst opt = 112 then ((fst s)\<lparr>mode := CHR ''p''\<rparr>, snd s)
      else if fst opt = 116 then ((fst s)\<lparr>mode := CHR ''t''\<rparr>, snd s)
      else if fst opt = 80 then ((fst s)\<lparr>port := atoi (snd opt)\<rparr>, snd s)
      else if fst opt = 100 then (fst s, True)
      else s)"

definition option_result :: "settings_t \<Rightarrow> (settings_t \<times> bool) outcome \<Rightarrow> event list \<Rightarrow> bool" where
  "option_result st out es \<longleftrightarrow>
     (out = Ret (foldl apply_option (st, False) (options_read es)) \<and> 63 \<notin> fst ` set (options_read es)) \<or>
     (out = Exit 20 \<and> 63 \<in> fst ` set (options_read es)) \<or> out = Blocked"

lemma option_round_consumes: "runs any_os (option_round s) (\<lambda>out es. goes_round out \<longrightarrow> 0 < calls es)"
  unfolding option_round_def by (intro runs_intros) simp_all

interpretation option_loop: loop_body option_round
  by unfold_locales (rule option_round_consumes)

lemma option_round_applies:
  assumes "s = foldl apply_option (st, False) (options_read es0)" "63 \<notin> fst ` set (options_read es0)"
  shows "runs C (option_round s) (round (\<lambda>s es. s = foldl apply_option (st, False) (options_read es) \<and>
     63 \<notin> fst ` set (options_read es)) (option_result st) es0)"
  unfolding option_round_def Let_def
  by (intro runs_intros) (use assms in \<open>auto simp: option_result_def apply_option_def\<close>)

lemma runs_read_options: "runs C (read_options st) (option_result st)"
  unfolding read_options_def
  by (rule option_loop.invariant [OF _ option_round_applies]) auto

text \<open>
  The first call of \<^verbatim>\<open>getopt\<close> tells the configuration file that \<^verbatim>\<open>main\<close> reads from the readings of SIGHUP: all that
  was read before it is the first reading.
\<close>

fun is_getopt :: "event \<Rightarrow> bool" where
  "is_getopt (Sys (Proc Getopt) r) = True"
| "is_getopt e = False"

definition before_options :: "event list \<Rightarrow> event list" where
  "before_options es = takeWhile (\<lambda>e. \<not> is_getopt e) es"

lemma before_options_cut:
  assumes "\<forall>e \<in> set es. \<not> is_getopt e" "es' \<noteq> []" "is_getopt (hd es')"
  shows "before_options (es @ es') = es"
  using assms by (cases es') (simp_all add: before_options_def takeWhile_append2)

lemma before_options_more: "list_ex is_getopt es \<Longrightarrow> before_options (es @ es') = before_options es"
  by (auto simp: before_options_def list_ex_iff intro: takeWhile_append1)

definition getopt_first :: "'a outcome \<Rightarrow> event list \<Rightarrow> bool" where
  "getopt_first out es \<longleftrightarrow> (es = [] \<or> is_getopt (hd es)) \<and> ((\<exists>a. out = Ret a) \<longrightarrow> es \<noteq> [])"

lemma runs_read_options_first: "runs C (read_options st) getopt_first"
  unfolding read_options_def
proof (rule option_loop.invariant [where I = "\<lambda>_ es. es = [] \<or> is_getopt (hd es)"])
  fix s :: "settings_t \<times> bool" and es0
  assume "es0 = [] \<or> is_getopt (hd es0)"
  then show "runs C (option_round s) (round (\<lambda>_ es. es = [] \<or> is_getopt (hd es)) getopt_first es0)"
    unfolding option_round_def Let_def
    by (intro runs_intros) (auto simp: getopt_first_def hd_append)
qed simp

lemma default_settings_before_options: "only (\<lambda>e. \<not> is_getopt e) default_settings"
  unfolding default_settings_def close_all_def by (intro only_intros) simp_all

lemma conf_before_options: "conf_event e \<Longrightarrow> \<not> is_getopt e"
  by (cases e rule: conf_event.cases) simp_all

lemma only_read_options: "only startup_event (read_options st)"
  unfolding read_options_def option_round_def Let_def
  by (intro option_loop.only_loop [unfolded option_round_def Let_def] only_intros) simp_all

lemma apply_option_inv: "settings_inv (fst s) \<Longrightarrow> settings_inv (fst (apply_option s opt))"
  by (simp add: apply_option_def settings_inv_mode mode_ok_def)

lemma apply_options_inv: "settings_inv (fst s) \<Longrightarrow> settings_inv (fst (foldl apply_option s opts))"
  by (induction opts arbitrary: s) (simp_all add: apply_option_inv)

section \<open>The stages keep the settings well-formed\<close>

lemma only_default_settings: "only startup_event default_settings"
  unfolding default_settings_def by (intro only_intros only_close_all) simp_all

lemma keeps_default_settings: "keeps startup_event settings_inv default_settings"
proof (rule keeps_runs [OF runs_only [OF runs_default_settings only_default_settings]], goal_cases)
  case (1 out es)
  then show ?case
    by (cases out) (auto intro!: first_settings_inv simp: PATH_MAX_def)
qed

lemma keeps_read_and_check_conf:
  assumes "settings_inv st"
  shows "keeps startup_event (\<lambda>(changed, st'). settings_inv st') (read_and_check_conf st h)"
proof (rule keeps_runs [OF runs_only [OF runs_read_and_check_conf only_read_and_check_conf]], goal_cases)
  case (1 out es)
  then show ?case
    using assms lines_read_no_NUL by (auto simp: conf_result_def intro!: conf_lines_inv)
qed

lemma keeps_read_options:
  assumes "settings_inv st"
  shows "keeps startup_event (\<lambda>(st', debug_mode). settings_inv st') (read_options st)"
proof (rule keeps_runs [OF runs_only [OF runs_read_options only_read_options]], goal_cases)
  case (1 out es)
  then show ?case
    using assms apply_options_inv [of "(st, False)" "options_read es"]
    by (cases "foldl apply_option (st, False) (options_read es)") (auto simp: option_result_def)
qed

lemma only_become_daemon: "only startup_event become_daemon"
  unfolding become_daemon_def by (intro only_intros) simp_all

lemma only_shared_memory: "only startup_event shared_memory"
  unfolding shared_memory_def by (intro only_intros) simp_all

lemma only_add_signals: "only startup_event p \<Longrightarrow> only startup_event (add_signals g sigs p)"
  unfolding add_signals_def
  by (intro only_intros only_close_all; (induction sigs)?) (auto intro!: only_intros only_close_all)

lemma only_install_signals: "only startup_event (install_signals g)"
  unfolding install_signals_def set_action_def
  by (intro only_add_signals only_intros only_close_all) simp_all

definition with_logger :: "settings_t \<Rightarrow> int \<Rightarrow> globals" where
  "with_logger st pid = \<lparr>g_settings = Some st, g_condVar = True, g_logProcess = pid, g_logs_proces_pid = pid\<rparr>"

lemma keeps_start_logger:
  "keeps startup_event (\<lambda>g. \<exists>pid. 0 < pid \<and> g = with_logger st pid) (start_logger garbage st)"
  unfolding start_logger_def Let_def
  by (intro keeps_intros keeps_bind [OF keeps_only [OF only_log_management]])
     (auto simp: with_logger_def)

section \<open>Properties\<close>

text \<open>
  Whatever the working directory and the host name are, the server starts with well-formed
  settings: port 7070, threads, and the working directory with a slash behind it as the home
  directory. When \<^verbatim>\<open>calloc\<close> or \<^verbatim>\<open>getcwd\<close> fails it does not exit: \<^verbatim>\<open>close_all\<close> dereferences a null
  pointer.
\<close>

theorem server_starts_in_the_working_directory:
  "runs posix_os default_settings (\<lambda>out es.
     case out of
       Ret st \<Rightarrow> settings_inv st \<and> port st = 7070 \<and> mode st = CHR ''t'' \<and>
         (\<exists>r. Sys (Proc (Getcwd 4095)) r \<in> set es \<and> home st = payload r @ ''/'')
     | Exit n \<Rightarrow> False
     | ThreadExit \<Rightarrow> False
     | Crash m \<Rightarrow> True
     | Blocked \<Rightarrow> True)"
proof (rule runs_weaken [OF runs_default_settings])
  have st: "settings_inv (first_settings p name)" "home (first_settings p name) = p @ ''/''"
    "port (first_settings p name) = 7070" "mode (first_settings p name) = CHR ''t''"
    if "length p < 4095" "NUL \<notin> set p" "hostname_ok name" for p name
    using that first_settings_inv [of p name] by (simp_all add: first_settings_def PATH_MAX_def)
  show "case out of
       Ret st \<Rightarrow> settings_inv st \<and> port st = 7070 \<and> mode st = CHR ''t'' \<and>
         (\<exists>r. Sys (Proc (Getcwd 4095)) r \<in> set es \<and> home st = payload r @ ''/'')
     | Exit n \<Rightarrow> False | ThreadExit \<Rightarrow> False | Crash m \<Rightarrow> True | Blocked \<Rightarrow> True"
    if "case out of
       Ret st \<Rightarrow> lines_read es = [] \<and> (\<exists>r name. Sys (Proc (Getcwd 4095)) r \<in> set es \<and> hostname_ok name \<and>
         length (payload r) < 4095 \<and> NUL \<notin> set (payload r) \<and> st = first_settings (payload r) name)
     | Exit n \<Rightarrow> False | ThreadExit \<Rightarrow> False | Crash m \<Rightarrow> True | Blocked \<Rightarrow> True" for out es
    using that st by (cases out) fastforce+
qed

text \<open>
  When the working directory cannot be read, \<^verbatim>\<open>close_all\<close> runs before the logger exists:
  \<^verbatim>\<open>logProcess\<close> is still 0, so \<^verbatim>\<open>kill\<close> sends SIGTERM to every process of the group (and
  descriptor 0 is closed), and then the shared struct is dereferenced through a null pointer.
\<close>

theorem getcwd_failure_signals_the_group:
  assumes "\<And>h n. rv (os h (Mem (Malloc ''settings'' n))) \<noteq> 0" "\<And>h n. rv (os h (Proc (Getcwd n))) = 0"
    and "4 \<le> budget w"
  shows "fst (default_settings os w) = Crash ''condVar->pipe_conf of the null pointer'' \<and>
    (\<exists>r. Sys (Proc (Kill 0 ''15'')) r \<in> set (trace (snd (default_settings os w))))"
proof -
  from assms(3) obtain k where "budget w = 4 + k"
    using le_Suc_ex by blast
  then have n: "budget w = Suc (Suc (Suc (Suc k)))" by simp
  show ?thesis
    using assms(1,2) n by (auto simp: default_settings_def close_all_def no_globals_def run_defs)
qed

theorem getcwd_failure_signals_the_group_witness:
  "fst (default_settings (\<lambda>h c. plain_reply (case c of Proc (Getcwd n) \<Rightarrow> 0 | _ \<Rightarrow> 1)) \<lparr>trace = [], budget = 9\<rparr>)
    = Crash ''condVar->pipe_conf of the null pointer''"
proof -
  let ?os = "\<lambda>h c. plain_reply (case c of Proc (Getcwd n) \<Rightarrow> 0 | _ \<Rightarrow> 1)"
  have "fst (default_settings ?os \<lparr>trace = [], budget = 9\<rparr>) = Crash ''condVar->pipe_conf of the null pointer'' \<and>
    (\<exists>r. Sys (Proc (Kill 0 ''15'')) r \<in> set (trace (snd (default_settings ?os \<lparr>trace = [], budget = 9\<rparr>))))"
    by (rule getcwd_failure_signals_the_group) (simp_all add: plain_reply_def)
  then show ?thesis by blast
qed

text \<open>
  The command line is applied option by option, in order: \<^verbatim>\<open>-p\<close> and \<^verbatim>\<open>-t\<close> set the mode, \<^verbatim>\<open>-P\<close> the
  port (whatever number \<^verbatim>\<open>atoi\<close> reads, with no check of its range), \<^verbatim>\<open>-d\<close> the debug mode; the server exits with
  code 20 exactly when \<^verbatim>\<open>getopt\<close> meets an option it does not know.
\<close>

theorem command_line_is_applied_in_order:
  "runs any_os (read_options st) (\<lambda>out es.
     case out of
       Ret res \<Rightarrow> res = foldl apply_option (st, False) (options_read es) \<and> 63 \<notin> fst ` set (options_read es)
     | Exit n \<Rightarrow> n = 20 \<and> 63 \<in> fst ` set (options_read es)
     | Blocked \<Rightarrow> True
     | _ \<Rightarrow> False)"
  by (rule runs_weaken [OF runs_read_options], unfold option_result_def, elim disjE conjE) simp_all

text \<open>
  The process that goes on after \<^verbatim>\<open>become_daemon\<close> is the grandchild: both forks returned 0, it
  is in a new session, and its three standard descriptors were closed and opened again on
  \<^verbatim>\<open>/dev/null\<close>. Its two ancestors exit with code 0, and 1 reports a failed call.
\<close>

theorem daemon_is_the_grandchild:
  "runs any_os become_daemon (\<lambda>out es.
     case out of
       Ret u \<Rightarrow> \<exists>f1 s h f2 d c0 c1 c2 o0 o1 o2.
         es = [Sys (Proc Fork) f1, Sys (Proc Setsid) s, Sys (Proc (IgnoreSignal ''SIGHUP'')) h, Sys (Proc Fork) f2,
               Sys (Proc (Chdir ''./'')) d, Eff (Proc (Umask 23)),
               Sys (File (CloseFd 0)) c0, Sys (File (CloseFd 1)) c1, Sys (File (CloseFd 2)) c2,
               Sys (File (OpenDevNull ''O_RDONLY'')) o0, Sys (File (OpenDevNull ''O_WRONLY'')) o1,
               Sys (File (OpenDevNull ''O_RDWR'')) o2] \<and>
         rv f1 = 0 \<and> rv f2 = 0 \<and> 0 \<le> rv s \<and> - 1 \<notin> {rv c0, rv c1, rv c2, rv o0, rv o1, rv o2}
     | Exit n \<Rightarrow> n = 1 \<or> (n = 0 \<and> (\<exists>pid. pid \<in> set (forks es) \<and> 0 < pid))
     | Blocked \<Rightarrow> True
     | _ \<Rightarrow> False)"
  unfolding become_daemon_def by (intro runs_intros) auto

end
