(* ===== verification/Server.thy ===== *)
theory Server
  imports Startup
begin

text \<open>
  The server (server/sacagawea.c, Linux build): the handler of SIGHUP, the loop over
  \<^verbatim>\<open>listen_descriptor\<close>, and \<^verbatim>\<open>main\<close>. A signal interrupts the loop while it waits; the reply to
  the pseudo call \<open>Signals\<close> at the head of a round says which one has arrived (0 none, 1 SIGHUP,
  any other number one of the five that run \<^verbatim>\<open>close_all\<close>).
\<close>

section \<open>The code\<close>

definition universal_handler :: "settings_t \<Rightarrow> settings_t prog" where
  "universal_handler st =
     bind (read_and_check_conf st True) (\<lambda>(changed, st).
     if changed then
       say INFO ''settings->socket CHANGE %d'' [AI (socket st)]
       (call (File (CloseFd (socket st))) (\<lambda>r.
        say_if (rv r = - 1) ERROR
          ''System call close() on %d (server socket) failed with error: %s. Socket change failed.''
          [AI (socket st), AE (errno r)]
        (bind (open_socket st) (\<lambda>s. ret (st\<lparr>socket := s\<rparr>)))))
     else ret st)"

definition sighup_handler :: "settings_t \<Rightarrow> settings_t prog" where
  "sighup_handler st = universal_handler st"

definition server_round :: "globals \<Rightarrow> settings_t \<Rightarrow> (settings_t + settings_t) prog" where
  "server_round g st =
     call (Proc Signals) (\<lambda>sig.
     if rv sig = 1 then bind (sighup_handler st) (\<lambda>st. ret (Inl st))
     else if rv sig \<noteq> 0 then close_all (g\<lparr>g_settings := Some st\<rparr>)
     else bind (listen_descriptor st) (\<lambda>go. if go then ret (Inl st) else ret (Inr st)))"

definition serve_clients :: "globals \<Rightarrow> settings_t \<Rightarrow> unit prog" where
  "serve_clients g st =
     bind (open_socket st) (\<lambda>s.
     bind (loop (server_round g) (st\<lparr>socket := s\<rparr>)) (\<lambda>st. close_all (g\<lparr>g_settings := Some st\<rparr>)))"

text \<open>\<open>garbage\<close> is the uninitialised \<^verbatim>\<open>len_string\<close> of the logger.\<close>

definition main :: "int \<Rightarrow> unit prog" where
  "main garbage =
     need (Proc (IgnoreSignal ''SIGCHLD'')) (\<lambda>r. rv r = - 1)
       (\<lambda>r. say ERROR ''Signal() failed because of %s'' [AE (errno r)] (exit 1))
     (bind default_settings (\<lambda>st.
      bind (read_and_check_conf st False) (\<lambda>(changed, st).
      bind (read_options st) (\<lambda>(st, debug_mode).
      bind (if debug_mode then ret () else become_daemon) (\<lambda>_.
      say INFO ''Server port: %d, mode: %s''
        [AI (port st), AS (if mode st = CHR ''p'' then ''multiprocess'' else ''multithreaded'')]
      (bind shared_memory (\<lambda>_.
       bind (start_logger garbage st) (\<lambda>g.
       bind (install_signals g) (\<lambda>_.
       serve_clients g st)))))))))"

section \<open>Opening and changing the socket\<close>

fun net_calls :: "event list \<Rightarrow> net_call list" where
  "net_calls (Sys (Net n) r # es) = n # net_calls es"
| "net_calls (e # es) = net_calls es"
| "net_calls [] = []"

lemma net_calls_append [simp]: "net_calls (es @ es') = net_calls es @ net_calls es'"
  by (induction es rule: net_calls.induct) auto

definition socket_setup :: "settings_t \<Rightarrow> int \<Rightarrow> net_call list" where
  "socket_setup st s = [Socket, SetReuseAddr s, SetNonBlocking s, SetRecvBuf s (S_SOCK_RECVBUF_LEN @ [NUL]),
     BindAny s (nat (port st mod 65536)), Listen s 100]"

text \<open>The descriptors closed through \<^verbatim>\<open>close\<close> with a check of the result.\<close>

fun closes :: "event list \<Rightarrow> int list" where
  "closes (Sys (File (CloseFd fd)) r # es) = fd # closes es"
| "closes (e # es) = closes es"
| "closes [] = []"

lemma closes_append [simp]: "closes (es @ es') = closes es @ closes es'"
  by (induction es rule: closes.induct) auto

lemma runs_open_socket:
  "runs any_os (open_socket st) (\<lambda>out es. lines_read es = [] \<and> closes es = [] \<and>
     ((\<exists>s. out = Ret s \<and> 0 \<le> s \<and> net_calls es = socket_setup st s) \<or> out = Exit 5 \<or> out = Blocked))"
  unfolding open_socket_def Let_def by (intro runs_intros) (simp_all add: socket_setup_def)

lemma conf_no_net: "\<forall>e \<in> set es. conf_event e \<Longrightarrow> net_calls es = [] \<and> closes es = []"
  by (induction es rule: net_calls.induct) (auto elim: conf_event.elims)

text \<open>A file that changes no port changes nothing, when the handler reads it.\<close>

lemma conf_lines_unchanged:
  "\<not> port_changes True ls st \<Longrightarrow> conf_lines True ls st = st"
proof (induction ls arbitrary: st)
  case (Cons l ls)
  have "conf_line True l st = st" if "port (conf_line True l st) = port st"
    using that by (auto simp: conf_line_def conf_port_def Let_def)
  with Cons show ?case by (simp add: conf_lines_def)
qed simp

text \<open>
  What the handler of SIGHUP does: nothing but reading the file when the port stays, and
  otherwise the old socket is closed and a new one is opened on the new port.
\<close>

definition handler_result :: "settings_t \<Rightarrow> settings_t outcome \<Rightarrow> event list \<Rightarrow> bool" where
  "handler_result st out es \<longleftrightarrow>
     (case out of
        Ret st' \<Rightarrow>
          if port_changes True (lines_read es) st
          then closes es = [socket st] \<and> net_calls es = socket_setup st' (socket st') \<and>
            (\<exists>p s. st' = st\<lparr>port := p, socket := s\<rparr> \<and> (p = port st \<or> 1 \<le> p \<and> p \<le> 65535) \<and> 0 \<le> s)
          else st' = st \<and> closes es = [] \<and> net_calls es = []
      | Exit n \<Rightarrow> n = 1 \<or> n = 5
      | ThreadExit \<Rightarrow> False
      | Crash m \<Rightarrow> \<exists>r. Sys (File (Fgets 512)) r \<in> set es \<and> rv r \<noteq> 0 \<and> cstr (payload r) = []
      | Blocked \<Rightarrow> True)"

lemma runs_universal_handler: "runs posix_os (universal_handler st) (handler_result st)"
  unfolding universal_handler_def
proof (rule runs_bind_weaken [OF runs_only [OF runs_read_and_check_conf only_conf_event]], goal_cases)
  case (1 out es)
  then have conf: "conf_result True st out es" and quiet: "net_calls es = []" "closes es = []"
    using conf_no_net by auto
  let ?f = "\<lambda>(changed, st). if changed then
       say INFO ''settings->socket CHANGE %d'' [AI (socket st)]
       (call (File (CloseFd (socket st))) (\<lambda>r.
        say_if (rv r = - 1) ERROR
          ''System call close() on %d (server socket) failed with error: %s. Socket change failed.''
          [AI (socket st), AE (errno r)]
        (bind (open_socket st) (\<lambda>s. ret (st\<lparr>socket := s\<rparr>)))))
     else ret st"
  show ?case
  proof (cases out)
    case (Ret res)
    obtain changed st' where res: "res = (changed, st')" by fastforce
    with conf Ret have st': "st' = conf_lines True (lines_read es) st"
      "changed = port_changes True (lines_read es) st" by (simp_all add: conf_result_def)
    from conf_lines_handler [of "lines_read es" st] st'(1) obtain p where
      p: "st' = st\<lparr>port := p\<rparr>" "p = port st \<or> 1 \<le> p \<and> p \<le> 65535" by blast
    have "runs posix_os (?f (changed, st')) (\<lambda>out es'. handler_result st out (es @ es'))"
    proof (cases changed)
      case False
      with st' conf_lines_unchanged [of "lines_read es" st] quiet show ?thesis
        by (auto simp: handler_result_def intro!: runs_ret)
    next
      case True
      have opened: "handler_result st (Ret (st'\<lparr>socket := s\<rparr>)) (es @ es'')"
        if "net_calls es'' = socket_setup st' s" "closes es'' = [socket st]" "lines_read es'' = []" "0 \<le> s" for s es''
      proof -
        have "port_changes True (lines_read (es @ es'')) st" using True st'(2) that(3) by simp
        moreover have "net_calls (es @ es'') = socket_setup (st'\<lparr>socket := s\<rparr>) (socket (st'\<lparr>socket := s\<rparr>))"
          using quiet that(1) by (simp add: socket_setup_def)
        ultimately show ?thesis
          using quiet that(2,4) p
          by (simp add: handler_result_def) (rule exI [of _ p], rule exI [of _ s], simp add: p(1))
      qed
      have same: "socket st' = socket st" using p(1) by simp
      show ?thesis
        unfolding prod.case same using True
      proof (simp only: if_True, intro runs_say runs_call runs_say_if runs_bind_weaken [OF runs_any [OF runs_open_socket]], goal_cases)
        case (2 r out es')
        show ?case
        proof (cases out)
          case (Ret s)
          with 2 show ?thesis by (auto intro!: runs_ret opened)
        qed (use 2 in \<open>auto simp: handler_result_def\<close>)
      next
        case (3 r out es')
        show ?case
        proof (cases out)
          case (Ret s)
          with 3 show ?thesis by (auto intro!: runs_ret opened)
        qed (use 3 in \<open>auto simp: handler_result_def\<close>)
      qed (simp add: handler_result_def)
    qed
    with Ret res show ?thesis by simp
  qed (use conf in \<open>auto simp: conf_result_def handler_result_def\<close>)
qed

section \<open>Every run of main\<close>

text \<open>Well-formed settings with the home directory \<open>H\<close>: this is what the server keeps while it serves.\<close>

definition settings_for :: "string \<Rightarrow> settings_t \<Rightarrow> bool" where
  "settings_for H st \<longleftrightarrow> settings_inv st \<and> home st = H"

lemma settings_for_update [simp]:
  "settings_for H (st\<lparr>socket := s\<rparr>) = settings_for H st"
  "settings_for H (st\<lparr>port := p\<rparr>) = settings_for H st"
  by (simp_all add: settings_for_def settings_inv_def)

text \<open>
  The events of the server process itself: no file of a client is opened, no command is run, no
  byte is read from a client or sent to one, and every thread it starts is a handler with these settings.
\<close>

fun server_event :: "string \<Rightarrow> event \<Rightarrow> bool" where
  "server_event H (Sys (File (OpenRdwr p)) r) = False"
| "server_event H (Sys (File (Popen cmd)) r) = False"
| "server_event H (Sys (Net (Recv s n f)) r) = False"
| "server_event H (Sys (Net (Send s x)) r) = False"
| "server_event H (Sys (Thread (ThreadCreate n c)) r) =
     (n = ''start_thread_management'' \<and> settings_for H (c_settings c))"
| "server_event H e = True"

text \<open>The run goes on as a child: its last part is one handler, for a connection that was accepted.\<close>

definition as_child :: "string \<Rightarrow> unit outcome \<Rightarrow> event list \<Rightarrow> bool" where
  "as_child H out es \<longleftrightarrow> (\<exists>es1 es2 st a. es = es1 @ es2 \<and> (\<forall>e \<in> set es1. server_event H e) \<and>
     settings_for H st \<and> a \<in> set (connections es1) \<and> handled (client_of st a) out es2)"

definition serving :: "string \<Rightarrow> ('a \<Rightarrow> bool) \<Rightarrow> 'a outcome \<Rightarrow> event list \<Rightarrow> bool" where
  "serving H Q out es \<longleftrightarrow>
     ((\<forall>e \<in> set es. server_event H e) \<and> (\<forall>a. out = Ret a \<longrightarrow> Q a)) \<or>
     ((\<forall>a. out \<noteq> Ret a) \<and> as_child H (ended out) es)"

lemma as_child_append: "as_child H out es \<Longrightarrow> \<forall>e \<in> set pre. server_event H e \<Longrightarrow> as_child H out (pre @ es)"
  unfolding as_child_def
  by (elim exE conjE) (rule exI [of _ "pre @ es1" for es1], auto)

lemma serving_append:
  "serving H Q out es \<Longrightarrow> \<forall>e \<in> set pre. server_event H e \<Longrightarrow> serving H Q out (pre @ es)"
  unfolding serving_def using as_child_append [of H "ended out" es pre] by auto

lemma serving_bind:
  assumes "runs posix_os p (serving H Q)" "\<And>a. Q a \<Longrightarrow> runs posix_os (f a) (serving H Q')"
  shows "runs posix_os (bind p f) (serving H Q')"
proof (rule runs_bind_weaken [OF assms(1)])
  fix out :: "'a outcome" and es
  assume p: "serving H Q out es"
  show "after posix_os f (serving H Q') out es"
  proof (cases out)
    case (Ret a)
    with p have a: "Q a" "\<forall>e \<in> set es. server_event H e" by (auto simp: serving_def)
    have "runs posix_os (f a) (\<lambda>out es'. serving H Q' out (es @ es'))"
      by (rule runs_weaken [OF assms(2) [OF a(1)]]) (rule serving_append [OF _ a(2)])
    with Ret show ?thesis by simp
  qed (use p in \<open>auto simp: serving_def\<close>)
qed

lemma startup_server_event: "startup_event e \<Longrightarrow> server_event H e"
  by (cases "(H, e)" rule: server_event.cases) simp_all

lemma serving_keeps: "keeps startup_event Q p \<Longrightarrow> runs posix_os p (serving H Q)"
  unfolding keeps_def
  by (erule runs_weaken) (auto simp: serving_def intro: startup_server_event)

lemma serving_only: "only (server_event H) p \<Longrightarrow> runs posix_os p (serving H (\<lambda>_. True))"
  unfolding only_def by (drule runs_any) (erule runs_weaken, simp add: serving_def)

lemma accept_event_server: "accept_event st e \<Longrightarrow> settings_for H st \<Longrightarrow> server_event H e"
  by (cases "(st, e)" rule: accept_event.cases) auto

lemma child_run_as_child: "child_run st out es \<Longrightarrow> settings_for H st \<Longrightarrow> as_child H out es"
  unfolding child_run_def as_child_def
  by (elim exE conjE, intro exI conjI) (auto simp: client_of_def intro: accept_event_server)

lemma serving_accept_wrapper:
  assumes "settings_for H st"
  shows "runs posix_os (accept_wrapper st) (serving H (\<lambda>b. b))"
proof (rule runs_weaken [OF runs_accept_wrapper])
  fix out es
  assume "accept_result st out es"
  then consider "out = Ret True \<or> out = Blocked \<or> out = Exit 5" "\<forall>e \<in> set es. accept_event st e"
    | "child_run st (ended out) es"
    by (auto simp: accept_result_def dest: served_events)
  then show "serving H (\<lambda>b. b) out es"
  proof cases
    case 1
    then show ?thesis using assms by (auto simp: serving_def intro: accept_event_server)
  next
    case 2
    then have child: "as_child H (ended out) es" using assms by (rule child_run_as_child)
    from 2 have "\<forall>a. out \<noteq> Ret a"
      by (cases out) (auto simp: child_run_def handled_def handler_end_def)
    with child show ?thesis by (simp add: serving_def)
  qed
qed (use assms in \<open>simp add: settings_for_def\<close>)

lemma serving_intros:
  "Q a \<Longrightarrow> runs posix_os (ret a) (serving H Q)"
  "runs posix_os (exit n) (serving H Q)"
  "runs posix_os p (serving H Q) \<Longrightarrow> runs posix_os (say l s x p) (serving H Q)"
  "(\<And>r. server_event H (Sys c r)) \<Longrightarrow> (\<And>r. runs posix_os (k r) (serving H Q)) \<Longrightarrow> runs posix_os (call c k) (serving H Q)"
proof -
  show "Q a \<Longrightarrow> runs posix_os (ret a) (serving H Q)" "runs posix_os (exit n) (serving H Q)"
    by (rule runs_ret runs_exit, simp add: serving_def)+
  show "runs posix_os (say l s x p) (serving H Q)" if "runs posix_os p (serving H Q)"
    by (rule runs_say, rule runs_weaken [OF that]) (use serving_append [where pre = "[Log l s x]"] in simp)
  show "runs posix_os (call c k) (serving H Q)"
    if event: "\<And>r. server_event H (Sys c r)" and rest: "\<And>r. runs posix_os (k r) (serving H Q)"
  proof (rule runs_call, goal_cases)
    case 1
    show ?case by (simp add: serving_def)
  next
    case (2 r)
    have "serving H Q out (Sys c r # es)" if "serving H Q out es" for out es
      using serving_append [OF that, of "[Sys c r]"] event [of r] by simp
    then show ?case by (rule runs_weaken [OF rest])
  qed
qed

lemma serving_listen_descriptor:
  assumes "settings_for H st"
  shows "runs posix_os (listen_descriptor st) (serving H (\<lambda>b. b))"
  unfolding listen_descriptor_def
  by (intro serving_intros runs_if serving_bind [OF serving_accept_wrapper [OF assms]]) simp_all

lemma only_open_socket: "only (server_event H) (open_socket st)"
  unfolding open_socket_def by (intro only_intros) simp_all

lemma serving_open_socket: "runs posix_os (open_socket st) (serving H (\<lambda>_. True))"
  by (rule serving_only [OF only_open_socket])

lemma keeps_conf_handler:
  assumes "settings_for H st"
  shows "keeps startup_event (\<lambda>(changed, st'). settings_for H st') (read_and_check_conf st True)"
proof (rule keeps_runs [OF runs_only [OF runs_read_and_check_conf only_read_and_check_conf]], goal_cases)
  case (1 out es)
  have "settings_for H (conf_lines True (lines_read es) st)"
    using conf_lines_handler [of "lines_read es" st] assms by auto
  then show ?case using 1 by (auto simp: conf_result_def)
qed

lemma serving_sighup_handler:
  assumes "settings_for H st"
  shows "runs posix_os (sighup_handler st) (serving H (settings_for H))"
proof -
  have "runs posix_os (case x of (changed, st) \<Rightarrow> if changed then
       say INFO ''settings->socket CHANGE %d'' [AI (socket st)]
       (call (File (CloseFd (socket st))) (\<lambda>r.
        say_if (rv r = - 1) ERROR
          ''System call close() on %d (server socket) failed with error: %s. Socket change failed.''
          [AI (socket st), AE (errno r)]
        (bind (open_socket st) (\<lambda>s. ret (st\<lparr>socket := s\<rparr>)))))
     else ret st) (serving H (settings_for H))"
    if "case x of (changed, st) \<Rightarrow> settings_for H st" for x
    using that unfolding say_if_def
    by (cases x) (auto intro!: serving_intros serving_bind [OF serving_open_socket])
  then show ?thesis
    unfolding sighup_handler_def universal_handler_def
    by (rule serving_bind [OF serving_keeps [OF keeps_conf_handler [OF assms]]])
qed

lemma serving_close_all: "runs posix_os (close_all g) (serving H Q)"
  by (rule serving_keeps [OF keeps_close_all])

lemma server_round_serving:
  assumes "settings_for H st"
  shows "runs posix_os (server_round g st) (serving H (\<lambda>x. case x of Inl st' \<Rightarrow> settings_for H st' | Inr st' \<Rightarrow> False))"
  unfolding server_round_def
  by (intro serving_intros runs_if serving_close_all serving_bind [OF serving_sighup_handler [OF assms]]
        serving_bind [OF serving_listen_descriptor [OF assms]])
     (use assms in \<open>simp_all add: serving_intros\<close>)

lemma server_round_consumes: "runs any_os (server_round g st) (\<lambda>out es. goes_round out \<longrightarrow> 0 < calls es)"
proof -
  have accept: "runs any_os (accept_wrapper st) (\<lambda>_ _. True)" for st
    unfolding accept_wrapper_def by (rule accept_loop.trivial)
  have listen: "runs any_os (listen_descriptor st) (\<lambda>_ _. True)" for st
    unfolding listen_descriptor_def
    by (intro runs_say runs_call runs_if runs_ret runs_exit runs_trivial_bind [OF accept] TrueI)
  have handler: "runs any_os (universal_handler st) (\<lambda>_ _. True)" for st
    unfolding universal_handler_def
    by (intro runs_trivial_bind [OF runs_of_only [OF only_conf_event]] runs_case_prod runs_if runs_say runs_call
          runs_say_if runs_ret runs_trivial_bind [OF runs_of_only [OF only_open_socket]] TrueI)
  show ?thesis
    unfolding server_round_def sighup_handler_def
    by (intro consumes_call runs_if runs_ret runs_trivial_bind [OF listen] runs_trivial_bind [OF handler]
          runs_of_only [OF only_close_all] TrueI)
qed

interpretation server_loop: loop_body "server_round g" for g
  by unfold_locales (rule server_round_consumes)

lemma serving_loop:
  assumes "settings_for H st"
  shows "runs posix_os (loop (server_round g) st) (serving H (\<lambda>_. False))"
proof (rule server_loop.invariant [where I = "\<lambda>st es. settings_for H st \<and> (\<forall>e \<in> set es. server_event H e)"])
  fix st es0
  assume I: "settings_for H st \<and> (\<forall>e \<in> set es0. server_event H e)"
  have "round (\<lambda>st es. settings_for H st \<and> (\<forall>e \<in> set es. server_event H e)) (serving H (\<lambda>_. False)) es0 out es"
    if "serving H (\<lambda>x. case x of Inl st' \<Rightarrow> settings_for H st' | Inr st' \<Rightarrow> False) out es" for out es
    using I serving_append [OF that, of es0] that
    by (cases out rule: goes_round.cases) (auto simp: serving_def)
  then show "runs posix_os (server_round g st)
      (round (\<lambda>st es. settings_for H st \<and> (\<forall>e \<in> set es. server_event H e)) (serving H (\<lambda>_. False)) es0)"
    by (rule runs_weaken [OF server_round_serving [OF conjunct1 [OF I]]])
qed (use assms in simp)

text \<open>
  The stages that settle the home directory: each is followed by what comes after it, with what
  is known of the events so far.
\<close>

lemma stage_bind:
  assumes "runs posix_os p (\<lambda>out es. (\<forall>e \<in> set es. P e) \<and> (\<forall>a. out = Ret a \<longrightarrow> Q a es))"
    and "\<And>a es. Q a es \<Longrightarrow> \<forall>e \<in> set es. P e \<Longrightarrow> runs posix_os (f a) (\<lambda>out es'. R out (es @ es'))"
    and "\<And>out es. \<forall>e \<in> set es. P e \<Longrightarrow> \<forall>a. out \<noteq> Ret a \<Longrightarrow> R out es"
  shows "runs posix_os (bind p f) R"
  by (rule runs_bind_weaken [OF assms(1)], rename_tac out es, case_tac out) (auto intro: assms(2,3))

text \<open>
  The lines of the configuration file that \<^verbatim>\<open>main\<close> reads at the start are those read before the command line.
  The configured home directory is what these lines, all of them, make of the working directory.
\<close>

definition startup_lines :: "event list \<Rightarrow> string list" where
  "startup_lines es = lines_read (before_options es)"

definition configured :: "event list \<Rightarrow> settings_t \<Rightarrow> bool" where
  "configured es st \<longleftrightarrow> settings_inv st \<and>
     (\<exists>r name. Sys (Proc (Getcwd 4095)) r \<in> set (before_options es) \<and>
        home st = home (conf_lines False (startup_lines es) (first_settings (payload r) name)))"

lemma configuredI:
  assumes "settings_inv st" "Sys (Proc (Getcwd 4095)) r \<in> set es"
    and "home st = home (conf_lines False (lines_read es) (first_settings (payload r) name))"
    and "\<forall>e \<in> set es. \<not> is_getopt e" "es' \<noteq> []" "is_getopt (hd es')"
  shows "configured (es @ es') st"
  unfolding configured_def startup_lines_def before_options_cut [OF assms(4-6)] using assms(1-3) by blast

definition main_result :: "unit outcome \<Rightarrow> event list \<Rightarrow> bool" where
  "main_result out es \<longleftrightarrow>
     ((\<forall>u. out \<noteq> Ret u) \<and> (\<forall>e \<in> set es. startup_event e)) \<or>
     (\<exists>es1 es2 H. es = es1 @ es2 \<and> (\<forall>e \<in> set es1. startup_event e) \<and> serving H (\<lambda>_. False) out es2 \<and>
        (\<forall>st. settings_for H st \<longrightarrow> configured es st))"

lemma default_settings_stage:
  "runs posix_os default_settings (\<lambda>out es. (\<forall>e \<in> set es. startup_event e \<and> \<not> is_getopt e) \<and>
     (\<forall>st. out = Ret st \<longrightarrow> settings_inv st \<and> lines_read es = [] \<and>
        (\<exists>r name. Sys (Proc (Getcwd 4095)) r \<in> set es \<and> st = first_settings (payload r) name)))"
proof (rule runs_weaken [OF runs_only [OF runs_only [OF runs_default_settings only_default_settings]
      default_settings_before_options]], goal_cases)
  case (1 out es)
  then show ?case
    by (cases out) (auto intro!: first_settings_inv simp: PATH_MAX_def)
qed

lemma conf_stage:
  assumes "settings_inv st"
  shows "runs posix_os (read_and_check_conf st h) (\<lambda>out es. (\<forall>e \<in> set es. startup_event e \<and> \<not> is_getopt e) \<and>
     (\<forall>a. out = Ret a \<longrightarrow> settings_inv (snd a) \<and> snd a = conf_lines h (lines_read es) st))"
proof (rule runs_weaken [OF runs_only [OF runs_read_and_check_conf only_conf_event]], goal_cases)
  case (1 out es)
  then show ?case
    using assms lines_read_no_NUL
    by (auto simp: conf_result_def conf_event_startup conf_before_options intro!: conf_lines_inv)
qed

lemma apply_options_home: "home (fst (foldl apply_option s opts)) = home (fst s)"
  by (induction opts arbitrary: s) (simp_all add: apply_option_def)

lemma options_stage:
  assumes "settings_inv st"
  shows "runs posix_os (read_options st) (\<lambda>out es. (\<forall>e \<in> set es. startup_event e) \<and>
     (\<forall>a. out = Ret a \<longrightarrow> settings_inv (fst a) \<and> home (fst a) = home st \<and> es \<noteq> [] \<and> is_getopt (hd es)))"
proof (rule runs_weaken [OF runs_conj [OF runs_read_options_first runs_only [OF runs_read_options only_read_options]]], goal_cases)
  case (1 out es)
  then show ?case
    using assms apply_options_inv [of "(st, False)" "options_read es"] apply_options_home [of "(st, False)" "options_read es"]
    by (cases "foldl apply_option (st, False) (options_read es)") (auto simp: option_result_def getopt_first_def)
qed

lemma runs_main: "runs posix_os (main garbage) main_result"
proof -
  have clients: "runs posix_os (serve_clients g st) (serving H (\<lambda>_. False))" if "settings_for H st" for g st H
    unfolding serve_clients_def
    by (intro serving_bind [OF serving_open_socket] serving_bind [OF serving_loop] serving_close_all) (use that in simp)
  have daemon: "runs posix_os (if d then ret () else become_daemon) (serving H (\<lambda>_. True))" for d H
    using serving_only [OF only_weaken [OF only_become_daemon startup_server_event]] by (simp add: serving_intros)
  note shared = serving_only [OF only_weaken [OF only_shared_memory startup_server_event]]
  note signals = serving_only [OF only_weaken [OF only_install_signals startup_server_event]]
  let ?rest = "\<lambda>st d. bind (if d then ret () else become_daemon) (\<lambda>_.
      say INFO ''Server port: %d, mode: %s''
        [AI (port st), AS (if mode st = CHR ''p'' then ''multiprocess'' else ''multithreaded'')]
      (bind shared_memory (\<lambda>_.
       bind (start_logger garbage st) (\<lambda>g.
       bind (install_signals g) (\<lambda>_.
       serve_clients g st)))))"
  have rest: "runs posix_os (?rest st d) (serving H (\<lambda>_. False))" if "settings_for H st" for st d H
    by (intro serving_bind [OF daemon] serving_intros serving_bind [OF shared] serving_bind [OF signals]
          serving_bind [OF serving_keeps [OF keeps_start_logger]] clients that)
  have options: "runs posix_os (bind (read_options st) (\<lambda>(st, d). ?rest st d)) (\<lambda>out es. main_result out (pre @ es))"
    if "settings_inv st" "\<forall>e \<in> set pre. startup_event e \<and> \<not> is_getopt e" "Sys (Proc (Getcwd 4095)) r \<in> set pre"
      "home st = home (conf_lines False (lines_read pre) (first_settings (payload r) name))" for st pre r name
  proof (rule stage_bind [OF options_stage [OF that(1)]], goal_cases)
    case (1 a es)
    obtain st' d where a: "a = (st', d)" by (cases a)
    with 1 have st': "settings_for (home st) st'" by (simp add: settings_for_def)
    have "main_result out (pre @ es @ es')" if "serving (home st) (\<lambda>_. False) out es'" for out es'
      unfolding main_result_def
      using that 1 \<open>\<forall>e \<in> set pre. startup_event e \<and> _ e\<close> configuredI [OF _ \<open>_ \<in> set pre\<close>, of _ name "es @ es'"] \<open>home st = _\<close>
      by (intro disjI2 exI [of _ "pre @ es"] exI [of _ es'] exI [of _ "home st"]) (auto simp: settings_for_def)
    then show ?case
      unfolding a prod.case by (rule runs_weaken [OF rest [OF st']])
  next
    case (2 out es)
    with that(2) show ?case by (auto simp: main_result_def)
  qed
  have conf: "runs posix_os (bind (read_and_check_conf st False) (\<lambda>(changed, st). bind (read_options st) (\<lambda>(st, d). ?rest st d)))
      (\<lambda>out es. main_result out (pre @ es))"
    if "settings_inv st" "\<forall>e \<in> set pre. startup_event e \<and> \<not> is_getopt e" "Sys (Proc (Getcwd 4095)) r \<in> set pre" "lines_read pre = []"
      "st = first_settings (payload r) name" for st pre r name
  proof (rule stage_bind [OF conf_stage [OF that(1)]], goal_cases)
    case (1 a es)
    then have "runs posix_os (bind (read_options (snd a)) (\<lambda>(st, d). ?rest st d)) (\<lambda>out es'. main_result out ((pre @ es) @ es'))"
      using that(2-) by (intro options [of "snd a" "pre @ es" r name]) auto
    then show ?case by (simp add: case_prod_beta)
  next
    case (2 out es)
    with that(2) show ?case by (auto simp: main_result_def)
  qed
  have default: "runs posix_os (bind default_settings (\<lambda>st.
      bind (read_and_check_conf st False) (\<lambda>(changed, st). bind (read_options st) (\<lambda>(st, d). ?rest st d))))
      (\<lambda>out es. main_result out (pre @ es))" if "\<forall>e \<in> set pre. startup_event e \<and> \<not> is_getopt e" "lines_read pre = []" for pre
  proof (rule stage_bind [OF default_settings_stage], goal_cases)
    case (1 st es)
    then obtain r name where "settings_inv st" "lines_read es = []" "Sys (Proc (Getcwd 4095)) r \<in> set es"
      "st = first_settings (payload r) name" by blast
    then show ?case
      using conf [of st "pre @ es" r name] 1(2) that by auto
  next
    case (2 out es)
    with that(1) show ?case by (auto simp: main_result_def)
  qed
  show ?thesis
    unfolding main_def need_def
    using default [of "[Sys (Proc (IgnoreSignal ''SIGCHLD'')) r]" for r]
    by (intro runs_call runs_if runs_say runs_exit) (auto simp: main_result_def)
qed

section \<open>What the runs of main have in common\<close>

fun files_opened :: "event list \<Rightarrow> string list" where
  "files_opened (Sys (File (OpenRdwr p)) r # es) = p # files_opened es"
| "files_opened (e # es) = files_opened es"
| "files_opened [] = []"

lemma files_opened_append [simp]: "files_opened (es @ es') = files_opened es @ files_opened es'"
  by (induction es rule: files_opened.induct) auto

lemma files_opened_opened: "p \<in> set (files_opened es) \<Longrightarrow> p \<in> set (opened es)"
  by (induction es rule: files_opened.induct) auto

lemma server_event_quiet:
  assumes "\<forall>e \<in> set es. server_event H e"
  shows "files_opened es = []" "commands_run es = []" "received es = []" "sends es = []"
proof -
  show "files_opened es = []"
    using assms by (induction es rule: files_opened.induct) auto
  show "commands_run es = []"
    using assms by (induction es rule: commands_run.induct) auto
  show "received es = []"
    using assms by (induction es rule: received.induct) auto
  show "sends es = []"
    using assms by (induction es rule: sends.induct) auto
qed

lemma server_event_threads:
  "\<forall>e \<in> set es. server_event H e \<Longrightarrow> c \<in> set (thread_args es) \<Longrightarrow> settings_for H (c_settings c)"
  by (induction es rule: thread_calls.induct) auto

lemma handled_threads:
  assumes "request_events c es" "c' \<in> set (thread_args es)"
  shows "c_settings c' = c_settings c"
proof -
  have read: "thread_calls es = []" if "\<forall>e \<in> set es. read_event c e" for es
    using that by (induction es rule: thread_calls.induct) auto
  have serve: "c_settings c' = c_settings c" if "\<forall>e \<in> set es. serve_event c q e" "c' \<in> set (thread_args es)" for es q
    using that by (induction es rule: thread_calls.induct) auto
  from assms(1) obtain es1 es2 where "es = es1 @ es2" "\<forall>e \<in> set es1. read_event c e"
    "es2 = [] \<or> (\<exists>q. \<forall>e \<in> set es2. serve_event c q e)"
    unfolding request_events_def by blast
  with assms(2) read serve show ?thesis by auto
qed

text \<open>A run of \<^verbatim>\<open>main\<close> is the run of the server, or of a child that handles one connection.\<close>

lemma main_result_cases:
  assumes "main_result out es"
  obtains (server) "\<forall>u. out \<noteq> Ret u" "files_opened es = []" "commands_run es = []" "sends es = []"
    "\<forall>c \<in> set (thread_args es). configured es (c_settings c)"
  | (child) es2 st a where "\<forall>u. out \<noteq> Ret u" "files_opened es = files_opened es2"
    "commands_run es = commands_run es2" "sends es = sends es2" "received es = received es2"
    "configured es st" "a \<in> set (connections es)" "request_events (client_of st a) es2"
    "\<forall>c \<in> set (thread_args es). configured es (c_settings c)"
proof (cases "(\<forall>u. out \<noteq> Ret u) \<and> (\<forall>e \<in> set es. startup_event e)")
  case True
  then have none: "\<forall>e \<in> set es. server_event H e" for H by (auto intro: startup_server_event)
  have "thread_calls es = []"
    using True by (induction es rule: thread_calls.induct) auto
  then show ?thesis
    using True server_event_quiet [OF none] by (intro server) simp_all
next
  case False
  with assms obtain pre es' H where es: "es = pre @ es'" and pre: "\<forall>e \<in> set pre. startup_event e"
    and serving: "serving H (\<lambda>_. False) out es'" and home: "\<And>st. settings_for H st \<Longrightarrow> configured es st"
    unfolding main_result_def by blast
  have pre': "\<forall>e \<in> set pre. server_event H e" using pre by (auto intro: startup_server_event)
  from serving consider "\<forall>u. out \<noteq> Ret u" "\<forall>e \<in> set es'. server_event H e"
    | "\<forall>u. out \<noteq> Ret u" "as_child H (ended out) es'"
    by (auto simp: serving_def)
  then show ?thesis
  proof cases
    case 1
    then have "\<forall>e \<in> set es. server_event H e" using pre' es by auto
    from server_event_quiet [OF this] server_event_threads [OF this] home 1(1) show ?thesis
      by (intro server) auto
  next
    case 2
    then obtain es1 es2 st a where es': "es' = es1 @ es2" "\<forall>e \<in> set es1. server_event H e"
      "settings_for H st" "a \<in> set (connections es1)" "request_events (client_of st a) es2"
      unfolding as_child_def handled_def by blast
    note quiet = server_event_quiet [OF pre'] server_event_quiet [OF es'(2)]
    have "configured es (c_settings c)" if c: "c \<in> set (thread_args es)" for c
    proof -
      from c es es'(1) consider "c \<in> set (thread_args (pre @ es1))" | "c \<in> set (thread_args es2)" by auto
      then have "settings_for H (c_settings c)"
      proof cases
        case 1
        have "\<forall>e \<in> set (pre @ es1). server_event H e" using pre' es'(2) by auto
        then show ?thesis using 1 by (rule server_event_threads)
      next
        case 2
        from handled_threads [OF es'(5) 2] es'(3) show ?thesis by (simp add: client_of_def new_client_def)
      qed
      then show ?thesis by (rule home)
    qed
    then show ?thesis
      using es es' quiet 2(1) home by (intro child [of es2 st a]) simp_all
  qed
qed

text \<open>The threads that the server asks for: each has the arguments of one client.\<close>

fun handler_threads :: "event list \<Rightarrow> client_args list" where
  "handler_threads (Sys (Thread (ThreadCreate n c)) r # es) =
     (if n = ''start_thread_management'' then [c] else []) @ handler_threads es"
| "handler_threads (e # es) = handler_threads es"
| "handler_threads [] = []"

lemma handler_threads_subset: "set (handler_threads es) \<subseteq> set (thread_args es)"
  by (induction es rule: handler_threads.induct) auto

text \<open>Whatever file a thread opens, command it runs or byte it sends is for the request it reads.\<close>

definition serves_only :: "client_args \<Rightarrow> event list \<Rightarrow> bool" where
  "serves_only c es \<longleftrightarrow>
     list_all (confined_to c (cut (received es))) (files_opened es) \<and>
     list_all (asks_about c (cut (received es))) (commands_run es) \<and>
     list_all (\<lambda>x. fst x = c_socket c) (sends es)"

lemma request_serves_only:
  assumes "settings_inv (c_settings c)" "request_events c es"
  shows "serves_only c es"
  using request_confined [OF assms]
  by (auto simp: serves_only_def list_all_iff dest!: files_opened_opened)

lemma thread_serves_only:
  assumes "settings_inv (c_settings c)"
  shows "runs posix_os (start_thread_management c) (\<lambda>out es. serves_only c es)"
proof -
  have "ends_in_slash (home (c_settings c))" using assms by (simp add: settings_inv_def homedir_ok_def)
  then have home: "home (c_settings c) \<noteq> []" by (auto simp: ends_in_slash_def)
  have "runs posix_os (management_function c) (\<lambda>out es. serves_only c es)"
    by (rule runs_weaken [OF runs_management_function [OF home]])
       (auto simp: handled_def intro: request_serves_only [OF assms])
  then show ?thesis
    unfolding start_thread_management_def
    by (intro runs_call runs_if runs_say runs_exit) (auto simp: serves_only_def elim: runs_weaken)
qed

section \<open>Properties\<close>

text \<open>
  C3: the two halves of the server fit together. In every run of \<^verbatim>\<open>main\<close>, whatever the
  configuration file, the command line, the clients and the signals are, every thread is started with
  well-formed settings, which is what the theorems about a handler assume, and with the home
  directory that was configured at the start: the one that all lines of sacagawea.conf read before the
  command line make of the working directory. No SIGHUP changes it. \<^verbatim>\<open>main\<close> never returns.
\<close>

theorem every_thread_gets_valid_settings:
  "runs posix_os (main garbage) (\<lambda>out es.
     (\<forall>u. out \<noteq> Ret u) \<and> list_all (\<lambda>c. configured es (c_settings c)) (map fst (thread_calls es)))"
  by (rule runs_weaken [OF runs_main], erule main_result_cases) (simp_all add: list_all_iff)


text \<open>
  C19: on SIGHUP the server changes nothing, and touches no socket, when the file changes no port.
  Otherwise it closes its old socket first, and then opens one on the new port (a number
  between 1 and 65535, or the old one when a later line restored it); when that fails the server ends with code 5.
\<close>

theorem sighup_moves_the_socket:
  "runs posix_os (sighup_handler st) (\<lambda>out es.
     case out of
       Ret st' \<Rightarrow>
         if port_changes True (lines_read es) st
         then closes es = [socket st] \<and>
           net_calls es = [Socket, SetReuseAddr (socket st'), SetNonBlocking (socket st'),
             SetRecvBuf (socket st') (''65536'' @ [NUL]),
             BindAny (socket st') (nat (port st' mod 65536)), Listen (socket st') 100] \<and>
           st' = st\<lparr>port := port st', socket := socket st'\<rparr> \<and>
           (port st' = port st \<or> port st' \<in> {1..65535})
         else st' = st \<and> closes es = [] \<and> net_calls es = []
     | Exit n \<Rightarrow> n \<in> {1, 5}
     | ThreadExit \<Rightarrow> False
     | Crash m \<Rightarrow> \<exists>r. Sys (File (Fgets 512)) r \<in> set es \<and> rv r \<noteq> 0 \<and> cstr (payload r) = []
     | Blocked \<Rightarrow> True)"
  unfolding sighup_handler_def
proof (rule runs_weaken [OF runs_universal_handler], goal_cases)
  case (1 out es)
  then show ?case
    by (cases out) (auto simp: handler_result_def socket_setup_def S_SOCK_RECVBUF_LEN_def split: if_splits)
qed

end
