(* ===== verification/Log_Protocol.thy ===== *)
theory Log_Protocol
  imports Sender
begin

text \<open>
  The senders and the logger as automata: each side is a machine over its actions on what the two
  share (mutex, condition variable, counter, pipe, log file). The runs of \<^verbatim>\<open>write_record\<close> (the end
  of \<^verbatim>\<open>thread_sender\<close> in gopher.c) and of \<^verbatim>\<open>log_management\<close> (log.c) whose calls succeed are runs of
  these machines; Log_Queue puts them together.
\<close>

section \<open>The actions on what is shared\<close>

datatype act =
  Lock
| Unlock
| Incr
| Decr
| Test int
| Write string
| Read_Length string
| Read int string
| Signal
| Wait
| Append string

fun act_of :: "event \<Rightarrow> act option" where
  "act_of (Sys (Thread MutexLock) r) = Some Lock"
| "act_of (Sys (Thread MutexUnlock) r) = Some Unlock"
| "act_of (Sys (Thread CondSignal) r) = Some Signal"
| "act_of (Sys (Thread CondWait) r) = Some Wait"
| "act_of (Sys (Thread ContRead) r) = Some (Test (rv r))"
| "act_of (Eff (Thread ContIncr)) = Some Incr"
| "act_of (Eff (Thread ContDecr)) = Some Decr"
| "act_of (Sys (File (PipeWrite s)) r) = Some (Write s)"
| "act_of (Sys (File PipeReadInt) r) = Some (Read_Length (payload r))"
| "act_of (Sys (File (PipeRead n)) r) = Some (Read n (payload r))"
| "act_of (Eff (File (Fprintf s))) = Some (Append s)"
| "act_of e = None"

fun acts :: "event list \<Rightarrow> act list" where
  "acts [] = []"
| "acts (e # es) = (case act_of e of None \<Rightarrow> acts es | Some a \<Rightarrow> a # acts es)"

lemma acts_append [simp]: "acts (es @ es') = acts es @ acts es'"
  by (induction es) (auto split: option.splits)

text \<open>The calls of the protocol succeed, and a write is complete.\<close>

fun calls_succeed :: "call \<Rightarrow> reply \<Rightarrow> bool" where
  "calls_succeed (Thread MutexLock) r = (rv r = 0)"
| "calls_succeed (Thread MutexUnlock) r = (rv r = 0)"
| "calls_succeed (Thread CondSignal) r = (rv r = 0)"
| "calls_succeed (Thread CondWait) r = (rv r = 0)"
| "calls_succeed (File (PipeWrite s)) r = (rv r = int (length s))"
| "calls_succeed (File PipeReadInt) r = (rv r = 4 \<and> length (payload r) = 4)"
| "calls_succeed (File (PipeRead n)) r = (0 < rv r \<and> rv r \<le> n \<and> length (payload r) = nat (rv r))"
| "calls_succeed (File (FopenAppend p)) r = (rv r \<noteq> 0)"
| "calls_succeed (Mem (Malloc p n)) r = (rv r \<noteq> 0)"
| "calls_succeed _ r = True"

section \<open>The two automata\<close>

datatype phase = Before | Locked | Counted | Announced | Written | Signalled | After

fun sender_next :: "string \<Rightarrow> phase \<Rightarrow> act \<Rightarrow> phase option" where
  "sender_next r Before Lock = Some Locked"
| "sender_next r Locked Incr = Some Counted"
| "sender_next r Counted (Write w) = (if w = int_bytes (int (length r)) then Some Announced else None)"
| "sender_next r Announced (Write w) = (if w = r then Some Written else None)"
| "sender_next r Written Signal = Some Signalled"
| "sender_next r Signalled Unlock = Some After"
| "sender_next r _ _ = None"

text \<open>\<open>Entering\<close>: the mutex is held and \<^verbatim>\<open>pthread_cond_wait\<close> is called; \<open>Body n got\<close>: a record is read.\<close>

datatype logger_phase = Start | Entering | Testing | Header | Body int string | Logged

fun logger_next :: "logger_phase \<Rightarrow> act \<Rightarrow> logger_phase option" where
  "logger_next Start Lock = Some Entering"
| "logger_next Entering Wait = Some Testing"
| "logger_next Testing (Test n) = Some (if 0 < n then Header else Entering)"
| "logger_next Header (Read_Length h) = (if length h = 4 then Some (Body (bytes_int h) []) else None)"
| "logger_next (Body n got) (Read k p) =
     (if k = n - int (length got) \<and> 0 < length p \<and> int (length p) \<le> k then Some (Body n (got @ p)) else None)"
| "logger_next (Body n got) (Append s) =
     (if int (length got) = n \<and> s = cstr got then Some Logged else None)"
| "logger_next Logged Decr = Some Testing"
| "logger_next _ _ = None"

fun run :: "('p \<Rightarrow> act \<Rightarrow> 'p option) \<Rightarrow> act list \<Rightarrow> 'p \<Rightarrow> 'p option" where
  "run next_phase [] p = Some p"
| "run next_phase (a # as) p = Option.bind (next_phase p a) (run next_phase as)"

lemma run_append [simp]: "run f (xs @ ys) p = Option.bind (run f xs p) (run f ys)"
  by (induction xs arbitrary: p) (auto split: Option.bind_splits)

section \<open>The programs are runs of the automata\<close>

lemma write_record_automaton:
  "runs calls_succeed (write_record r) (\<lambda>out es.
     \<exists>p. run (sender_next r) (acts es) Before = Some p \<and> (out = Ret () \<and> p = After \<or> out = Blocked))"
  unfolding write_record_def by (intro runs_intros) simp_all

text \<open>A run of the logger from one phase on: where it is when a function returns.\<close>

definition logger_run :: "logger_phase \<Rightarrow> ('a \<Rightarrow> logger_phase) \<Rightarrow> 'a outcome \<Rightarrow> event list \<Rightarrow> bool" where
  "logger_run p Q out es \<longleftrightarrow>
     (\<exists>q. run logger_next (acts es) p = Some q \<and> (\<forall>a. out = Ret a \<longrightarrow> q = Q a)) \<and> (\<forall>n. out \<noteq> Exit n)"

lemma runs_body_automaton:
  "runs calls_succeed (loop (body_round n) []) (\<lambda>out es. logger_run (Body n []) (Body n) out es \<and>
     (\<forall>s. out = Ret s \<longrightarrow> int (length s) = max n 0))"
proof (rule body_loop.invariant [where I = "\<lambda>s es. run logger_next (acts es) (Body n []) = Some (Body n s) \<and>
    int (length s) \<le> max n 0"])
  fix s es
  assume I: "run logger_next (acts es) (Body n []) = Some (Body n s) \<and> int (length s) \<le> max n 0"
  show "runs calls_succeed (body_round n s)
      (round (\<lambda>s es. run logger_next (acts es) (Body n []) = Some (Body n s) \<and> int (length s) \<le> max n 0)
        (\<lambda>out es. logger_run (Body n []) (Body n) out es \<and> (\<forall>s. out = Ret s \<longrightarrow> int (length s) = max n 0)) es)"
    unfolding body_round_def
  proof (intro runs_call runs_if runs_say runs_ret, goal_cases)
    case (2 r)
    then show ?case by simp
  qed (use I in \<open>auto simp: logger_run_def\<close>)
qed simp

lemma logger_run_bind:
  assumes "runs calls_succeed p (logger_run s Q)" "\<And>a. runs calls_succeed (f a) (logger_run (Q a) Q')"
  shows "runs calls_succeed (bind p f) (logger_run s Q')"
proof (rule runs_bind_weaken [OF assms(1)])
  fix out :: "'a outcome" and es
  assume run: "logger_run s Q out es"
  show "after calls_succeed f (logger_run s Q') out es"
  proof (cases out)
    case (Ret a)
    with run have "run logger_next (acts es) s = Some (Q a)" by (auto simp: logger_run_def)
    then have "runs calls_succeed (f a) (\<lambda>out es'. logger_run s Q' out (es @ es'))"
      by (intro runs_weaken [OF assms(2)]) (auto simp: logger_run_def)
    with Ret show ?thesis by simp
  qed (use run in \<open>auto simp: logger_run_def\<close>)
qed

text \<open>Steps that are not shared, and shared steps, before the rest.\<close>

lemma logger_run_Cons:
  assumes "logger_run q' Q out es" "act_of e = None \<and> q' = q \<or> (\<exists>a. act_of e = Some a \<and> logger_next q a = Some q')"
  shows "logger_run q Q out (e # es)"
  using assms by (auto simp: logger_run_def)

lemma logger_run_Blocked: "logger_run q Q Blocked []"
  by (simp add: logger_run_def)

lemma logger_ret: "q = Q a \<Longrightarrow> runs calls_succeed (ret a) (logger_run q Q)"
  by (rule runs_ret) (simp add: logger_run_def)

lemma logger_crash: "runs calls_succeed (crash m) (logger_run q Q)"
  by (rule runs_crash) (simp add: logger_run_def)

lemma logger_say: "runs calls_succeed p (logger_run q Q) \<Longrightarrow> runs calls_succeed (say l s x p) (logger_run q Q)"
  by (rule runs_say, erule runs_weaken, erule logger_run_Cons) simp

lemma logger_eff:
  "runs calls_succeed p (logger_run q' Q) \<Longrightarrow>
   act_of (Eff c) = None \<and> q' = q \<or> (\<exists>a. act_of (Eff c) = Some a \<and> logger_next q a = Some q') \<Longrightarrow>
   runs calls_succeed (eff c p) (logger_run q Q)"
  by (rule runs_eff, erule runs_weaken, erule logger_run_Cons)

lemma logger_call:
  assumes "\<And>r. calls_succeed c r \<Longrightarrow> \<exists>q'. runs calls_succeed (k r) (logger_run q' Q) \<and>
     (act_of (Sys c r) = None \<and> q' = q \<or> (\<exists>a. act_of (Sys c r) = Some a \<and> logger_next q a = Some q'))"
  shows "runs calls_succeed (call c k) (logger_run q Q)"
proof (rule runs_call, goal_cases)
  case 1
  show ?case by (rule logger_run_Blocked)
next
  case (2 r)
  from assms [OF 2] obtain q' where
    run: "runs calls_succeed (k r) (logger_run q' Q)"
    and q': "act_of (Sys c r) = None \<and> q' = q \<or> (\<exists>a. act_of (Sys c r) = Some a \<and> logger_next q a = Some q')"
    by blast
  from run show ?case
    by (rule runs_weaken) (rule logger_run_Cons [OF _ q'])
qed

lemma runs_record_automaton: "runs calls_succeed (read_record n) (logger_run Header (\<lambda>_. Logged))"
proof -
  have body: "runs calls_succeed (bind (loop (body_round m) []) (\<lambda>read_line.
            if m < 0 then crash ''read_line[len_string] before the buffer''
            else
              say INFO ''received: %d, %s'' [AI m, AS (cstr read_line)]
              (eff (File (Fprintf (cstr read_line)))
              (eff (File Fclose) (eff (Mem (Free ''read_line'')) (ret m)))))) (logger_run (Body m []) (\<lambda>_. Logged))" for m
  proof (rule runs_bind_weaken [OF runs_body_automaton])
    fix out :: "string outcome" and es
    assume run: "logger_run (Body m []) (Body m) out es \<and> (\<forall>s. out = Ret s \<longrightarrow> int (length s) = max m 0)"
    show "after calls_succeed (\<lambda>read_line.
            if m < 0 then crash ''read_line[len_string] before the buffer''
            else
              say INFO ''received: %d, %s'' [AI m, AS (cstr read_line)]
              (eff (File (Fprintf (cstr read_line)))
              (eff (File Fclose) (eff (Mem (Free ''read_line'')) (ret m))))) (logger_run (Body m []) (\<lambda>_. Logged)) out es"
      using run by (cases out) (auto simp: logger_run_def intro!: runs_intros)
  qed
  show ?thesis
    unfolding read_record_def Let_def
  proof (rule logger_call, goal_cases)
    case (1 r)
    then have r: "rv r = 4" "length (payload r) = 4" by simp_all
    then have header: "payload r @ drop (length (payload r)) (int_bytes n) = payload r" "\<not> rv r < 0"
      by simp_all
    have "runs calls_succeed
       (say INFO ''Log file received %d bytes'' [AI (bytes_int (payload r))]
       (call (File (FopenAppend SACAGAWEALOGS_PATH)) (\<lambda>log.
        if rv log = 0 then say INFO ''ERROR open logs file: %s'' [AE (errno log)] (log_management_exit 1)
        else
          call (Mem (Malloc ''read_line'' (bytes_int (payload r) + 1))) (\<lambda>m.
          if rv m = 0 then
            say ERROR ''Malloc on logProcess failed becouse: %s'' [AE (errno m)]
            (eff (File Fclose) (log_management_exit 1))
          else
            bind (loop (body_round (bytes_int (payload r))) []) (\<lambda>read_line.
            if bytes_int (payload r) < 0 then crash ''read_line[len_string] before the buffer''
            else
              say INFO ''received: %d, %s'' [AI (bytes_int (payload r)), AS (cstr read_line)]
              (eff (File (Fprintf (cstr read_line)))
              (eff (File Fclose) (eff (Mem (Free ''read_line'')) (ret (bytes_int (payload r)))))))))))
       (logger_run (Body (bytes_int (payload r)) []) (\<lambda>_. Logged))"
      by (intro logger_say logger_call) (auto intro!: logger_call body)
    then show ?case
      unfolding header using r(2) header(2) by (intro exI [of _ "Body (bytes_int (payload r)) []"]) simp
  qed
qed

lemma runs_cont_automaton:
  "runs calls_succeed (cont_round n) (logger_run Testing (\<lambda>x. case x of Inl n \<Rightarrow> Testing | Inr n \<Rightarrow> Entering))"
  unfolding cont_round_def
  by (rule logger_call)
     (auto intro!: logger_run_bind [OF runs_record_automaton] logger_eff [where q' = Testing] logger_ret
       intro: exI [of _ Header] exI [of _ Entering])

context loop_body
begin

lemma logger_loop:
  assumes "\<And>s. runs calls_succeed (body s) (logger_run p (\<lambda>x. case x of Inl s \<Rightarrow> p | Inr a \<Rightarrow> q))"
  shows "runs calls_succeed (loop body s) (logger_run p (\<lambda>_. q))"
proof (rule invariant [where I = "\<lambda>s es. run logger_next (acts es) p = Some p"])
  fix s es0
  assume I: "run logger_next (acts es0) p = Some p"
  have "round (\<lambda>s es. run logger_next (acts es) p = Some p) (logger_run p (\<lambda>_. q)) es0 out es"
    if "logger_run p (\<lambda>x. case x of Inl s \<Rightarrow> p | Inr a \<Rightarrow> q) out es" for out es
    using that I by (cases out rule: goes_round.cases) (auto simp: logger_run_def)
  then show "runs calls_succeed (body s)
      (round (\<lambda>s es. run logger_next (acts es) p = Some p) (logger_run p (\<lambda>_. q)) es0)"
    by (rule runs_weaken [OF assms])
qed simp

end

lemma runs_wait_automaton:
  "runs calls_succeed (wait_round n) (logger_run Entering (\<lambda>x. case x of Inl n \<Rightarrow> Entering | Inr u \<Rightarrow> Entering))"
  unfolding wait_round_def
  by (rule logger_call)
     (auto intro!: exI [of _ Testing] logger_run_bind [OF cont_loop.logger_loop [OF runs_cont_automaton]] logger_ret)

lemma runs_logger_automaton: "runs calls_succeed (log_management n) (logger_run Start (\<lambda>_. Entering))"
  unfolding log_management_def
  by (intro logger_say logger_eff [where q' = Start])
     (auto intro!: logger_call exI [of _ Entering] wait_loop.logger_loop runs_wait_automaton)

section \<open>Properties\<close>


end
