(* ===== verification/Log_Queue.thy ===== *)
theory Log_Queue
  imports Log_Protocol "HOL-Library.Multiset"
begin

text \<open>
  The log protocol as a whole: any number of senders and one logger share the mutex, the counter,
  the condition variable and the pipe (\<^verbatim>\<open>struct_conditionVariable\<close> in sacagalib.h), and their actions
  interleave in any way. The invariant gives mutual exclusion and makes the pipe a queue of whole
  records; the system refines that queue. What follows: every record written once and in order,
  when the logger makes progress, and the two ways in which it does not.
\<close>

section \<open>The system\<close>

datatype actor = Sender nat | Logger

text \<open>The logger and the condition variable: not waiting on it, asleep, woken but without the mutex.\<close>

datatype sleep = Running | Asleep | Awake

record system =
  mutex :: "actor option"
  cnt :: int
  pipe :: string
  log_file :: "string list"
  sleep :: sleep
  senders :: "nat \<Rightarrow> phase"
  logger :: logger_phase

definition initial :: system where
  "initial = \<lparr>mutex = None, cnt = 0, pipe = [], log_file = [], sleep = Running, senders = (\<lambda>_. Before), logger = Start\<rparr>"

text \<open>
  What an action does; \<open>None\<close> when it has to wait. A pipe holds \<open>cap\<close> bytes, and a \<^verbatim>\<open>write\<close> waits
  until there is room for all of its bytes. \<open>Wait\<close> is the return from \<^verbatim>\<open>pthread_cond_wait\<close>.
\<close>

fun effect :: "nat \<Rightarrow> actor \<Rightarrow> act \<Rightarrow> system \<Rightarrow> system option" where
  "effect cap a Lock s = (if mutex s = None then Some (s\<lparr>mutex := Some a\<rparr>) else None)"
| "effect cap a Unlock s = (if mutex s = Some a then Some (s\<lparr>mutex := None\<rparr>) else None)"
| "effect cap a Incr s = Some (s\<lparr>cnt := cnt s + 1\<rparr>)"
| "effect cap a Decr s = Some (s\<lparr>cnt := cnt s - 1\<rparr>)"
| "effect cap a (Test n) s = (if n = cnt s then Some s else None)"
| "effect cap a (Write w) s =
     (if length (pipe s) + length w \<le> cap then Some (s\<lparr>pipe := pipe s @ w\<rparr>) else None)"
| "effect cap a (Read_Length h) s =
     (if h = take 4 (pipe s) \<and> length h = 4 then Some (s\<lparr>pipe := drop 4 (pipe s)\<rparr>) else None)"
| "effect cap a (Read k p) s =
     (if prefix p (pipe s) then Some (s\<lparr>pipe := drop (length p) (pipe s)\<rparr>) else None)"
| "effect cap a Signal s = Some (s\<lparr>sleep := (if sleep s = Asleep then Awake else sleep s)\<rparr>)"
| "effect cap a Wait s =
     (if sleep s = Awake \<and> mutex s = None then Some (s\<lparr>mutex := Some a, sleep := Running\<rparr>) else None)"
| "effect cap a (Append r) s = Some (s\<lparr>log_file := log_file s @ [r]\<rparr>)"

text \<open>
  The calling half of \<^verbatim>\<open>pthread_cond_wait\<close> releases the mutex and goes to sleep at once; a thread that
  sleeps may wake up without a signal.
\<close>

inductive step :: "nat \<Rightarrow> (nat \<Rightarrow> string) \<Rightarrow> system \<Rightarrow> system \<Rightarrow> bool" for cap records where
  sender: "sender_next (records i) (senders s i) a = Some p \<Longrightarrow> effect cap (Sender i) a s = Some s' \<Longrightarrow>
     step cap records s (s'\<lparr>senders := (senders s)(i := p)\<rparr>)"
| logger: "logger_next (logger s) a = Some l \<Longrightarrow> effect cap Logger a s = Some s' \<Longrightarrow>
     step cap records s (s'\<lparr>logger := l\<rparr>)"
| fall_asleep: "logger s = Entering \<Longrightarrow> sleep s = Running \<Longrightarrow> mutex s = Some Logger \<Longrightarrow>
     step cap records s (s\<lparr>mutex := None, sleep := Asleep\<rparr>)"
| wake_up: "sleep s = Asleep \<Longrightarrow> step cap records s (s\<lparr>sleep := Awake\<rparr>)"

abbreviation reachable :: "nat \<Rightarrow> (nat \<Rightarrow> string) \<Rightarrow> system \<Rightarrow> bool" where
  "reachable cap records \<equiv> (step cap records)\<^sup>*\<^sup>* initial"

fun_cases sender_nextE: "sender_next r p a = Some q"
fun_cases logger_nextE: "logger_next p a = Some q"
lemmas sender_cases = sender_nextE [consumes 1]
lemmas logger_cases = logger_nextE [consumes 1]

section \<open>Mutual exclusion\<close>

definition inside :: "phase \<Rightarrow> bool" where
  "inside p \<longleftrightarrow> p \<noteq> Before \<and> p \<noteq> After"

lemma inside_simps [simp]:
  "\<not> inside Before" "inside Locked" "inside Counted" "inside Announced" "inside Written" "inside Signalled"
  "\<not> inside After"
  by (simp_all add: inside_def)

definition logger_inside :: "system \<Rightarrow> bool" where
  "logger_inside s \<longleftrightarrow> logger s \<noteq> Start \<and> (logger s = Entering \<longrightarrow> sleep s = Running)"

definition exclusive :: "system \<Rightarrow> bool" where
  "exclusive s \<longleftrightarrow> (\<forall>i. inside (senders s i) \<longleftrightarrow> mutex s = Some (Sender i)) \<and>
     (logger_inside s \<longleftrightarrow> mutex s = Some Logger) \<and> (sleep s \<noteq> Running \<longrightarrow> logger s = Entering)"

lemma exclusive_initial: "exclusive initial"
  by (simp add: exclusive_def initial_def inside_def logger_inside_def)

lemma exclusive_step:
  assumes "exclusive s" "step cap records s s'"
  shows "exclusive s'"
proof -
  have senders: "inside (senders s i) \<longleftrightarrow> mutex s = Some (Sender i)" for i
    using assms(1) by (auto simp: exclusive_def)
  have inner: "logger_inside s \<longleftrightarrow> mutex s = Some Logger" "sleep s = Running \<or> logger s = Entering"
    using assms(1) by (auto simp: exclusive_def)
  from assms(2) show ?thesis
  proof (cases rule: step.cases)
    case (sender i a p t)
    from sender(2) show ?thesis
      by (cases rule: sender_cases)
         (use sender senders [of i] senders inner in \<open>auto simp: exclusive_def logger_inside_def split: if_splits\<close>)
  next
    case (logger a l t)
    from logger(2) show ?thesis
      by (cases rule: logger_cases)
         (use logger senders inner in \<open>auto simp: exclusive_def logger_inside_def split: if_splits\<close>)
  next
    case fall_asleep
    then show ?thesis using senders inner by (simp add: exclusive_def logger_inside_def)
  next
    case wake_up
    then show ?thesis using senders inner by (simp add: exclusive_def logger_inside_def)
  qed
qed

section \<open>The pipe is a queue\<close>

text \<open>Records as \<^verbatim>\<open>thread_sender\<close> makes them: not empty, no NUL, and their length is an \<^verbatim>\<open>int\<close>.\<close>

definition loggable :: "string \<Rightarrow> bool" where
  "loggable r \<longleftrightarrow> r \<noteq> [] \<and> NUL \<notin> set r \<and> record_ok r"

text \<open>The header in the pipe without its record, and the counts without a record in the pipe.\<close>

definition half :: "(nat \<Rightarrow> string) \<Rightarrow> system \<Rightarrow> string" where
  "half records s = (case mutex s of
     Some (Sender i) \<Rightarrow> if senders s i = Announced then int_bytes (int (length (records i))) else []
   | _ \<Rightarrow> [])"

definition extra :: "system \<Rightarrow> int" where
  "extra s = (case mutex s of
     Some (Sender i) \<Rightarrow> if senders s i = Counted \<or> senders s i = Announced then 1 else 0
   | _ \<Rightarrow> if logger s = Logged then 1 else 0)"

text \<open>The senders whose record is in the pipe or in the log.\<close>

definition has_written :: "phase \<Rightarrow> bool" where
  "has_written p \<longleftrightarrow> p = Written \<or> p = Signalled \<or> p = After"

definition written :: "system \<Rightarrow> nat set" where
  "written s = {i. has_written (senders s i)}"

text \<open>The records that are in the pipe, the one included that the logger is reading.\<close>

definition in_pipe :: "(nat \<Rightarrow> string) \<Rightarrow> system \<Rightarrow> string list \<Rightarrow> bool" where
  "in_pipe records s q \<longleftrightarrow>
     (case logger s of
        Body n got \<Rightarrow> \<exists>r q'. q = r # q' \<and> n = int (length r) \<and> prefix got r \<and>
          got @ pipe s = r @ concat (map frame q')
      | _ \<Rightarrow> pipe s = concat (map frame q) @ half records s)"

definition queued :: "(nat \<Rightarrow> string) \<Rightarrow> system \<Rightarrow> string list \<Rightarrow> bool" where
  "queued records s q \<longleftrightarrow> exclusive s \<and> in_pipe records s q \<and> (\<forall>r \<in> set q. loggable r) \<and>
     cnt s = int (length q) + extra s \<and> (logger s = Header \<longrightarrow> q \<noteq> []) \<and>
     finite {i. senders s i \<noteq> Before} \<and>
     mset (log_file s @ q) = image_mset records (mset_set (written s))"

lemma queued_initial: "queued records initial []"
  unfolding queued_def using exclusive_initial
  by (simp add: in_pipe_def half_def extra_def written_def has_written_def initial_def)

lemma written_simps:
  "written (s\<lparr>senders := (senders s')(i := p)\<rparr>) =
     (if has_written p then insert i (written s') else written s' - {i})"
  by (auto simp: written_def)

lemma sleep_irrelevant [simp]:
  "half records (s\<lparr>sleep := x\<rparr>) = half records s" "extra (s\<lparr>sleep := x\<rparr>) = extra s"
  "written (s\<lparr>sleep := x\<rparr>) = written s" "in_pipe records (s\<lparr>sleep := x\<rparr>) q = in_pipe records s q"
proof -
  show half: "half records (s\<lparr>sleep := x\<rparr>) = half records s"
    by (auto simp: half_def split: option.splits actor.splits)
  show "extra (s\<lparr>sleep := x\<rparr>) = extra s" "written (s\<lparr>sleep := x\<rparr>) = written s"
    by (auto simp: extra_def written_def split: option.splits actor.splits)
  show "in_pipe records (s\<lparr>sleep := x\<rparr>) q = in_pipe records s q"
    by (auto simp: in_pipe_def half split: logger_phase.splits)
qed

lemma senders_Before_finite:
  "finite {j. senders s j \<noteq> Before} \<Longrightarrow> finite {j. ((senders s)(i := p)) j \<noteq> Before}"
  by (rule finite_subset [of _ "insert i {j. senders s j \<noteq> Before}"]) auto

lemma written_finite: "finite {i. senders s i \<noteq> Before} \<Longrightarrow> finite (written s)"
  by (erule rev_finite_subset) (auto simp: written_def has_written_def)

lemma queued_sender:
  assumes "queued records s q" "loggable (records i)"
    and "sender_next (records i) (senders s i) a = Some p" "effect cap (Sender i) a s = Some t"
    and "exclusive (t\<lparr>senders := (senders s)(i := p)\<rparr>)"
  shows "log_file t = log_file s"
    and "queued records (t\<lparr>senders := (senders s)(i := p)\<rparr>) (if p = Written then q @ [records i] else q)"
proof -
  note queued = assms(1) [unfolded queued_def]
  have senders: "inside (senders s j) \<longleftrightarrow> mutex s = Some (Sender j)" for j
    using queued by (auto simp: exclusive_def)
  have here: "mutex s = (if senders s i = Before then None else Some (Sender i))"
    using assms(3,4) senders [of i] by (cases rule: sender_cases) (auto split: if_splits)
  then have quiet: "logger s = Start \<or> logger s = Entering"
    using queued by (auto simp: exclusive_def logger_inside_def split: if_splits)
  have i: "i \<in> written s \<longleftrightarrow> has_written (senders s i)"
    by (simp add: written_def)
  have fin: "finite {j. ((senders s)(i := p)) j \<noteq> Before}" "finite (written s)"
    using queued senders_Before_finite [of s i p] written_finite [of s] by auto
  from assms(3) show "log_file t = log_file s"
    by (cases rule: sender_cases) (use assms(4) in \<open>auto split: if_splits\<close>)
  from assms(3) show "queued records (t\<lparr>senders := (senders s)(i := p)\<rparr>) (if p = Written then q @ [records i] else q)"
    unfolding queued_def
  proof (intro conjI assms(5), goal_cases)
    case 1
    then show ?case
      using queued assms(4) here quiet
      by (cases rule: sender_cases) (auto simp: in_pipe_def half_def frame_def split: if_splits)
  next
    case 2
    then show ?case using queued assms(2) by auto
  next
    case 3
    then show ?case
      using queued assms(4) here quiet
      by (cases rule: sender_cases) (auto simp: extra_def split: if_splits)
  next
    case 4
    then show ?case
      using queued assms(4) by (cases rule: sender_cases) (auto split: if_splits)
  next
    case 5
    then show ?case using fin(1) by simp
  next
    case 6
    then show ?case
      using queued assms(4) i fin(2)
      by (cases rule: sender_cases) (auto simp: written_simps has_written_def insert_absorb split: if_splits)
  qed
qed

lemma queued_logger:
  assumes "queued records s q" "logger_next (logger s) a = Some l" "effect cap Logger a s = Some t"
    and "exclusive (t\<lparr>logger := l\<rparr>)"
  shows "log_file t = (if l = Logged then log_file s @ [hd q] else log_file s)"
    and "l = Logged \<Longrightarrow> q \<noteq> []"
    and "queued records (t\<lparr>logger := l\<rparr>) (if l = Logged then tl q else q)"
proof -
  note queued = assms(1) [unfolded queued_def]
  have here: "mutex s = (if logger s = Start \<or> logger s = Entering then None else Some Logger)"
    using assms(2,3) queued by (cases rule: logger_cases) (auto simp: exclusive_def logger_inside_def split: if_splits)
  have header: "in_pipe records (t\<lparr>logger := l\<rparr>) q" if logger: "logger s = Header"
  proof -
    from queued logger obtain r q' where q: "q = r # q'" by (auto simp: neq_Nil_conv)
    with queued logger here have r: "record_ok r" "pipe s = frame r @ concat (map frame q')"
      by (auto simp: in_pipe_def half_def loggable_def)
    have "take 4 (pipe s) = int_bytes (int (length r))" "drop 4 (pipe s) = r @ concat (map frame q')"
      using frame_header(1) [OF r(1)] r(2) by (simp_all add: frame_def)
    moreover from assms(2) logger obtain h where h: "a = Read_Length h" "l = Body (bytes_int h) []"
      by (cases rule: logger_cases) (auto split: if_splits)
    moreover from assms(3) h(1) have "h = take 4 (pipe s)" "t = s\<lparr>pipe := drop 4 (pipe s)\<rparr>"
      by (auto split: if_splits)
    ultimately show ?thesis
      using q frame_header(2) [OF r(1)] by (auto simp: in_pipe_def)
  qed
  have body: "in_pipe records (t\<lparr>logger := l\<rparr>) q" if logger: "logger s = Body n got" "a = Read k p" for n got k p
  proof -
    from queued logger obtain r q' where q: "q = r # q'" "n = int (length r)" "prefix got r"
        "got @ pipe s = r @ concat (map frame q')" by (auto simp: in_pipe_def)
    from assms(2,3) logger have p: "int (length p) \<le> n - int (length got)" "l = Body n (got @ p)"
      "prefix p (pipe s)" "t = s\<lparr>pipe := drop (length p) (pipe s)\<rparr>"
      by (auto split: if_splits)
    then obtain u where u: "pipe s = p @ u" by (auto simp: prefix_def)
    have "prefix (got @ p) (r @ concat (map frame q'))" by (simp flip: q(4) add: u)
    then have "prefix (got @ p) r"
      by (rule prefix_length_prefix) (use p(1) q(2) in auto)
    with q p u show ?thesis by (auto simp: in_pipe_def)
  qed
  have appending: "q \<noteq> []" "log_file t = log_file s @ [hd q]" "pipe t = concat (map frame (tl q))"
    if logger: "logger s = Body n got" "a = Append x" for n got x
  proof -
    from queued logger obtain r q' where q: "q = r # q'" "n = int (length r)" "prefix got r"
        "got @ pipe s = r @ concat (map frame q')" "loggable r" by (auto simp: in_pipe_def)
    from assms(2,3) logger have x: "int (length got) = n" "x = cstr got" "t = s\<lparr>log_file := log_file s @ [x]\<rparr>"
      by (auto split: if_splits)
    then have "got = r" using q(2,3) by (auto simp: prefix_def)
    with q x show "q \<noteq> []" "log_file t = log_file s @ [hd q]" "pipe t = concat (map frame (tl q))"
      by (auto simp: loggable_def cstr_id)
  qed
  from assms(2) show "log_file t = (if l = Logged then log_file s @ [hd q] else log_file s)"
    using appending assms(3) by (cases rule: logger_cases) (auto split: if_splits)
  from assms(2) show "l = Logged \<Longrightarrow> q \<noteq> []"
    by (cases rule: logger_cases) (use appending in \<open>auto split: if_splits\<close>)
  from assms(2) show "queued records (t\<lparr>logger := l\<rparr>) (if l = Logged then tl q else q)"
    unfolding queued_def
  proof (intro conjI assms(4), goal_cases)
    case 1
    then show ?case
      using queued assms(3) here header body appending
      by (cases rule: logger_cases) (auto simp: in_pipe_def half_def split: if_splits)
  next
    case 2
    then show ?case using queued by (cases q) auto
  next
    case 3
    then show ?case
      using queued assms(3) here appending
      by (cases rule: logger_cases; cases q) (auto simp: extra_def split: if_splits)
  next
    case 4
    then show ?case
      using queued assms(3) here by (cases rule: logger_cases) (auto simp: extra_def split: if_splits)
  next
    case 5
    then show ?case
      using queued assms(3) by (cases rule: logger_cases) (auto split: if_splits)
  next
    case 6
    then show ?case
      using queued assms(3) appending
      by (cases rule: logger_cases; cases q) (auto simp: written_def split: if_splits)
  qed
qed

section \<open>Refinement of a queue\<close>

text \<open>The abstract system: a queue of records and the log. A sender puts, the logger takes.\<close>

inductive queue_step :: "(nat \<Rightarrow> string) \<Rightarrow> string list \<times> string list \<Rightarrow> string list \<times> string list \<Rightarrow> bool"
  for records where
  idle: "queue_step records x x"
| put: "queue_step records (q, done) (q @ [records i], done)"
| take: "queue_step records (r # q, done) (q, done @ [r])"

definition queue_of :: "system \<Rightarrow> string list" where
  "queue_of s = fst (unframe (case logger s of Body n got \<Rightarrow> int_bytes n @ got @ pipe s | _ \<Rightarrow> pipe s))"

definition abstract :: "system \<Rightarrow> string list \<times> string list" where
  "abstract s = (queue_of s, log_file s)"

lemma half_unframe:
  assumes "\<forall>i. loggable (records i)"
  shows "fst (unframe (half records s)) = []"
proof -
  have "unframe (int_bytes (int (length (records i)))) = ([], int_bytes (int (length (records i))))" for i
    using assms by (intro unframe_part [of "records i"]) (auto simp: loggable_def frame_def strict_prefix_def)
  then show ?thesis
    by (auto simp: half_def unframe_Nil split: option.splits actor.splits)
qed

lemma queued_queue_of:
  assumes "queued records s q" "\<forall>i. loggable (records i)"
  shows "queue_of s = q"
proof -
  have ok: "\<forall>r \<in> set q. record_ok r" using assms(1) by (auto simp: queued_def loggable_def)
  consider n got where "logger s = Body n got" | "\<forall>n got. logger s \<noteq> Body n got" by blast
  then show ?thesis
  proof cases
    case 1
    with assms(1) obtain r q' where q: "q = r # q'" "n = int (length r)" "got @ pipe s = r @ concat (map frame q')"
      by (auto simp: queued_def in_pipe_def)
    then have "int_bytes n @ got @ pipe s = concat (map frame q)" by (simp add: frame_def)
    with 1 pipe.get_all [OF ok, of "[]"] show ?thesis by (simp add: queue_of_def unframe_Nil)
  next
    case 2
    with assms(1) have "pipe s = concat (map frame q) @ half records s"
      by (auto simp: queued_def in_pipe_def split: logger_phase.splits)
    with 2 pipe.get_all [OF ok, of "half records s"] half_unframe [OF assms(2)] show ?thesis
      by (auto simp: queue_of_def split: logger_phase.splits)
  qed
qed

lemma queued_step:
  assumes "queued records s q" "\<forall>i. loggable (records i)" "step cap records s s'"
  shows "\<exists>q'. queued records s' q' \<and> queue_step records (q, log_file s) (q', log_file s')"
proof -
  have ex: "exclusive s'" using exclusive_step [OF _ assms(3)] assms(1) by (simp add: queued_def)
  from assms(3) show ?thesis
  proof (cases rule: step.cases)
    case (sender i a p t)
    from queued_sender [OF assms(1) spec [OF assms(2)] sender(2,3)] ex sender(1)
    have "log_file t = log_file s" "queued records s' (if p = Written then q @ [records i] else q)" by simp_all
    then show ?thesis
      using sender(1) by (intro exI [of _ "if p = Written then q @ [records i] else q"])
        (auto intro: queue_step.intros)
  next
    case (logger a l t)
    from queued_logger [OF assms(1) logger(2,3)] ex logger(1)
    have log: "log_file t = (if l = Logged then log_file s @ [hd q] else log_file s)" "l = Logged \<Longrightarrow> q \<noteq> []"
      "queued records s' (if l = Logged then tl q else q)" by simp_all
    then show ?thesis
      using logger(1) queue_step.take [of records "hd q" "tl q" "log_file s"] queue_step.idle
      by (intro exI [of _ "if l = Logged then tl q else q"]) auto
  next
    case fall_asleep
    then have "queued records s' q" "log_file s' = log_file s"
      using assms(1) ex by (simp_all add: queued_def in_pipe_def half_def extra_def written_def)
    then show ?thesis by (auto intro: queue_step.intros)
  next
    case wake_up
    then have "queued records s' q" "log_file s' = log_file s"
      using assms(1) ex by (simp_all add: queued_def)
    then show ?thesis by (auto intro: queue_step.intros)
  qed
qed

lemma queued_reachable:
  assumes "\<forall>i. loggable (records i)" "reachable cap records s"
  shows "queued records s (queue_of s)"
  using assms(2)
proof (induction rule: rtranclp_induct)
  case base
  show ?case using queued_initial queued_queue_of [OF queued_initial assms(1)] by simp
next
  case (step s s')
  from queued_step [OF step.IH assms(1) step.hyps(2)] queued_queue_of [OF _ assms(1)]
  show ?case by blast
qed

section \<open>The logger drains the queue\<close>

text \<open>While the logger holds the mutex with a record counted, only it can go on, and it always can.\<close>

definition draining :: "system \<Rightarrow> bool" where
  "draining s \<longleftrightarrow> logger s \<noteq> Start \<and> logger s \<noteq> Entering"

definition work_left :: "system \<Rightarrow> nat" where
  "work_left s = 3 * length (pipe s) +
     (case logger s of Testing \<Rightarrow> 2 | Header \<Rightarrow> 1 | Body n got \<Rightarrow> 4 | Logged \<Rightarrow> 3 | _ \<Rightarrow> 0)"

lemma draining_holds: "exclusive s \<Longrightarrow> draining s \<Longrightarrow> mutex s = Some Logger \<and> sleep s = Running"
  by (auto simp: exclusive_def draining_def logger_inside_def)

lemma draining_only_logger:
  assumes "exclusive s" "draining s" "step cap records s s'"
  obtains a l t where "s' = t\<lparr>logger := l\<rparr>" "logger_next (logger s) a = Some l" "effect cap Logger a s = Some t"
  using assms(3)
proof (cases rule: step.cases)
  case (sender i a p t)
  have "mutex s = Some Logger" using draining_holds [OF assms(1,2)] by simp
  moreover from this have "\<not> inside (senders s i)" using assms(1) by (simp add: exclusive_def)
  ultimately have "mutex s = Some Logger" "\<not> inside (senders s i)" .
  with sender(2,3) have False
    by (cases rule: sender_cases) (auto split: if_splits)
  then show ?thesis ..
next
  case fall_asleep
  with assms(2) show ?thesis by (simp add: draining_def)
next
  case wake_up
  with assms(1,2) show ?thesis by (auto dest: draining_holds)
qed

lemma read_shortens: "prefix p s \<Longrightarrow> p \<noteq> [] \<Longrightarrow> length s - length p < length s"
  by (cases p; cases s) auto

lemma draining_decreases:
  assumes "queued records s q" "draining s" "step cap records s s'"
  shows "if draining s' then work_left s' < work_left s else logger s' = Entering \<and> q = [] \<and> pipe s' = [] \<and> log_file s' = log_file s"
proof -
  have s: "exclusive s" "mutex s = Some Logger" using assms(1,2) draining_holds by (auto simp: queued_def)
  from draining_only_logger [OF s(1) assms(2,3)] obtain a l t where
    step: "s' = t\<lparr>logger := l\<rparr>" "logger_next (logger s) a = Some l" "effect cap Logger a s = Some t" .
  from step(2) show ?thesis
    by (cases rule: logger_cases)
       (use step(1,3) s assms(1,2) in \<open>auto simp: draining_def work_left_def queued_def extra_def in_pipe_def half_def
          intro: read_shortens split: if_splits\<close>)
qed

lemma draining_goes_on:
  assumes "queued records s q" "draining s"
  shows "\<exists>s'. step cap records s s'"
proof -
  have s: "exclusive s" "mutex s = Some Logger" using assms draining_holds by (auto simp: queued_def)
  have "\<exists>a l t. logger_next (logger s) a = Some l \<and> effect cap Logger a s = Some t"
  proof (cases "logger s")
    case Testing
    then show ?thesis by (intro exI [of _ "Test (cnt s)"]) auto
  next
    case Header
    with assms(1) s(2) obtain r q' where "q = r # q'" "pipe s = frame r @ concat (map frame q')"
      by (auto simp: queued_def in_pipe_def half_def neq_Nil_conv)
    then have "length (take 4 (pipe s)) = 4" by (simp add: frame_def)
    with Header show ?thesis by (intro exI [of _ "Read_Length (take 4 (pipe s))"]) auto
  next
    case (Body n got)
    with assms(1) obtain r q' where q: "n = int (length r)" "prefix got r" "got @ pipe s = r @ concat (map frame q')"
      by (auto simp: queued_def in_pipe_def)
    then obtain u where u: "r = got @ u" by (auto simp: prefix_def)
    show ?thesis
    proof (cases "u = []")
      case True
      with Body q u show ?thesis by (intro exI [of _ "Append (cstr got)"]) auto
    next
      case False
      with Body q u show ?thesis by (intro exI [of _ "Read (n - int (length got)) u"]) auto
    qed
  next
    case Logged
    then show ?thesis by (intro exI [of _ Decr]) auto
  qed (use assms(2) in \<open>auto simp: draining_def\<close>)
  then show ?thesis by (blast intro: step.logger)
qed

lemma draining_run:
  assumes "queued records s q" "draining s"
  shows "\<exists>s'. (step cap records)\<^sup>*\<^sup>* s s' \<and> logger s' = Entering \<and> queued records s' [] \<and>
    log_file s' = log_file s @ q"
  using assms
proof (induction "work_left s" arbitrary: s q rule: less_induct)
  case less
  from draining_goes_on [OF less.prems] obtain s' where step: "step cap records s s'" by blast
  have ex: "exclusive s" using less.prems(1) by (simp add: queued_def)
  obtain a l t where s': "s' = t\<lparr>logger := l\<rparr>" "logger_next (logger s) a = Some l" "effect cap Logger a s = Some t"
    by (rule draining_only_logger [OF ex less.prems(2) step])
  define q' where "q' = (if l = Logged then tl q else q)"
  have q': "queued records s' q'" "log_file s' @ q' = log_file s @ q"
    using queued_logger [OF less.prems(1) s'(2,3)] exclusive_step [OF ex step] s'(1)
    by (auto simp: q'_def)
  note progress = draining_decreases [OF less.prems step]
  show ?case
  proof (cases "draining s'")
    case True
    with less.hyps [OF _ q'(1) True] progress obtain s'' where
      "(step cap records)\<^sup>*\<^sup>* s' s''" "logger s'' = Entering" "queued records s'' []"
      "log_file s'' = log_file s' @ q'" by auto
    with q'(2) step show ?thesis by (auto intro: converse_rtranclp_into_rtranclp)
  next
    case False
    with progress q'(1) step show ?thesis by (auto simp: q'_def split: if_splits)
  qed
qed

section \<open>Runs that stop\<close>

text \<open>One sender from its lock to its unlock, while nobody else moves.\<close>

definition sent :: "(nat \<Rightarrow> string) \<Rightarrow> nat \<Rightarrow> system" where
  "sent records m = initial\<lparr>cnt := int m, pipe := concat (map (frame \<circ> records) [0..<m]),
     senders := (\<lambda>i. if i < m then After else Before)\<rparr>"

text \<open>The state after \<open>m\<close> whole records and part of one: up to the counter, or up to its header.\<close>

definition half_sent :: "(nat \<Rightarrow> string) \<Rightarrow> nat \<Rightarrow> bool \<Rightarrow> system" where
  "half_sent records m announced = (sent records m)\<lparr>mutex := Some (Sender m), cnt := int m + 1,
     pipe := pipe (sent records m) @ (if announced then int_bytes (int (length (records m))) else []),
     senders := (senders (sent records m))(m := (if announced then Announced else Counted))\<rparr>"

lemma sender_step:
  "sender_next (records i) (senders s i) a = Some p \<Longrightarrow> effect cap (Sender i) a s \<noteq> None \<Longrightarrow>
   s' = (the (effect cap (Sender i) a s))\<lparr>senders := (senders s)(i := p)\<rparr> \<Longrightarrow> step cap records s s'"
  using step.sender by fastforce

lemma half_sent_counted:
  "(step cap records)\<^sup>*\<^sup>* (sent records m) (half_sent records m False)"
proof -
  let ?s = "(sent records m)\<lparr>mutex := Some (Sender m), senders := (senders (sent records m))(m := Locked)\<rparr>"
  have "step cap records (sent records m) ?s"
    by (rule sender_step [where i = m and a = Lock and p = Locked]) (simp_all add: sent_def initial_def)
  moreover have "step cap records ?s (half_sent records m False)"
    by (rule sender_step [where i = m and a = Incr and p = Counted]) (simp_all add: sent_def half_sent_def initial_def)
  ultimately show ?thesis by (meson converse_rtranclp_into_rtranclp r_into_rtranclp)
qed

lemma half_sent_announced:
  assumes "length (pipe (sent records m)) + 4 \<le> cap"
  shows "step cap records (half_sent records m False) (half_sent records m True)"
  by (rule sender_step [where i = m and a = "Write (int_bytes (int (length (records m))))" and p = Announced])
     (use assms in \<open>simp_all add: half_sent_def\<close>)

lemma sent_Suc:
  assumes "length (pipe (sent records m)) + 4 + length (records m) \<le> cap"
  shows "(step cap records)\<^sup>*\<^sup>* (sent records m) (sent records (Suc m))"
proof -
  let ?s = "half_sent records m True"
  let ?w = "?s\<lparr>pipe := pipe (sent records (Suc m)), senders := (senders ?s)(m := Written)\<rparr>"
  let ?g = "?w\<lparr>senders := (senders ?s)(m := Signalled)\<rparr>"
  have pipe: "pipe ?s @ records m = pipe (sent records (Suc m))"
    by (simp add: half_sent_def sent_def frame_def)
  have "step cap records ?s ?w"
    by (rule sender_step [where i = m and a = "Write (records m)" and p = Written])
       (use assms pipe in \<open>simp_all add: half_sent_def\<close>)
  moreover have "step cap records ?w ?g"
    by (rule sender_step [where i = m and a = Signal and p = Signalled])
       (simp_all add: half_sent_def sent_def initial_def)
  moreover have "step cap records ?g (sent records (Suc m))"
    by (rule sender_step [where i = m and a = Unlock and p = After])
       (auto simp: half_sent_def sent_def initial_def fun_eq_iff)
  moreover have "step cap records (half_sent records m False) ?s"
    by (rule half_sent_announced) (use assms in simp)
  ultimately show ?thesis
    using half_sent_counted [of cap records m] by (meson rtranclp.rtrancl_into_rtrancl)
qed

lemma sent_reachable:
  "length (pipe (sent records m)) \<le> cap \<Longrightarrow> reachable cap records (sent records m)"
proof (induction m)
  case 0
  have "sent records 0 = initial" by (simp add: sent_def initial_def)
  then show ?case by simp
next
  case (Suc m)
  then have "length (pipe (sent records m)) + 4 + length (records m) \<le> cap"
    by (simp add: sent_def frame_def)
  with Suc.IH sent_Suc [of records m cap] show ?case by (meson add_leD1 rtranclp_trans)
qed

lemma sent_pipe_length: "4 * m \<le> length (pipe (sent records m))"
  by (induction m) (simp_all add: sent_def frame_def)

lemma half_sent_stuck:
  assumes "cap < length (pipe (half_sent records m b)) + (if b then length (records m) else 4)"
  shows "\<not> step cap records (half_sent records m b) s'"
proof
  let ?s = "half_sent records m b"
  have s: "mutex ?s = Some (Sender m)" "logger ?s = Start" "sleep ?s = Running"
    "senders ?s = (\<lambda>i. if i < m then After else if i = m then if b then Announced else Counted else Before)"
    by (auto simp: half_sent_def sent_def initial_def fun_eq_iff)
  assume "step cap records ?s s'"
  then show False
  proof (cases rule: step.cases)
    case (sender i a p t)
    from sender(2) show False
      by (cases rule: sender_cases) (use assms s sender(3) in \<open>auto split: if_splits\<close>)
  next
    case (logger a l t)
    from logger(2) show False
      by (cases rule: logger_cases) (use s logger(3) in auto)
  qed (use s in auto)
qed

text \<open>The logger starts after one sender has finished, and goes to sleep.\<close>

definition overslept :: "(nat \<Rightarrow> string) \<Rightarrow> system" where
  "overslept records = (sent records 1)\<lparr>sleep := Asleep, logger := Entering\<rparr>"

lemma overslept_reachable:
  assumes "length (frame (records 0)) \<le> cap"
  shows "reachable cap records (overslept records)"
proof -
  have "reachable cap records (sent records 1)"
    by (rule sent_reachable) (use assms in \<open>simp add: sent_def\<close>)
  moreover have "step cap records (sent records 1) ((sent records 1)\<lparr>mutex := Some Logger, logger := Entering\<rparr>)"
    using step.logger [of "sent records 1" Lock Entering cap "(sent records 1)\<lparr>mutex := Some Logger\<rparr>" records]
    by (simp add: sent_def initial_def)
  moreover have "step cap records ((sent records 1)\<lparr>mutex := Some Logger, logger := Entering\<rparr>) (overslept records)"
    using step.fall_asleep [of "(sent records 1)\<lparr>mutex := Some Logger, logger := Entering\<rparr>" cap records]
    by (simp add: overslept_def sent_def initial_def)
  ultimately show ?thesis by (meson rtranclp.rtrancl_into_rtrancl)
qed

lemma overslept_step:
  assumes "step cap records (overslept records) s'"
  shows "s' = (overslept records)\<lparr>sleep := Awake\<rparr> \<or> (\<exists>i. 0 < i \<and> senders s' i = Locked)"
proof -
  have s: "logger (overslept records) = Entering" "sleep (overslept records) = Asleep"
    "senders (overslept records) = (\<lambda>i. if i < 1 then After else Before)" "mutex (overslept records) = None"
    by (simp_all add: overslept_def sent_def initial_def)
  from assms show ?thesis
  proof (cases rule: step.cases)
    case (sender i a p t)
    from sender(2) show ?thesis
      by (cases rule: sender_cases) (use s sender(1,3) in \<open>auto split: if_splits\<close>)
  next
    case (logger a l t)
    from logger(2) show ?thesis
      by (cases rule: logger_cases) (use s logger(3) in auto)
  qed (use s in auto)
qed

section \<open>Properties\<close>

definition example_records :: "nat \<Rightarrow> string" where
  "example_records i = ''record'' @ [LF]"

lemma example_loggable: "\<forall>i. loggable (example_records i)"
  by (simp add: loggable_def example_records_def record_ok_def)

text \<open>A sender that takes the mutex is a first step of the system.\<close>

lemma example_step:
  "step cap records initial (initial\<lparr>mutex := Some (Sender 0), senders := (\<lambda>_. Before)(0 := Locked)\<rparr>)"
  by (rule sender_step [where i = 0 and a = Lock and p = Locked]) (simp_all add: initial_def)

lemma example_draining:
  "\<exists>s. reachable 100 example_records s \<and> draining s \<and> queue_of s = [''record'' @ [LF]]"
proof -
  let ?o = "overslept example_records"
  have pre: "length (frame (example_records 0)) \<le> 100"
    by (simp add: frame_def example_records_def)
  let ?a = "?o\<lparr>sleep := Awake\<rparr>" and ?t = "?o\<lparr>sleep := Running, mutex := Some Logger, logger := Testing\<rparr>"
  have "step 100 example_records ?o ?a"
    by (rule step.wake_up) (simp add: overslept_def)
  moreover have "step 100 example_records ?a ?t"
    using step.logger [of ?a Wait Testing 100 "?a\<lparr>mutex := Some Logger, sleep := Running\<rparr>" example_records]
    by (simp add: overslept_def sent_def initial_def)
  ultimately have reach: "reachable 100 example_records ?t"
    using overslept_reachable [of example_records 100] pre by (meson rtranclp.rtrancl_into_rtrancl)
  have "unframe (frame (''record'' @ [LF])) = ([''record'' @ [LF]], [])"
    using pipe.get_put [of "''record'' @ [LF]" "[]"] by (simp add: record_ok_def unframe_Nil)
  then have "queue_of ?t = [''record'' @ [LF]]"
    by (simp add: queue_of_def overslept_def sent_def example_records_def)
  with reach show ?thesis by (intro exI [of _ ?t]) (simp add: draining_def)
qed

text \<open>
  C6: the log protocol refines a queue, whatever the interleaving: at every step the queue of
  records in the pipe and the log stay as they are, a sender has put its record at the end of
  the queue, or the first record has gone from the queue to the log.
\<close>

theorem log_refines_a_queue:
  assumes "\<forall>i. loggable (records i)" "reachable cap records s" "step cap records s s'"
  shows "queue_step records (abstract s) (abstract s')"
proof -
  from queued_step [OF queued_reachable [OF assms(1,2)] assms(1,3)] obtain q' where
    "queued records s' q'" "queue_step records (queue_of s, log_file s) (q', log_file s')" by blast
  with queued_queue_of [OF _ assms(1)] show ?thesis by (simp add: abstract_def)
qed

theorem log_refines_a_queue_witness:
  "\<exists>s'. step 100 example_records initial s' \<and> queue_step example_records (abstract initial) (abstract s')"
  using log_refines_a_queue [OF example_loggable rtranclp.rtrancl_refl example_step] example_step by blast

text \<open>
  C7: at every moment the records in the log and in the queue are those of the senders that have
  written, each exactly once, and their order never changes: later records come behind.
\<close>

theorem every_record_once_in_order:
  assumes "\<forall>i. loggable (records i)" "reachable cap records s" "(step cap records)\<^sup>*\<^sup>* s s'"
  shows "mset (log_file s @ queue_of s) = image_mset records (mset_set (written s)) \<and>
    prefix (log_file s @ queue_of s) (log_file s' @ queue_of s')"
proof
  show "mset (log_file s @ queue_of s) = image_mset records (mset_set (written s))"
    using queued_reachable [OF assms(1,2)] by (simp add: queued_def)
  from assms(3) show "prefix (log_file s @ queue_of s) (log_file s' @ queue_of s')"
  proof (induction rule: rtranclp_induct)
    case (step t u)
    have "queued records t (queue_of t)"
      by (rule queued_reachable [OF assms(1) rtranclp_trans [OF assms(2) step.hyps(1)]])
    from queued_step [OF this assms(1) step.hyps(2)] obtain q' where
      u: "queued records u q'" "queue_step records (queue_of t, log_file t) (q', log_file u)" by blast
    from u(2) have "prefix (log_file t @ queue_of t) (log_file u @ q')"
      by (cases rule: queue_step.cases) auto
    with step.IH queued_queue_of [OF u(1) assms(1)] show ?case by (simp add: prefix_order.order_trans)
  qed simp
qed

theorem every_record_once_in_order_witness:
  "\<exists>s. reachable 100 example_records s \<and> queue_of s = [''record'' @ [LF]] \<and>
     mset (log_file s @ queue_of s) = image_mset example_records (mset_set (written s))"
proof -
  obtain s where "reachable 100 example_records s" "queue_of s = [''record'' @ [LF]]"
    using example_draining by blast
  with every_record_once_in_order [OF example_loggable this(1) rtranclp.rtrancl_refl] show ?thesis by blast
qed

text \<open>
  C31: mutual exclusion. A sender between its lock and its unlock has the mutex, and so has the logger
  when it tests the counter, reads and writes; so at most one of them is there.
\<close>

theorem senders_and_logger_exclude_each_other:
  assumes "reachable cap records s"
  shows "(\<forall>i. inside (senders s i) = (mutex s = Some (Sender i))) \<and> (logger_inside s = (mutex s = Some Logger))"
proof -
  from assms have "exclusive s"
    by (induction rule: rtranclp_induct) (auto intro: exclusive_initial exclusive_step)
  then show ?thesis by (simp add: exclusive_def)
qed

theorem senders_and_logger_exclude_each_other_witness:
  "(\<forall>i. inside (senders initial i) = (mutex initial = Some (Sender i))) \<and>
   (logger_inside initial = (mutex initial = Some Logger))"
  by (rule senders_and_logger_exclude_each_other [OF rtranclp.rtrancl_refl])

text \<open>
  C9: once the logger is awake with the mutex, it writes all records that are in the pipe to the log, in
  order, and waits again with an empty pipe.
\<close>

theorem logger_drains_the_queue:
  assumes "\<forall>i. loggable (records i)" "reachable cap records s" "draining s"
  shows "\<exists>s'. (step cap records)\<^sup>*\<^sup>* s s' \<and> logger s' = Entering \<and> queue_of s' = [] \<and>
    log_file s' = log_file s @ queue_of s"
  using draining_run [OF queued_reachable [OF assms(1,2)] assms(3)] queued_queue_of [OF _ assms(1)] by blast

theorem logger_drains_the_queue_witness:
  "\<exists>s s'. (step 100 example_records)\<^sup>*\<^sup>* s s' \<and> logger s' = Entering \<and> queue_of s' = [] \<and>
    log_file s' = log_file s @ [''record'' @ [LF]]"
proof -
  obtain s where s: "reachable 100 example_records s" "draining s" "queue_of s = [''record'' @ [LF]]"
    using example_draining by blast
  from logger_drains_the_queue [OF example_loggable s(1,2)] s(3) show ?thesis by auto
qed

text \<open>
  C10: this needs no fairness and always ends: while the logger drains the pipe no sender can move,
  some step is possible, and every step takes bytes or a stage of the logger off what is left.
\<close>

theorem draining_terminates:
  assumes "\<forall>i. loggable (records i)"
  shows "wf {(s', s). reachable cap records s \<and> draining s \<and> draining s' \<and> step cap records s s'} \<and>
    {s. reachable cap records s \<and> draining s} \<subseteq> {s. \<exists>s'. step cap records s s'}"
proof
  have "{(s', s). reachable cap records s \<and> draining s \<and> draining s' \<and> step cap records s s'} \<subseteq> measure work_left"
    using draining_decreases [OF queued_reachable [OF assms]] by fastforce
  then show "wf {(s', s). reachable cap records s \<and> draining s \<and> draining s' \<and> step cap records s s'}"
    by (rule wf_subset [OF wf_measure])
  show "{s. reachable cap records s \<and> draining s} \<subseteq> {s. \<exists>s'. step cap records s s'}"
    using draining_goes_on [OF queued_reachable [OF assms]] by blast
qed

theorem draining_terminates_witness:
  "wf {(s', s). reachable 100 example_records s \<and> draining s \<and> draining s' \<and> step 100 example_records s s'}"
  using draining_terminates [OF example_loggable] by blast

text \<open>
  C32: the system can stop for good, whatever the size of the pipe: when the senders get the mutex
  often enough before the logger does, one of them waits for room in the pipe while it holds the
  mutex that the logger needs to make room. Nothing has been logged then, and nothing ever is.
\<close>

theorem full_pipe_deadlocks:
  "\<exists>s i. reachable cap records s \<and> inside (senders s i) \<and> log_file s = [] \<and> (\<forall>s'. \<not> step cap records s s')"
proof -
  let ?n = "\<lambda>m. length (pipe (sent records m))"
  have "?n 0 \<le> cap" by (simp add: sent_def)
  moreover have "cap < ?n (Suc cap)"
    using sent_pipe_length [of "Suc cap" records] by simp
  ultimately obtain m where m: "?n m \<le> cap" "cap < ?n (Suc m)"
    using ex_least_nat_less [of "\<lambda>m. cap < ?n m" "Suc cap"] by (auto simp: not_less)
  have reach: "reachable cap records (half_sent records m False)"
    using sent_reachable [OF m(1)] half_sent_counted [of cap records m] by (rule rtranclp_trans)
  have inside: "inside (senders (half_sent records m b) m)" "log_file (half_sent records m b) = []" for b
    by (simp_all add: half_sent_def sent_def initial_def)
  have Suc: "?n (Suc m) = ?n m + 4 + length (records m)" by (simp add: sent_def frame_def)
  show ?thesis
  proof (cases "?n m + 4 \<le> cap")
    case True
    then have "reachable cap records (half_sent records m True)"
      using reach half_sent_announced [of records m cap] by (meson rtranclp.rtrancl_into_rtrancl)
    moreover have "\<not> step cap records (half_sent records m True) s'" for s'
      by (rule half_sent_stuck) (use m(2) Suc in \<open>simp add: half_sent_def\<close>)
    ultimately show ?thesis using inside by blast
  next
    case False
    then have "\<not> step cap records (half_sent records m False) s'" for s'
      by (intro half_sent_stuck) (simp add: half_sent_def)
    with reach inside show ?thesis by blast
  qed
qed

text \<open>
  C33: a record can be left in the pipe while the logger sleeps: when its sender signals before the
  logger has reached \<^verbatim>\<open>pthread_cond_wait\<close>, which it calls without testing the counter, the signal is lost. Only
  another sender or a wake-up without a signal moves the system on.
\<close>

theorem lost_wake_up:
  assumes "\<forall>i. loggable (records i)" "length (frame (records 0)) \<le> cap"
  shows "\<exists>s. reachable cap records s \<and> queue_of s = [records 0] \<and> log_file s = [] \<and> sleep s = Asleep \<and>
    {s'. step cap records s s'} \<subseteq> insert (s\<lparr>sleep := Awake\<rparr>) {s'. \<exists>i. 0 < i \<and> senders s' i = Locked}"
proof (intro exI [of _ "overslept records"] conjI overslept_reachable assms(2))
  have "unframe (frame (records 0)) = ([records 0], [])"
    using pipe.get_put [of "records 0" "[]"] assms(1) by (simp add: loggable_def unframe_Nil)
  then show "queue_of (overslept records) = [records 0]"
    by (simp add: queue_of_def overslept_def sent_def)
  show "log_file (overslept records) = []" "sleep (overslept records) = Asleep"
    by (simp_all add: overslept_def sent_def initial_def)
  show "{s'. step cap records (overslept records) s'} \<subseteq>
      insert ((overslept records)\<lparr>sleep := Awake\<rparr>) {s'. \<exists>i. 0 < i \<and> senders s' i = Locked}"
    using overslept_step by auto
qed

theorem lost_wake_up_witness:
  "\<exists>s. reachable 11 example_records s \<and> queue_of s = [''record'' @ [LF]] \<and> log_file s = [] \<and> sleep s = Asleep \<and>
    {s'. step 11 example_records s s'} \<subseteq> insert (s\<lparr>sleep := Awake\<rparr>) {s'. \<exists>i. 0 < i \<and> senders s' i = Locked}"
proof -
  have "length (frame (example_records 0)) \<le> 11" by (simp add: frame_def example_records_def)
  from lost_wake_up [OF example_loggable this] show ?thesis
    unfolding example_records_def [of 0] .
qed

end
