(* ===== verification/Log_Write.thy ===== *)
theory Log_Write
  imports Log_Text
begin

text \<open>
  \<^verbatim>\<open>write_log\<close> with its allocations (log.c). Elsewhere a call of it is one event \<open>Log\<close>; here it is the program,
  with \<^verbatim>\<open>date_string\<close>, which it calls and which calls it. Each of the three allocations can fail; then
  \<^verbatim>\<open>write_log\<close> is called again to report that, and what follows this inner call is \<^verbatim>\<open>exit(5)\<close>: the inner call
  replaces the outer one, so the recursion is a loop whose state says whether it is inside. The lemmas show that a message is
  printed exactly once, that all memory is released, and that without memory the recursion has no end.
\<close>

section \<open>The program\<close>

type_synonym log_call = "bool \<times> level \<times> string \<times> log_arg list"

definition no_log_memory :: "reply \<Rightarrow> log_call" where
  "no_log_memory m = (True, ERROR, ''Malloc on writelog failed becouse: %s'', [AE (errno m)])"

text \<open>\<^verbatim>\<open>date_string\<close>: the date, or the inner call that reports its failure.\<close>

definition date_string_alloc :: "(log_call + string) prog" where
  "date_string_alloc =
     call (Mem (Malloc ''r'' 23)) (\<lambda>r.
     if rv r = 0 then ret (Inl (True, ERROR, ''Malloc on date_string failed becouse: %s'', [AE (errno r)]))
     else call (Proc Localtime) (\<lambda>timeinfo. ret (Inr (date_text (clock timeinfo)))))"

definition print_line :: "level \<Rightarrow> string \<Rightarrow> 'a prog \<Rightarrow> 'a prog" where
  "print_line log_lv log_string p =
     (case log_stream log_lv of
        Some Stderr \<Rightarrow> eff (File (PrintErr log_string)) p
      | Some Stdout \<Rightarrow> eff (File (PrintOut log_string)) p
      | None \<Rightarrow> p)"

definition write_log_round :: "(int \<Rightarrow> string) \<Rightarrow> log_call \<Rightarrow> (log_call + unit) prog" where
  "write_log_round strerror s =
     (let (inside, log_lv, error_string, args) = s in
      call (Mem (Malloc ''log_string'' (int LOG_STR_LEN))) (\<lambda>m.
      if rv m = 0 then ret (Inl (no_log_memory m))
      else
        bind date_string_alloc (\<lambda>res.
        case res of
          Inl again \<Rightarrow> ret (Inl again)
        | Inr ds \<Rightarrow>
            call (Mem (Malloc ''formatted_error_string'' (int (LOG_STR_LEN - length ds)))) (\<lambda>m.
            if rv m = 0 then ret (Inl (no_log_memory m))
            else
              (case log_message strerror ds error_string args of
                 None \<Rightarrow> crash ''formatted_error_string[-1]''
               | Some message \<Rightarrow>
                   let log_string = snprintf LOG_STR_LEN (ds @ '' '' @ log_lv_name log_lv @ '': '' @ message @ [LF]) in
                   eff (Mem (Free ''r''))
                   (print_line log_lv log_string
                   (eff (Mem (Free ''formatted_error_string''))
                   (eff (Mem (Free ''log_string''))
                   (if inside then exit 5 else ret (Inr ()))))))))))"

definition write_log_run :: "(int \<Rightarrow> string) \<Rightarrow> level \<Rightarrow> string \<Rightarrow> log_arg list \<Rightarrow> unit prog" where
  "write_log_run strerror log_lv error_string args =
     loop (write_log_round strerror) (False, log_lv, error_string, args)"

section \<open>What it prints and allocates\<close>

fun printed :: "event list \<Rightarrow> (stream \<times> string) list" where
  "printed (Eff (File (PrintErr s)) # es) = (Stderr, s) # printed es"
| "printed (Eff (File (PrintOut s)) # es) = (Stdout, s) # printed es"
| "printed (e # es) = printed es"
| "printed [] = []"

fun allocated :: "event list \<Rightarrow> string list" where
  "allocated (Sys (Mem (Malloc s n)) r # es) = (if rv r = 0 then [] else [s]) @ allocated es"
| "allocated (e # es) = allocated es"
| "allocated [] = []"

fun freed :: "event list \<Rightarrow> string list" where
  "freed (Eff (Mem (Free s)) # es) = s # freed es"
| "freed (e # es) = freed es"
| "freed [] = []"

fun times_read :: "event list \<Rightarrow> tm list" where
  "times_read (Sys (Proc Localtime) r # es) = clock r # times_read es"
| "times_read (e # es) = times_read es"
| "times_read [] = []"

lemma printed_append [simp]: "printed (es @ es') = printed es @ printed es'"
  by (induction es rule: printed.induct) auto

lemma allocated_append [simp]: "allocated (es @ es') = allocated es @ allocated es'"
  by (induction es rule: allocated.induct) auto

lemma freed_append [simp]: "freed (es @ es') = freed es @ freed es'"
  by (induction es rule: freed.induct) auto

lemma times_read_append [simp]: "times_read (es @ es') = times_read es @ times_read es'"
  by (induction es rule: times_read.induct) auto

lemma write_log_round_consumes:
  "runs any_os (write_log_round strerror s) (\<lambda>out es. goes_round out \<longrightarrow> 0 < calls es)"
proof -
  have date: "runs any_os date_string_alloc (\<lambda>_ _. True)"
    unfolding date_string_alloc_def by (intro runs_intros) simp_all
  have rest: "runs any_os (print_line l x p) (\<lambda>_ _. True)" if "runs any_os p (\<lambda>_ _. True)" for l x and p :: "'a prog"
    using that unfolding print_line_def by (auto intro!: runs_eff split: option.splits stream.splits)
  show ?thesis
    unfolding write_log_round_def Let_def
    by (intro runs_case_prod consumes_call runs_if runs_ret runs_trivial_bind [OF date])
       (auto intro!: runs_call runs_if runs_ret runs_crash runs_eff runs_exit rest split: sum.splits option.splits)
qed

interpretation write_log_loop: loop_body "write_log_round strerror" for strerror
  by unfold_locales (rule write_log_round_consumes)

definition stream_of :: "level \<Rightarrow> stream" where
  "stream_of l = (if l \<le> WARNING then Stderr else Stdout)"

lemma log_stream_of: "log_stream l = Some (stream_of l)"
  by (simp add: log_stream_def stream_of_def less_eq_level_def level_num_def split: level.splits)

definition log_failures :: "string list" where
  "log_failures = [''Malloc on writelog failed becouse: %s'', ''Malloc on date_string failed becouse: %s'']"

text \<open>The state of the recursion: the call that was made, or an inner call that reports an allocation.\<close>

definition log_state :: "log_call \<Rightarrow> log_call \<Rightarrow> event list \<Rightarrow> bool" where
  "log_state s0 s es \<longleftrightarrow> printed es = [] \<and>
     (if fst s then \<exists>m e. m \<in> set log_failures \<and> s = (True, ERROR, m, [AE e]) else s = s0 \<and> es = [])"

definition log_result :: "(int \<Rightarrow> string) \<Rightarrow> level \<Rightarrow> string \<Rightarrow> log_arg list \<Rightarrow> unit outcome \<Rightarrow> event list \<Rightarrow> bool" where
  "log_result strerror l s args out es \<longleftrightarrow>
     (case out of
        Ret u \<Rightarrow> (\<exists>t line. times_read es = [t] \<and> write_log strerror t l s args = Some line \<and>
            printed es = [(stream_of l, line)]) \<and>
          allocated es = [''log_string'', ''r'', ''formatted_error_string''] \<and>
          freed es = [''r'', ''formatted_error_string'', ''log_string'']
      | Exit n \<Rightarrow> n = 5 \<and> (\<exists>t m e line. m \<in> set log_failures \<and> write_log strerror t ERROR m [AE e] = Some line \<and>
            printed es = [(Stderr, line)])
      | ThreadExit \<Rightarrow> False
      | _ \<Rightarrow> printed es = [])"

lemma write_log_Some:
  "log_message strerror (date_text t) s args = Some m \<Longrightarrow> write_log strerror t l s args =
     Some (snprintf LOG_STR_LEN (date_text t @ '' '' @ log_lv_name l @ '': '' @ m @ [LF]))"
  by (simp add: write_log_def Let_def)

lemma runs_date_string_alloc:
  "runs C date_string_alloc (\<lambda>out es. printed es = [] \<and> freed es = [] \<and>
     (case out of
        Ret (Inl again) \<Rightarrow> \<exists>e. again = (True, ERROR, ''Malloc on date_string failed becouse: %s'', [AE e])
      | Ret (Inr ds) \<Rightarrow> \<exists>t. ds = date_text t \<and> times_read es = [t] \<and> allocated es = [''r'']
      | _ \<Rightarrow> out = Blocked))"
  unfolding date_string_alloc_def by (intro runs_intros) auto

lemma runs_print_line:
  assumes "\<And>e. (\<And>es. printed (e # es) = (stream_of l, x) # printed es) \<Longrightarrow> (\<And>es. freed (e # es) = freed es) \<Longrightarrow>
    (\<And>es. allocated (e # es) = allocated es) \<Longrightarrow> (\<And>es. times_read (e # es) = times_read es) \<Longrightarrow>
    runs C p (\<lambda>out es. R out (e # es))"
  shows "runs C (print_line l x p) R"
proof (cases "stream_of l")
  case Stderr
  then show ?thesis unfolding print_line_def log_stream_of
    by simp (rule runs_eff, rule assms, simp_all)
next
  case Stdout
  then show ?thesis unfolding print_line_def log_stream_of
    by simp (rule runs_eff, rule assms, simp_all)
qed

lemma write_log_round_result:
  assumes "log_state (False, l0, s0, args0) s es0"
  shows "runs C (write_log_round strerror s)
    (round (log_state (False, l0, s0, args0)) (log_result strerror l0 s0 args0) es0)"
proof -
  obtain inside l f args where s: "s = (inside, l, f, args)" by (cases s)
  have quiet: "printed es0 = []" using assms by (simp add: log_state_def)
  have outer: "l = l0" "f = s0" "args = args0" "es0 = []" if "\<not> inside"
    using assms that by (simp_all add: log_state_def s)
  have inner: "\<exists>m e. m \<in> set log_failures \<and> l = ERROR \<and> f = m \<and> args = [AE e]" if inside
    using assms that by (auto simp: log_state_def s)
  have again: "log_state (False, l0, s0, args0) (True, ERROR, m, [AE e]) (es0 @ es)"
    if "m \<in> set log_failures" "printed es = []" for m e es
    using that quiet by (simp add: log_state_def)
  have wait: "log_result strerror l0 s0 args0 Blocked (es0 @ es)" "log_result strerror l0 s0 args0 (Crash m) (es0 @ es)"
    if "printed es = []" for es m
    using that quiet by (simp_all add: log_result_def)
  have start: "log_result strerror l0 s0 args0 Blocked es0"
    using quiet by (simp add: log_result_def)
  show ?thesis
    unfolding write_log_round_def s prod.case Let_def no_log_memory_def
  proof (intro runs_call runs_if runs_ret runs_bind_weaken [OF runs_date_string_alloc], goal_cases)
    case (3 m out es)
    show ?case
    proof (cases out)
      case (Ret res)
      show ?thesis
      proof (cases res)
        case (Inl a)
        with 3 Ret obtain e where "a = (True, ERROR, ''Malloc on date_string failed becouse: %s'', [AE e])" by auto
        with 3 Ret Inl show ?thesis by (auto intro!: runs_ret again simp: log_failures_def)
      next
        case (Inr ds)
        with 3 Ret obtain d where ds: "ds = date_text d" "times_read es = [d]" "allocated es = [''r'']" by auto
        show ?thesis
          unfolding Ret Inr after.simps sum.case
        proof (intro runs_call runs_if runs_ret, goal_cases)
          case (3 mf)
          show ?case
          proof (cases "log_message strerror ds f args")
            case None
            with 3 \<open>printed es = [] \<and> _\<close> show ?thesis by (auto intro!: runs_crash wait)
          next
            case (Some message)
            note line = write_log_Some [OF Some [unfolded ds(1)]]
            have stderr: "stream_of l = Stderr" if inside using inner [OF that] by (auto simp: stream_of_def less_eq_level_def level_num_def)
            have reported: "\<exists>t m. m \<in> set log_failures \<and> (\<exists>e. write_log strerror t ERROR m [AE e] =
                Some (snprintf LOG_STR_LEN (ds @ '' '' @ log_lv_name l @ '': '' @ message @ [LF])))" if inside
            proof -
              from inner [OF that] obtain e where "f \<in> set log_failures" "l = ERROR" "args = [AE e]" by blast
              with line ds(1) show ?thesis by (intro exI [of _ d] exI [of _ f] conjI exI [of _ e]) simp_all
            qed
            show ?thesis
              unfolding Some option.case
              by (intro runs_eff runs_print_line runs_if runs_exit runs_ret)
                 (use 3 quiet outer reported line ds stderr \<open>rv m \<noteq> 0\<close> \<open>printed es = [] \<and> _\<close> in
                   \<open>auto simp: log_result_def\<close>)
          qed
        qed (use 3 quiet in \<open>auto intro!: wait again simp: log_failures_def\<close>)
      qed
    qed (use 3 in \<open>auto intro!: wait\<close>)
  qed (auto intro!: start wait again simp: log_failures_def)
qed

lemma runs_write_log: "runs C (write_log_run strerror l s args) (log_result strerror l s args)"
  unfolding write_log_run_def
  by (rule write_log_loop.invariant [where I = "log_state (False, l, s, args)"])
     (simp add: log_state_def, rule write_log_round_result)

section \<open>Properties\<close>

text \<open>
  C39: a call of \<^verbatim>\<open>write_log\<close> that returns has printed its line once, on stderr for errors and warnings and on stdout
  otherwise, with the one time it has read, and has released its three allocations. When an allocation
  fails it does not return: the only line that is printed reports the failure, and the process ends with code 5, if the inner
  call finds memory. A message of newlines only makes it read before its buffer.
\<close>

theorem write_log_prints_once:
  "runs any_os (write_log_run strerror l s args) (\<lambda>out es.
     case out of
       Ret u \<Rightarrow> (\<exists>t line. times_read es = [t] \<and> write_log strerror t l s args = Some line \<and>
           printed es = [(if l = ERROR \<or> l = WARNING then Stderr else Stdout, line)]) \<and>
         allocated es = [''log_string'', ''r'', ''formatted_error_string''] \<and>
         freed es = [''r'', ''formatted_error_string'', ''log_string'']
     | Exit n \<Rightarrow> n = 5 \<and> (\<exists>t m e line. m \<in> set log_failures \<and> write_log strerror t ERROR m [AE e] = Some line \<and>
           printed es = [(Stderr, line)])
     | ThreadExit \<Rightarrow> False
     | _ \<Rightarrow> printed es = [])"
proof -
  have stream: "stream_of l = (if l = ERROR \<or> l = WARNING then Stderr else Stdout)"
    by (simp add: stream_of_def less_eq_level_def level_num_def split: level.splits)
  show ?thesis
    by (rule runs_weaken [OF runs_write_log], unfold log_result_def stream)
qed

text \<open>
  C40: without memory \<^verbatim>\<open>write_log\<close> never ends: it reports the failed allocation through itself, which allocates
  first. No budget of calls is enough for it to end, and nothing is ever printed.
\<close>

fun no_memory :: "call \<Rightarrow> reply \<Rightarrow> bool" where
  "no_memory (Mem (Malloc s n)) r = (rv r = 0)"
| "no_memory c r = True"

theorem write_log_never_ends_without_memory:
  "runs no_memory (write_log_run strerror l s args) (\<lambda>out es. out = Blocked \<and> printed es = [] \<and> allocated es = [])"
proof -
  have "runs no_memory (write_log_round strerror s) (\<lambda>out es. (goes_round out \<or> out = Blocked) \<and> printed es = [] \<and> allocated es = [])"
    for s
    unfolding write_log_round_def no_log_memory_def Let_def
    by (intro runs_case_prod runs_call runs_if runs_ret) auto
  note round = this
  show ?thesis
    unfolding write_log_run_def
  proof (rule write_log_loop.invariant [where I = "\<lambda>_ es. printed es = [] \<and> allocated es = []"])
    fix s es
    assume "printed es = [] \<and> allocated es = []"
    then have "Effects.round (\<lambda>_ es. printed es = [] \<and> allocated es = [])
        (\<lambda>out es. out = Blocked \<and> printed es = [] \<and> allocated es = []) es out es'"
      if "(goes_round out \<or> out = Blocked) \<and> printed es' = [] \<and> allocated es' = []" for out es'
      using that by (cases out rule: goes_round.cases) auto
    then show "runs no_memory (write_log_round strerror s) (Effects.round (\<lambda>_ es. printed es = [] \<and> allocated es = [])
        (\<lambda>out es. out = Blocked \<and> printed es = [] \<and> allocated es = []) es)"
      by (rule runs_weaken [OF round])
  qed simp
qed

end
