(* ===== verification/Win_Logger.thy ===== *)
theory Win_Logger
  imports Progress
begin

text \<open>
  The logger of the Win32 build, a program of its own (win32-multiprocess/logger.c): 64 instances of
  a named pipe in message mode; whichever has a message is read into the global buffer
  \<^verbatim>\<open>request\<close>, which is written to the log file and cleared, and the instance waits for its next
  client. \<^verbatim>\<open>TCHAR\<close> is \<^verbatim>\<open>char\<close>. The state is the buffer.
\<close>

section \<open>The code\<close>

definition WIN32_PIPE_BUFSIZE :: nat where "WIN32_PIPE_BUFSIZE = 1024"
definition WIN32_MAX_PIPES :: nat where "WIN32_MAX_PIPES = 64"
definition ERROR_IO_PENDING :: int where "ERROR_IO_PENDING = 997"
definition ERROR_PIPE_CONNECTED :: int where "ERROR_PIPE_CONNECTED = 535"
definition INVALID_HANDLE_VALUE :: int where "INVALID_HANDLE_VALUE = - 1"

text \<open>Whether the event is handled; a break does not end the process (\<^verbatim>\<open>CTRL_BREAK_EVENT\<close> is 1).\<close>

definition loggerConsoleEventHandler :: "int \<Rightarrow> bool prog" where
  "loggerConsoleEventHandler fdwCtrlType =
     (if fdwCtrlType = 1 then ret True
      else say INFO ''Quitting sacagawea-logger.exe!'' [] (ret False))"

definition connect_to_new_client :: "nat \<Rightarrow> unit prog" where
  "connect_to_new_client i =
     call (Win (ConnectNamedPipe i)) (\<lambda>fConnected.
     if rv fConnected \<noteq> 0 then
       say ERROR (''ConnectNamedPipe failed with %ld.'' @ [LF]) [AI (errno fConnected)] (ret ())
     else if errno fConnected = ERROR_IO_PENDING then ret ()
     else if errno fConnected = ERROR_PIPE_CONNECTED then
       call (Win (SetEvent i)) (\<lambda>s.
       if rv s \<noteq> 0 then ret ()
       else say ERROR (''ConnectNamedPipe failed with %ld.'' @ [LF]) [AI (errno s)] (ret ()))
     else say ERROR (''ConnectNamedPipe failed with %ld.'' @ [LF]) [AI (errno fConnected)] (ret ()))"

definition disconnect_and_reconnect :: "nat \<Rightarrow> unit prog" where
  "disconnect_and_reconnect i =
     call (Win (DisconnectNamedPipe i)) (\<lambda>d.
     say_if (rv d = 0) ERROR (''DisconnectNamedPipe Pipe[%d] failed with %ld.'' @ [LF]) [AI (int i), AI (errno d)]
     (connect_to_new_client i))"

text \<open>The buffer after it has been written; without a NUL \<^verbatim>\<open>strlen\<close> runs past it.\<close>

definition write_to_log_file :: "string \<Rightarrow> string prog" where
  "write_to_log_file request =
     call (Win (CreateLogFile SACAGAWEALOGS_PATH)) (\<lambda>hLogFile.
     if rv hLogFile = INVALID_HANDLE_VALUE then
       say ERROR ''CreateFileA %s failed with error: %d'' [AS SACAGAWEALOGS_PATH, AI (errno hLogFile)]
       (call (Win (CloseHandle ''hLogFile'')) (\<lambda>r.
        say_if (rv r = 0) ERROR ''Close hLogFile failed wirh error: %d'' [AI (errno r)] (ret request)))
     else if NUL \<notin> set request then crash ''strlen past the end of request''
     else
       call (Win (WriteLogFile (cstr request))) (\<lambda>bErrorFlag.
       say_if (rv bErrorFlag = 0) ERROR ''WriteFile %s failed with error: %d''
         [AS SACAGAWEALOGS_PATH, AI (errno bErrorFlag)]
       (call (Win (CloseHandle ''hLogFile'')) (\<lambda>r.
        say_if (rv r = 0) ERROR ''Close hLogFile failed wirh error: %d'' [AI (errno r)]
        (ret (replicate WIN32_PIPE_BUFSIZE NUL))))))"

text \<open>The pipe instances, one after the other; a failure is a return from \<^verbatim>\<open>main\<close>.\<close>

fun open_pipes :: "nat list \<Rightarrow> unit prog \<Rightarrow> unit prog" where
  "open_pipes [] p = p"
| "open_pipes (i # is) p =
     call (Win (CreateEvent i)) (\<lambda>hEvent.
     if rv hEvent = 0 then say ERROR ''CreateEvent failed with error code %I64d'' [AI (errno hEvent)] (exit 0)
     else
       call (Win (CreateNamedPipe i)) (\<lambda>hPipe.
       if rv hPipe = INVALID_HANDLE_VALUE then
         say ERROR ''CreateNamedPipe failed with error: %I64d'' [AI (errno hPipe)] (exit 0)
       else bind (connect_to_new_client i) (\<lambda>_. open_pipes is p)))"

text \<open>
  One message. \<^verbatim>\<open>whichPipe\<close> is a \<^verbatim>\<open>DWORD\<close>, and \<^verbatim>\<open>WAIT_OBJECT_0\<close> is 0. \<^verbatim>\<open>ReadFile\<close> stores the bytes
  also when it fails because the message is longer than the buffer.
\<close>

definition message_round :: "string \<Rightarrow> (string + unit) prog" where
  "message_round request =
     call (Win (WaitForMultipleObjects WIN32_MAX_PIPES)) (\<lambda>whichPipe.
     let i = nat (rv whichPipe mod 2 ^ 32) in
     if i > WIN32_MAX_PIPES - 1 then say ERROR ''Pipe index out of range.'' [] (exit 0)
     else
       call (Win (ReadMessage i WIN32_PIPE_BUFSIZE)) (\<lambda>fSuccess.
       let request = payload fSuccess @ drop (length (payload fSuccess)) request in
       if rv fSuccess = 0 then
         say ERROR (''ReadFile from Pipe failed with %ld.'' @ [LF]) [AI (errno fSuccess)] (ret (Inl request))
       else
         bind (write_to_log_file request) (\<lambda>request.
         bind (disconnect_and_reconnect i) (\<lambda>_. ret (Inl request)))))"

definition logger_main :: "unit prog" where
  "logger_main =
     call (Win SetConsoleCtrlHandler) (\<lambda>r.
     if rv r = 0 then say ERROR ''SetConsoleCtrlHandler Failed with error: %lld'' [AI (errno r)] (exit 1)
     else open_pipes [0..<WIN32_MAX_PIPES] (loop message_round (replicate WIN32_PIPE_BUFSIZE NUL)))"

section \<open>Messages and log\<close>

text \<open>
  The messages that arrived; the writes to the log file, in order, with whether they succeeded; the texts that
  are in the log; and how often a failed write was reported.
\<close>

fun messages :: "event list \<Rightarrow> string list" where
  "messages (Sys (Win (ReadMessage i n)) r # es) = (if rv r = 0 then [] else [payload r]) @ messages es"
| "messages (e # es) = messages es"
| "messages [] = []"

fun log_writes :: "event list \<Rightarrow> (string \<times> bool) list" where
  "log_writes (Sys (Win (WriteLogFile s)) r # es) = (s, rv r \<noteq> 0) # log_writes es"
| "log_writes (e # es) = log_writes es"
| "log_writes [] = []"

definition log_appends :: "event list \<Rightarrow> string list" where
  "log_appends es = map fst (filter snd (log_writes es))"

fun write_errors :: "event list \<Rightarrow> nat" where
  "write_errors (Log l s a # es) =
     (if l = ERROR \<and> s = ''WriteFile %s failed with error: %d'' then 1 else 0) + write_errors es"
| "write_errors (e # es) = write_errors es"
| "write_errors [] = 0"

lemma messages_append [simp]: "messages (es @ es') = messages es @ messages es'"
  by (induction es rule: messages.induct) auto

lemma log_writes_append [simp]: "log_writes (es @ es') = log_writes es @ log_writes es'"
  by (induction es rule: log_writes.induct) auto

lemma write_errors_append [simp]: "write_errors (es @ es') = write_errors es + write_errors es'"
  by (induction es rule: write_errors.induct) auto

text \<open>Every failed write is reported.\<close>

definition failures_told :: "event list \<Rightarrow> bool" where
  "failures_told es \<longleftrightarrow> write_errors es = length (filter (\<lambda>w. \<not> snd w) (log_writes es))"

text \<open>
  The operating system as the protocol wants it: every \<^verbatim>\<open>ReadFile\<close> gets a whole message, which is shorter
  than the buffer and has no NUL, and the log file can be opened. A \<^verbatim>\<open>WriteFile\<close> may fail.
\<close>

fun orderly_os :: "call \<Rightarrow> reply \<Rightarrow> bool" where
  "orderly_os (Win (ReadMessage i n)) r = (rv r \<noteq> 0 \<and> length (payload r) < n \<and> NUL \<notin> set (payload r))"
| "orderly_os (Win (CreateLogFile p)) r = (rv r \<noteq> INVALID_HANDLE_VALUE)"
| "orderly_os _ _ = True"

text \<open>Without promises, \<^verbatim>\<open>ReadFile\<close> stores at most as many bytes as the buffer has.\<close>

fun win_os :: "call \<Rightarrow> reply \<Rightarrow> bool" where
  "win_os (Win (ReadMessage i n)) r = (length (payload r) \<le> n)"
| "win_os _ _ = True"

abbreviation blank :: string where
  "blank \<equiv> replicate WIN32_PIPE_BUFSIZE NUL"

lemma cstr_message:
  assumes "NUL \<notin> set m" "length m < WIN32_PIPE_BUFSIZE"
  shows "NUL \<in> set (m @ drop (length m) blank)" "cstr (m @ drop (length m) blank) = m"
proof -
  obtain k where k: "WIN32_PIPE_BUFSIZE - length m = Suc k"
    using assms(2) by (metis Suc_diff_Suc)
  then show "NUL \<in> set (m @ drop (length m) blank)" "cstr (m @ drop (length m) blank) = m"
    using cstr_append_NUL [OF assms(1)] by simp_all
qed

text \<open>Connecting moves no message.\<close>

definition quiet :: "event list \<Rightarrow> bool" where
  "quiet es \<longleftrightarrow> messages es = [] \<and> log_writes es = [] \<and> write_errors es = 0"

lemma runs_connect:
  "runs C (connect_to_new_client i) (\<lambda>out es. quiet es \<and> (out = Ret () \<or> out = Blocked))"
  unfolding connect_to_new_client_def by (intro runs_intros) (simp_all add: quiet_def)

lemma runs_reconnect:
  "runs C (disconnect_and_reconnect i) (\<lambda>out es. quiet es \<and> (out = Ret () \<or> out = Blocked))"
  unfolding disconnect_and_reconnect_def connect_to_new_client_def by (intro runs_intros) (simp_all add: quiet_def)

text \<open>What one call does with the buffer: it is written up to its first NUL and cleared, or it stays.\<close>

definition log_written_or_lost :: "string \<Rightarrow> string outcome \<Rightarrow> event list \<Rightarrow> bool" where
  "log_written_or_lost request out es \<longleftrightarrow> messages es = [] \<and> failures_told es \<and>
     (out = Blocked \<and> map fst (log_writes es) \<in> {[], [cstr request]} \<or>
      out = Ret blank \<and> map fst (log_writes es) = [cstr request] \<and> NUL \<in> set request \<or>
      out = Ret request \<and> log_writes es = [] \<or>
      out = Crash ''strlen past the end of request'' \<and> log_writes es = [] \<and> NUL \<notin> set request)"

lemma runs_write_to_log_file: "runs C (write_to_log_file request) (log_written_or_lost request)"
  unfolding write_to_log_file_def by (intro runs_intros) (simp_all add: log_written_or_lost_def failures_told_def)

lemma runs_write_orderly:
  "runs orderly_os (write_to_log_file request) (\<lambda>out es. log_written_or_lost request out es \<and> \<not> (out = Ret request \<and> log_writes es = []))"
  unfolding write_to_log_file_def by (intro runs_intros) (simp_all add: log_written_or_lost_def failures_told_def)

lemma message_round_consumes: "runs any_os (message_round s) (\<lambda>out es. goes_round out \<longrightarrow> 0 < calls es)"
  unfolding message_round_def Let_def
  by (intro consumes_call runs_if runs_call runs_say runs_exit runs_ret runs_trivial_bind [OF runs_write_to_log_file]
        runs_trivial_bind [OF runs_reconnect] TrueI)

interpretation message_loop: loop_body message_round
  by unfold_locales (rule message_round_consumes)

text \<open>At most the last message has not been written yet.\<close>

definition orderly_log :: "unit outcome \<Rightarrow> event list \<Rightarrow> bool" where
  "orderly_log out es \<longleftrightarrow>
     (map fst (log_writes es) = messages es \<or>
      out = Blocked \<and> messages es \<noteq> [] \<and> map fst (log_writes es) = butlast (messages es)) \<and>
     failures_told es \<and> (out = Exit 0 \<or> out = Exit 1 \<or> out = Blocked)"

lemma runs_message_loop:
  "runs orderly_os (loop message_round blank) orderly_log"
proof (rule message_loop.invariant [where I = "\<lambda>s es. s = blank \<and> map fst (log_writes es) = messages es \<and> failures_told es"])
  fix s es0
  assume I: "s = blank \<and> map fst (log_writes es0) = messages es0 \<and> failures_told es0"
  show "runs orderly_os (message_round s) (round (\<lambda>s es. s = blank \<and> map fst (log_writes es) = messages es \<and> failures_told es) orderly_log es0)"
    unfolding message_round_def Let_def
  proof (intro runs_call runs_if runs_say runs_exit, goal_cases)
    case (5 w r)
    let ?m = "payload r" and ?i = "nat (rv w mod 2 ^ 32)"
    let ?pre = "[Sys (Win (WaitForMultipleObjects WIN32_MAX_PIPES)) w, Sys (Win (ReadMessage ?i WIN32_PIPE_BUFSIZE)) r]"
    from 5 have m: "NUL \<notin> set ?m" "length ?m < WIN32_PIPE_BUFSIZE" "rv r \<noteq> 0" by simp_all
    note message = cstr_message [OF m(1,2)]
    show ?case
    proof (rule runs_bind_weaken [OF runs_write_orderly], goal_cases)
      case (1 out es)
      then consider "out = Blocked" "messages es = []" "map fst (log_writes es) \<in> {[], [?m]}" "failures_told es"
        | "out = Ret blank" "messages es = []" "map fst (log_writes es) = [?m]" "failures_told es"
        using I message by (auto simp: log_written_or_lost_def)
      then show ?case
      proof cases
        case 1
        with I m(3) show ?thesis by (auto simp: orderly_log_def failures_told_def)
      next
        case 2
        have "runs orderly_os (bind (disconnect_and_reconnect ?i) (\<lambda>_. ret (Inl blank)))
            (\<lambda>out es'. round (\<lambda>s es. s = blank \<and> map fst (log_writes es) = messages es \<and> failures_told es) orderly_log es0 out (?pre @ es @ es'))"
          by (rule runs_bind_weaken [OF runs_reconnect])
             (use 2 I m(3) in \<open>auto simp: quiet_def orderly_log_def failures_told_def intro!: runs_ret\<close>)
        with 2(1) show ?thesis by simp
      qed
    qed
  qed (use I in \<open>auto simp: orderly_log_def failures_told_def\<close>)
qed (simp add: failures_told_def)

lemma runs_open_pipes:
  assumes "runs orderly_os p orderly_log"
  shows "runs orderly_os (open_pipes is p) orderly_log"
proof (induction "is")
  case Nil
  then show ?case by (simp add: assms)
next
  case (Cons i "is")
  have quiet: "orderly_log out (pre @ es)" if "orderly_log out es" "quiet pre" for out pre es
    using that by (auto simp: orderly_log_def quiet_def failures_told_def)
  show ?case
    unfolding open_pipes.simps
  proof (intro runs_call runs_if runs_say runs_exit, goal_cases)
    case (5 e h)
    let ?pre = "[Sys (Win (CreateEvent i)) e, Sys (Win (CreateNamedPipe i)) h]"
    show ?case
    proof (rule runs_bind_weaken [OF runs_connect], goal_cases)
      case (1 out es)
      have "runs orderly_os (open_pipes is p) (\<lambda>out es'. orderly_log out (?pre @ es @ es'))"
        by (rule runs_weaken [OF Cons]) (use quiet [of _ _ "?pre @ es"] 1 in \<open>auto simp: quiet_def failures_told_def\<close>)
      with 1 show ?case by (auto simp: orderly_log_def quiet_def failures_told_def)
    qed
  qed (simp_all add: orderly_log_def failures_told_def)
qed

text \<open>One round whose message is lost because the log file cannot be opened, and the next one.\<close>

definition open_fails_once :: "string \<Rightarrow> string \<Rightarrow> os \<Rightarrow> bool" where
  "open_fails_once m1 m2 os \<longleftrightarrow> (\<forall>h. rv (os h (Win (WaitForMultipleObjects WIN32_MAX_PIPES))) = 0 \<and>
     rv (os h (Win (ReadMessage 0 WIN32_PIPE_BUFSIZE))) = 1 \<and>
     payload (os h (Win (ReadMessage 0 WIN32_PIPE_BUFSIZE))) = (if messages h = [] then m1 else m2) \<and>
     rv (os h (Win (CreateLogFile SACAGAWEALOGS_PATH))) =
       (if length (messages h) = 1 then INVALID_HANDLE_VALUE else 1) \<and>
     (\<forall>s. rv (os h (Win (WriteLogFile s))) = 1) \<and> rv (os h (Win (CloseHandle ''hLogFile''))) = 1 \<and> rv (os h (Win (DisconnectNamedPipe 0))) = 1 \<and>
     rv (os h (Win (ConnectNamedPipe 0))) = 0 \<and> errno (os h (Win (ConnectNamedPipe 0))) = ERROR_IO_PENDING)"

lemma lost_round:
  assumes "open_fails_once m1 m2 os" "trace w = []" "budget w = 10"
  shows "\<exists>w'. message_round blank os w = (Ret (Inl (m1 @ drop (length m1) blank)), w') \<and>
    budget w' = 4 \<and> messages (trace w') = [m1] \<and> log_appends (trace w') = []"
  using assms unfolding open_fails_once_def
  by (simp add: message_round_def write_to_log_file_def disconnect_and_reconnect_def connect_to_new_client_def
      call_def bind_def say_if_def say_def ret_def emit_def Let_def log_appends_def)

lemma next_round:
  assumes "open_fails_once m1 m2 os" "messages (trace w) = [m1]" "log_appends (trace w) = []" "budget w = 4"
    and "NUL \<in> set (m2 @ drop (length m2) b)"
  shows "messages (trace (snd (message_round b os w))) = [m1, m2] \<and>
    log_appends (trace (snd (message_round b os w))) = [cstr (m2 @ drop (length m2) b)] \<and>
    fst (message_round b os w) = Blocked"
  using assms unfolding open_fails_once_def
  by (simp add: message_round_def write_to_log_file_def call_def bind_def say_if_def say_def ret_def emit_def Let_def
      INVALID_HANDLE_VALUE_def log_appends_def)

section \<open>Properties\<close>


text \<open>
  When the log file cannot be opened once, the message is lost, but not its end: the buffer is not
  cleared, and the next message, when it is shorter, is logged with the end of the lost one behind it.
\<close>

theorem win_logger_mixes_messages:
  assumes "NUL \<notin> set m1" "NUL \<notin> set m2" "length m2 < length m1" "length m1 < WIN32_PIPE_BUFSIZE"
    and "open_fails_once m1 m2 os" "trace w = []" "budget w = 10"
  shows "messages (trace (snd (loop message_round blank os w))) = [m1, m2] \<and>
    log_appends (trace (snd (loop message_round blank os w))) = [m2 @ drop (length m2) m1]"
proof -
  let ?b = "m1 @ drop (length m1) blank"
  from lost_round [OF assms(5-7)] obtain w' where w': "message_round blank os w = (Ret (Inl ?b), w')"
    "budget w' = 4" "messages (trace w') = [m1]" "log_appends (trace w') = []" by blast
  have b: "m2 @ drop (length m2) ?b = (m2 @ drop (length m2) m1) @ drop (length m1) blank"
    using assms(3) by simp
  have "length (m2 @ drop (length m2) m1) = length m1" "NUL \<notin> set (m2 @ drop (length m2) m1)"
    using assms(1-3) by (auto dest: in_set_dropD)
  with cstr_message [of "m2 @ drop (length m2) m1"] assms(4) b
  have next_buffer: "NUL \<in> set (m2 @ drop (length m2) ?b)" "cstr (m2 @ drop (length m2) ?b) = m2 @ drop (length m2) m1"
    by metis+
  note second = next_round [OF assms(5) w'(3,4,2) next_buffer(1)]
  obtain w'' where w'': "message_round ?b os w' = (Blocked, w'')"
    using second by (cases "message_round ?b os w'") auto
  have "loop message_round blank os w = loop message_round ?b os w'"
    by (subst message_loop.unfold) (simp only: bind_def w'(1) cont.simps sum.case)
  also have "\<dots> = (Blocked, w'')"
    by (subst message_loop.unfold) (simp only: bind_def w'' cont.simps)
  finally have "loop message_round blank os w = (Blocked, w'')" .
  with second next_buffer(2) w'' show ?thesis by simp
qed

text \<open>The messages \<^verbatim>\<open>a long one\<close> and \<^verbatim>\<open>short\<close>.\<close>

definition forgetful_os :: os where
  "forgetful_os h c = (case c of
     Win (ReadMessage i n) \<Rightarrow> (plain_reply 1)\<lparr>payload := (if messages h = [] then ''a long one'' else ''short'')\<rparr>
   | Win (CreateLogFile p) \<Rightarrow> plain_reply (if length (messages h) = 1 then INVALID_HANDLE_VALUE else 1)
   | Win (WaitForMultipleObjects n) \<Rightarrow> plain_reply 0
   | Win (ConnectNamedPipe i) \<Rightarrow> (plain_reply 0)\<lparr>errno := ERROR_IO_PENDING\<rparr>
   | _ \<Rightarrow> plain_reply 1)"

theorem win_logger_mixes_messages_witness:
  "log_appends (trace (snd (loop message_round blank forgetful_os \<lparr>trace = [], budget = 10\<rparr>))) = [''short'' @ ''g one'']"
proof -
  have "open_fails_once ''a long one'' ''short'' forgetful_os"
    by (simp add: open_fails_once_def forgetful_os_def plain_reply_def)
  then show ?thesis
    using win_logger_mixes_messages [of "''a long one''" "''short''" forgetful_os "\<lparr>trace = [], budget = 10\<rparr>"]
    by (simp add: WIN32_PIPE_BUFSIZE_def)
qed

end
