(* ===== verification/Win_File.thy ===== *)
theory Win_File
  imports File_Load
begin

text \<open>
  Sending a file in the Win32 build: \<^verbatim>\<open>load_file_memory_and_send\<close> (utility.c) makes a mapping of the
  file, and \<^verbatim>\<open>thread_sender\<close> (gopher.c) maps and sends one page of it after the other, then writes the
  record to the named pipe of the logger. The lemmas show that only bytes of the file go on the
  wire, in order, that a short \<^verbatim>\<open>send\<close> ends the transfer, and which handles are closed.
\<close>

section \<open>The sender\<close>

text \<open>\<open>h\<close> is the handle \<^verbatim>\<open>file_to_send\<close>, \<open>page\<close> is \<^verbatim>\<open>dwAllocationGranularity\<close>; \<open>None\<close> is the early \<^verbatim>\<open>return\<close>.\<close>

definition unmap_view :: "int \<Rightarrow> 'a prog \<Rightarrow> 'a prog" where
  "unmap_view h p =
     call (Win UnmapView) (\<lambda>u.
     say_if (rv u = 0) ERROR ''UnmapViewOfFile failed with error: %I64d'' [AI (errno u)]
     (say_if (rv u \<noteq> 0) DEBUG ''UnmapViewOfFile on %d'' [AI h] p))"

definition send_round_win32 :: "nat \<Rightarrow> int \<Rightarrow> client_args \<Rightarrow> nat \<Rightarrow> (nat + nat option) prog" where
  "send_round_win32 page h c bytes_sent =
     (if bytes_sent < c_len_file c then
        let n = min page (c_len_file c - bytes_sent) in
        call (Win (MapView h bytes_sent n)) (\<lambda>pBuf.
        if rv pBuf = 0 then
          say ERROR ''MapViewOfFile on %d failed wirh error: %d'' [AI h, AI (errno pBuf)] (ret (Inr None))
        else
          call (Net (Send (c_socket c) (payload pBuf))) (\<lambda>temp.
          if rv temp = - 1 then
            say ERROR ''Sending file to %s, with socket %d failed with error: %d''
              [AS (c_addr c), AI (c_socket c), AI (errno temp)]
            (unmap_view h pthread_exit)
          else
            let bytes_sent = bytes_sent + nat (rv temp) in
            unmap_view h
            (say DEBUG (''sent %lld/%lld bytes'' @ [LF]) [AI (int bytes_sent), AI (int (c_len_file c))]
            (ret (Inl bytes_sent)))))
      else ret (Inr (Some bytes_sent)))"

text \<open>After the shutdown the client is read until it closes; \<open>buff\<close> is logged as a C string.\<close>

definition closing_round_win32 :: "client_args \<Rightarrow> string \<Rightarrow> (string + unit) prog" where
  "closing_round_win32 c buff =
     call (Net (Recv (c_socket c) 512 NoFlags)) (\<lambda>r.
     let buff = (if rv r > 0 then payload r @ drop (length (payload r)) buff else buff) in
     if rv r > 0 then
       (if NUL \<notin> set buff then crash ''%s past the end of buff''
        else say DEBUG (''%s %d'' @ [TAB, LF]) [AS (cstr buff), AI (rv r)] (ret (Inl buff)))
     else if rv r < 0 then say ERROR ''recv() failed: %d'' [AI (errno r)] pthread_exit
     else ret (Inr ()))"

definition ERROR_PIPE_BUSY :: int where "ERROR_PIPE_BUSY = 231"

text \<open>The record goes to the named pipe as one message.\<close>

definition write_message :: "string \<Rightarrow> unit prog" where
  "write_message logs =
     call (Win OpenLogPipe) (\<lambda>hPipe.
     if rv hPipe = - 1 \<and> errno hPipe \<noteq> ERROR_PIPE_BUSY then
       say ERROR (''Could not open pipe. CreateFile failed with error: %ld'' @ [LF]) [AI (errno hPipe)] pthread_exit
     else
       call (Win (WaitNamedPipe 10000)) (\<lambda>w.
       if rv w = 0 then say ERROR ''Could not open pipe: 10 second wait timed out.'' [] pthread_exit
       else
         call (Win SetPipeMode) (\<lambda>m.
         if rv m = 0 then
           say ERROR (''SetNamedPipeHandleState failed with error: %ld'' @ [LF]) [AI (errno m)] pthread_exit
         else
           call (Win (WriteMessage logs)) (\<lambda>s.
           if rv s = 0 then say ERROR ''WriteFile to pipe failed with error: %ld'' [AI (errno s)] pthread_exit
           else
             call (Win (CloseHandle ''hPipe'')) (\<lambda>r.
             say_if (rv r = 0) ERROR ''Close hPipe failed wirh error: %d'' [AI (errno r)]
             (eff (Mem (Free ''logs_string'')) (ret ())))))))"

definition log_transfer_win32 :: "client_args \<Rightarrow> unit prog" where
  "log_transfer_win32 c =
     bind date_string (\<lambda>ds.
     call (Mem (Malloc ''logs_string'' (int (record_size ds c)))) (\<lambda>m.
     if rv m = 0 then say ERROR ''malloc() failed with error: %d'' [AI (errno m)] pthread_exit
     else eff (Mem (Free ''ds'')) (write_message (cstr (logs_string ds c)))))"

text \<open>\<open>garbage\<close> is what the array \<^verbatim>\<open>buff\<close> holds at first.\<close>

definition thread_sender_win32 :: "string \<Rightarrow> int \<Rightarrow> client_args \<Rightarrow> unit prog" where
  "thread_sender_win32 garbage h c =
     call (Win GetSystemInfo) (\<lambda>sysnfo.
     bind (loop (send_round_win32 (nat (num sysnfo)) h c) 0) (\<lambda>sent.
     case sent of
       None \<Rightarrow> ret ()
     | Some bytes_sent \<Rightarrow>
         call (Net (ShutdownWr (c_socket c))) (\<lambda>s.
         if rv s \<noteq> 0 then say ERROR ''shutdown on socket failed with error: %I64d'' [AI (errno s)] pthread_exit
         else
           bind (loop (closing_round_win32 c) garbage) (\<lambda>_.
           if bytes_sent = c_len_file c then bind (log_transfer_win32 c) (\<lambda>_. pthread_exit)
           else pthread_exit))))"

section \<open>Loading a file\<close>

text \<open>Behind the sender: wait for it and close what is left.\<close>

definition finish_transfer :: "client_args \<Rightarrow> (bool \<times> client_args) prog" where
  "finish_transfer c =
     call (Win WaitForThread) (\<lambda>r.
     if rv r = - 1 then say ERROR ''WaitThread sender failed wirh error: %d'' [AI (errno r)] (ret (False, c))
     else
       call (Win (CloseHandle ''tHandle'')) (\<lambda>r.
       if rv r = 0 then say ERROR ''Close tHandle failed wirh error: %d'' [AI (errno r)] (ret (False, c))
       else
         call (Win (CloseHandle ''hMapFile'')) (\<lambda>r.
         if rv r = 0 then say ERROR ''Close hMapFile failed wirh error: %d'' [AI (errno r)] (ret (False, c))
         else ret (True, c))))"

text \<open>The events of the sender are those until its creator has waited for it.\<close>

definition load_file_memory_and_send_win32 :: "string \<Rightarrow> client_args \<Rightarrow> (bool \<times> client_args) prog" where
  "load_file_memory_and_send_win32 garbage c =
     call (Win (OpenForRead (cstr (c_path_file c)))) (\<lambda>hFile.
     if rv hFile = - 1 then
       say ERROR ''Failed to CreateFile %s, with error: %d'' [AS (cstr (c_path_file c)), AI (errno hFile)] (ret (False, c))
     else
       call (Win (GetFileSizeEx (rv hFile))) (\<lambda>size.
       if rv size = 0 then
         say ERROR ''Failed to GetFileSizeEx on %s, with error: %d'' [AS (cstr (c_path_file c)), AI (errno size)] (ret (False, c))
       else
         let c = c\<lparr>c_len_file := nat (num size)\<rparr> in
         say DEBUG ''Sending %lld bytes file %s'' [AI (int (c_len_file c)), AS (cstr (c_path_file c))]
         (call (Win (CreateFileMapping (rv hFile) (int (c_len_file c)))) (\<lambda>hMapFile.
          if rv hMapFile = 0 then
            say ERROR ''CreateFileMappingA failed wirh error: %d'' [AI (errno hMapFile)] (ret (False, c))
          else
            say DEBUG ''CreateFileMappingA on %d'' [AI (rv hMapFile)]
            (call (Win (StartThread ''thread_sender'' c)) (\<lambda>tHandle.
             if rv tHandle = 0 then
               say ERROR ''CreateThread sender failed wirh error: %d'' [AI (errno tHandle)] (ret (False, c))
             else
               call (Win (CloseHandle ''hFile'')) (\<lambda>r.
               if rv r = 0 then say ERROR ''Close hFile failed wirh error: %d'' [AI (errno r)] (ret (False, c))
               else
                 in_thread (thread_sender_win32 garbage (rv hMapFile) c)
                 (finish_transfer c))))))))"

section \<open>What is on the wire\<close>

text \<open>
  The documented behaviour of the calls for a mapping of the bytes \<open>F\<close>: a view holds the bytes
  asked for and starts at a multiple of the granularity \<open>page\<close>; \<^verbatim>\<open>send\<close> of some bytes takes at least one.
\<close>

fun view_os :: "string \<Rightarrow> nat \<Rightarrow> call \<Rightarrow> reply \<Rightarrow> bool" where
  "view_os F page (Win (MapView h off n)) r = (rv r \<noteq> 0 \<longrightarrow> payload r = take n (drop off F) \<and> page dvd off)"
| "view_os F page (Net (Send fd s)) r = (rv r \<le> int (length s) \<and> (s \<noteq> [] \<longrightarrow> rv r \<noteq> 0) \<and> - 1 \<le> rv r)"
| "view_os F page (Win GetSystemInfo) r = (num r = int page)"
| "view_os F page (Win (GetFileSizeEx f)) r = (rv r \<noteq> 0 \<longrightarrow> num r = int (length F))"
| "view_os F page _ r = True"

fun win_records :: "event list \<Rightarrow> string list" where
  "win_records (Sys (Win (WriteMessage s)) r # es) = s # win_records es"
| "win_records (e # es) = win_records es"
| "win_records [] = []"

lemma win_records_append [simp]: "win_records (es @ es') = win_records es @ win_records es'"
  by (induction es rule: win_records.induct) auto

text \<open>All sends but the last one took a whole page.\<close>

definition whole_pages :: "nat \<Rightarrow> event list \<Rightarrow> bool" where
  "whole_pages page es \<longleftrightarrow> list_all (\<lambda>(fd, s, n). n = int page) (sends es)"

definition pages_sent :: "nat \<Rightarrow> string \<Rightarrow> client_args \<Rightarrow> nat \<Rightarrow> event list \<Rightarrow> bool" where
  "pages_sent page F c n es \<longleftrightarrow> n \<le> length F \<and> wire (c_socket c) es = take n F \<and> win_records es = [] \<and>
     list_all (\<lambda>(fd, s, n). n = int page) (butlast (sends es)) \<and>
     (n < length F \<longrightarrow> page dvd n \<longrightarrow> whole_pages page es)"

definition pages_result :: "nat \<Rightarrow> string \<Rightarrow> client_args \<Rightarrow> nat option outcome \<Rightarrow> event list \<Rightarrow> bool" where
  "pages_result page F c out es \<longleftrightarrow>
     prefix (wire (c_socket c) es) F \<and> win_records es = [] \<and>
     list_all (\<lambda>(fd, s, n). n = int page) (butlast (sends es)) \<and>
     (case out of Ret (Some n) \<Rightarrow> n = length F \<and> wire (c_socket c) es = F
        | Ret None \<Rightarrow> True | Exit n \<Rightarrow> False | Crash m \<Rightarrow> False | _ \<Rightarrow> True)"

lemma send_round_win32_consumes:
  "runs any_os (send_round_win32 page h c n) (\<lambda>out es. goes_round out \<longrightarrow> 0 < calls es)"
  unfolding send_round_win32_def unmap_view_def Let_def by (intro runs_intros) simp_all

interpretation pages_loop: loop_body "send_round_win32 page h c" for page h c
  by unfold_locales (rule send_round_win32_consumes)

lemma closing_round_win32_consumes:
  "runs any_os (closing_round_win32 c b) (\<lambda>out es. goes_round out \<longrightarrow> 0 < calls es)"
  unfolding closing_round_win32_def Let_def by (intro runs_intros) simp_all

interpretation closing_win32_loop: loop_body "closing_round_win32 c" for c
  by unfold_locales (rule closing_round_win32_consumes)

lemma sent_page:
  assumes "pages_sent page F c n es" "n < length F" "page dvd n" "0 < page"
    and "s = take (min page (length F - n)) (drop n F)" "0 < k" "k \<le> int (length s)"
    and "es' = es @ es1" "sends es1 = [(c_socket c, s, k)]" "win_records es1 = []"
  shows "pages_sent page F c (n + nat k) es'"
proof -
  have k: "nat k \<le> min page (length F - n)" "0 < nat k" using assms(5-7) by auto
  have "wire (c_socket c) es' = take n F @ take (nat k) s"
    using assms(1,8,9) by (simp add: pages_sent_def wire_def)
  also have "\<dots> = take (n + nat k) F"
    using k(1) assms(5) by (simp add: take_add)
  finally have wire: "wire (c_socket c) es' = take (n + nat k) F" .
  have whole: "whole_pages page es" using assms(1-3) by (simp add: pages_sent_def)
  have "k = int page" if "page dvd n + nat k"
  proof -
    have "page dvd nat k" using that assms(3) by (simp add: dvd_add_right_iff)
    then have "page \<le> nat k" using k(2) by (rule dvd_imp_le)
    with k show ?thesis by auto
  qed
  then show ?thesis
    using wire whole k(1) assms(1,2,8-10)
    by (auto simp: pages_sent_def whole_pages_def butlast_append)
qed

lemma pages_stop:
  "pages_sent page F c n es \<Longrightarrow> sends es1 = [] \<Longrightarrow> win_records es1 = [] \<Longrightarrow>
   out = Blocked \<or> out = ThreadExit \<or> out = Ret None \<Longrightarrow> pages_result page F c out (es @ es1)"
  by (auto simp: pages_sent_def pages_result_def take_is_prefix wire_def)

lemma refused_page:
  "pages_sent page F c n es \<Longrightarrow> n < length F \<Longrightarrow> page dvd n \<Longrightarrow> sends es1 = [(c_socket c, s, - 1)] \<Longrightarrow>
   win_records es1 = [] \<Longrightarrow> out = Blocked \<or> out = ThreadExit \<Longrightarrow> pages_result page F c out (es @ es1)"
  by (auto simp: pages_sent_def pages_result_def whole_pages_def take_is_prefix wire_def butlast_append)

lemma send_round_win32_keeps:
  assumes "pages_sent page F c n es0" "c_len_file c = length F" "0 < page"
  shows "runs (view_os F page) (send_round_win32 page h c n) (round (pages_sent page F c) (pages_result page F c) es0)"
  unfolding send_round_win32_def Let_def assms(2)
proof (intro runs_if runs_ret runs_call, goal_cases)
  case 1
  show ?case using pages_stop [OF assms(1), of "[]"] by simp
next
  case (2 v)
  then show ?case using pages_stop [OF assms(1), of "[Sys (Win (MapView h n (min page (length F - n)))) v]"]
    by (intro runs_say runs_ret) (simp add: pages_stop [OF assms(1)])
next
  case (3 v)
  then show ?case by (simp add: pages_stop [OF assms(1)])
next
  case (4 v temp)
  let ?s = "take (min page (length F - n)) (drop n F)"
  let ?pre = "[Sys (Win (MapView h n (min page (length F - n)))) v, Sys (Net (Send (c_socket c) (payload v))) temp]"
  from 4 have "pages_result page F c out (es0 @ ?pre @ es1)"
    if "out = Blocked \<or> out = ThreadExit" "sends es1 = []" "win_records es1 = []" for out es1
    using that by (intro refused_page [OF assms(1), of _ ?s]) simp_all
  then show ?case
    unfolding unmap_view_def by (intro runs_say runs_call runs_say_if runs_pthread_exit) auto
next
  case (5 v temp)
  let ?s = "take (min page (length F - n)) (drop n F)"
  let ?pre = "[Sys (Win (MapView h n (min page (length F - n)))) v, Sys (Net (Send (c_socket c) (payload v))) temp]"
  from 5 assms(3) have "0 < rv temp" "rv temp \<le> int (length ?s)" "page dvd n" by auto
  then have sent: "pages_sent page F c (n + nat (rv temp)) (es0 @ ?pre @ es1)"
    if "sends es1 = []" "win_records es1 = []" for es1
    using that 5 by (intro sent_page [OF assms(1) _ _ assms(3) refl _ _ refl]) simp_all
  then have "pages_result page F c Blocked (es0 @ ?pre)"
    using pages_stop [OF sent [of "[]"], of "[]"] by simp
  then show ?case
    unfolding unmap_view_def using sent by (intro runs_call runs_say_if runs_say runs_ret) auto
next
  case 6
  then show ?case using assms(1) by (auto simp: pages_sent_def pages_result_def)
qed

lemma runs_pages:
  assumes "c_len_file c = length F" "0 < page"
  shows "runs (view_os F page) (loop (send_round_win32 page h c) 0) (pages_result page F c)"
proof (rule pages_loop.invariant [where I = "pages_sent page F c"])
  show "pages_sent page F c 0 []"
    by (simp add: pages_sent_def wire_def whole_pages_def)
qed (rule send_round_win32_keeps [OF _ assms])

section \<open>The whole thread\<close>

definition unheard :: "event list \<Rightarrow> bool" where
  "unheard es \<longleftrightarrow> sends es = [] \<and> win_records es = []"

lemma unheard_simps [simp]:
  "unheard []" "unheard (es @ es') \<longleftrightarrow> unheard es \<and> unheard es'" "unheard (Log l s a # es) = unheard es"
  "unheard (Eff e # es) = unheard es" "unheard (Sys (Mem m) r # es) = unheard es"
  "unheard (Sys (Net (Recv fd n fl)) r # es) = unheard es" "unheard (Sys (Net (ShutdownWr fd)) r # es) = unheard es"
  "unheard (Sys (Proc x) r # es) = unheard es" "unheard (Sys (Win GetSystemInfo) r # es) = unheard es"
  by (auto simp: unheard_def)

lemma runs_closing_win32:
  "runs C (loop (closing_round_win32 c) b) (\<lambda>out es. unheard es \<and>
     (out = Ret () \<or> out = ThreadExit \<or> out = Blocked \<or> out = Crash ''%s past the end of buff''))"
proof (rule closing_win32_loop.invariant [where I = "\<lambda>_. unheard"])
  fix b es0
  assume "unheard es0"
  then show "runs C (closing_round_win32 c b) (round (\<lambda>_. unheard) (\<lambda>out es. unheard es \<and>
     (out = Ret () \<or> out = ThreadExit \<or> out = Blocked \<or> out = Crash ''%s past the end of buff'')) es0)"
    unfolding closing_round_win32_def Let_def by (intro runs_intros) auto
qed simp

definition message_sent :: "client_args \<Rightarrow> unit outcome \<Rightarrow> event list \<Rightarrow> bool" where
  "message_sent c out es \<longleftrightarrow> sends es = [] \<and>
     (win_records es = [] \<or> (\<exists>t. win_records es = [cstr (logs_string (date_text t) c)])) \<and>
     (out = Ret () \<or> out = ThreadExit \<or> out = Exit 5 \<or> out = Blocked)"

lemma runs_date_unheard:
  "runs C date_string (\<lambda>out es. unheard es \<and> (out = Exit 5 \<or> out = Blocked \<or> (\<exists>t. out = Ret (date_text t))))"
  unfolding date_string_def by (intro runs_intros) auto

lemma runs_write_message:
  "runs C (write_message s) (\<lambda>out es. sends es = [] \<and> (win_records es = [] \<or> win_records es = [s]) \<and>
     (out = Ret () \<or> out = ThreadExit \<or> out = Blocked))"
  unfolding write_message_def by (intro runs_intros) simp_all

lemma runs_log_transfer_win32: "runs C (log_transfer_win32 c) (message_sent c)"
  unfolding log_transfer_win32_def
proof (rule runs_bind_weaken [OF runs_date_unheard], goal_cases)
  case (1 out es)
  have "runs C (write_message (cstr (logs_string (date_text t) c)))
      (\<lambda>out es'. message_sent c out (es @ es1 @ es'))" if "unheard es1" for t es1
    by (rule runs_weaken [OF runs_write_message]) (use 1 that in \<open>auto simp: message_sent_def unheard_def\<close>)
  from this [of "[Sys (Mem x) r, Eff (Mem y)]" for x r y] 1 show ?case
    by (elim conjE disjE exE)
       (auto simp: message_sent_def unheard_def intro!: runs_call runs_if runs_say runs_eff runs_pthread_exit)
qed

definition page_sender_result :: "nat \<Rightarrow> string \<Rightarrow> client_args \<Rightarrow> unit outcome \<Rightarrow> event list \<Rightarrow> bool" where
  "page_sender_result page F c out es \<longleftrightarrow>
     prefix (wire (c_socket c) es) F \<and> list_all (\<lambda>(fd, s, n). n = int page) (butlast (sends es)) \<and>
     (win_records es = [] \<or>
      wire (c_socket c) es = F \<and> (\<exists>t. win_records es = [cstr (logs_string (date_text t) c)])) \<and>
     (out = Ret () \<or> out = ThreadExit \<or> out = Exit 5 \<or> out = Blocked \<or> out = Crash ''%s past the end of buff'')"

lemma unheard_after:
  "unheard es \<Longrightarrow> page_sender_result page F c out (es @ es') = page_sender_result page F c out es'"
  "unheard es \<Longrightarrow> page_sender_result page F c out (es' @ es) = page_sender_result page F c out es'"
  by (auto simp: page_sender_result_def unheard_def wire_def)

lemma system_info_first [simp]:
  "page_sender_result page F c out (Sys (Win GetSystemInfo) s # es) = page_sender_result page F c out es"
  by (simp add: page_sender_result_def wire_def)

lemma runs_thread_sender_win32:
  assumes "c_len_file c = length F" "0 < page"
  shows "runs (view_os F page) (thread_sender_win32 garbage h c) (page_sender_result page F c)"
  unfolding thread_sender_win32_def
proof (rule runs_call, goal_cases)
  case 1
  show ?case by (simp add: page_sender_result_def wire_def)
next
  case (2 s)
  let ?s = "[Sys (Win GetSystemInfo) s]"
  from 2 have page: "nat (num s) = page" by simp
  let ?last = "\<lambda>n u. if n = c_len_file c then bind (log_transfer_win32 c) (\<lambda>_. pthread_exit) else pthread_exit"
  show ?case
    unfolding page
  proof (rule runs_bind_weaken [OF runs_pages [OF assms]], goal_cases)
    case (1 out es)
    show ?case
    proof (cases "\<exists>n. out = Ret (Some n)")
      case True
      then obtain n where out: "out = Ret (Some n)" by blast
      with 1 have es: "wire (c_socket c) es = F" "win_records es = []" "n = length F"
        "list_all (\<lambda>(fd, s, n). n = int page) (butlast (sends es))"
        by (auto simp: pages_result_def)
      have after: "page_sender_result page F c out (es @ es')"
        if "unheard es'" "out = ThreadExit \<or> out = Blocked \<or> out = Crash ''%s past the end of buff''" for es' out
        using that es by (auto simp: page_sender_result_def unheard_def wire_def)
      have logged: "runs (view_os F page) (bind (log_transfer_win32 c) (\<lambda>_. pthread_exit))
          (\<lambda>out es''. page_sender_result page F c out (es @ es' @ es''))" if "unheard es'" for es'
        by (rule runs_bind_weaken [OF runs_log_transfer_win32])
           (use that es in \<open>auto simp: message_sent_def page_sender_result_def unheard_def wire_def intro!: runs_pthread_exit\<close>)
      show ?thesis
        unfolding out after.simps option.case
      proof (intro runs_call runs_if runs_say runs_pthread_exit, goal_cases)
        case (3 r)
        show ?case
        proof (rule runs_bind_weaken [OF runs_closing_win32], goal_cases)
          case (1 out es')
          let ?pre = "Sys (Net (ShutdownWr (c_socket c))) r # es'"
          have "unheard ?pre" using 1 by simp
          note last = logged [OF this] after [OF this]
          have "n = c_len_file c" using es(3) assms(1) by simp
          with 1 last show ?case
            by (elim conjE disjE) (simp_all add: unheard_after)
        qed
      qed (use after [of "[]"] in \<open>auto simp: unheard_after\<close>)
    next
      case False
      with 1 show ?thesis
        by (cases out) (auto simp: pages_result_def page_sender_result_def wire_def split: option.splits intro!: runs_ret)
    qed
  qed
qed

section \<open>The handles\<close>

text \<open>The handles of the function that were closed, in order (the sender closes the one of its pipe).\<close>

fun handles_closed :: "event list \<Rightarrow> string list" where
  "handles_closed (Sys (Win (CloseHandle s)) r # es) =
     (if rv r \<noteq> 0 \<and> s \<noteq> ''hPipe'' then [s] else []) @ handles_closed es"
| "handles_closed (e # es) = handles_closed es"
| "handles_closed [] = []"

lemma handles_closed_append [simp]: "handles_closed (es @ es') = handles_closed es @ handles_closed es'"
  by (induction es rule: handles_closed.induct) auto

fun no_handle :: "event \<Rightarrow> bool" where
  "no_handle (Sys (Win (CloseHandle s)) r) = (s = ''hPipe'')"
| "no_handle e = True"

lemma no_handle_closed: "\<forall>e \<in> set es. no_handle e \<Longrightarrow> handles_closed es = []"
  by (induction es rule: handles_closed.induct) auto

lemma only_thread_sender_win32: "only no_handle (thread_sender_win32 garbage h c)"
proof -
  have pages: "only no_handle (loop (send_round_win32 page h c) n)" for page n
    by (rule pages_loop.only_loop)
       (unfold send_round_win32_def unmap_view_def Let_def, intro only_intros; simp)
  have closing: "only no_handle (loop (closing_round_win32 c) b)" for b
    by (rule closing_win32_loop.only_loop) (unfold closing_round_win32_def Let_def, intro only_intros; simp)
  show ?thesis
    unfolding thread_sender_win32_def log_transfer_win32_def date_string_def write_message_def
    by (intro only_intros pages closing; simp?)
qed

definition load_win32_result :: "nat \<Rightarrow> string \<Rightarrow> client_args \<Rightarrow> (bool \<times> client_args) outcome \<Rightarrow> event list \<Rightarrow> bool" where
  "load_win32_result page F c out es \<longleftrightarrow>
     prefix (wire (c_socket c) es) F \<and> list_all (\<lambda>(fd, s, n). n = int page) (butlast (sends es)) \<and>
     (win_records es \<noteq> [] \<longrightarrow> wire (c_socket c) es = F) \<and>
     (case out of
        Ret (ok, c') \<Rightarrow> if ok then handles_closed es = [''hFile'', ''tHandle'', ''hMapFile'']
          else strict_prefix (handles_closed es) [''hFile'', ''tHandle'', ''hMapFile'']
      | Exit n \<Rightarrow> n = 5
      | ThreadExit \<Rightarrow> False
      | Crash m \<Rightarrow> m = ''%s past the end of buff''
      | Blocked \<Rightarrow> True)"

text \<open>The last part, from the waiting on: what the sender has done stays, and the handles are closed.\<close>

definition finished :: "(bool \<times> client_args) outcome \<Rightarrow> event list \<Rightarrow> bool" where
  "finished out es \<longleftrightarrow> sends es = [] \<and> win_records es = [] \<and>
     (case out of
        Ret (ok, c') \<Rightarrow> if ok then handles_closed es = [''tHandle'', ''hMapFile'']
          else handles_closed es \<in> {[], [''tHandle'']}
      | Blocked \<Rightarrow> True
      | _ \<Rightarrow> False)"

lemma runs_finish_transfer: "runs C (finish_transfer c) finished"
  unfolding finish_transfer_def by (intro runs_intros) (simp_all add: finished_def)

lemma load_finished:
  assumes "page_sender_result page F c out0 es" "handles_closed es = []" "finished out es'"
    and "sends pre = []" "win_records pre = []" "handles_closed pre = [''hFile'']"
  shows "load_win32_result page F c out (pre @ es @ es')"
proof -
  have "case out of
      Ret (ok, c') \<Rightarrow> if ok then ''hFile'' # handles_closed es' = [''hFile'', ''tHandle'', ''hMapFile'']
        else strict_prefix (''hFile'' # handles_closed es') [''hFile'', ''tHandle'', ''hMapFile'']
    | Exit n \<Rightarrow> n = 5 | ThreadExit \<Rightarrow> False | Crash m \<Rightarrow> m = ''%s past the end of buff'' | Blocked \<Rightarrow> True"
    using assms(3) by (cases out) (auto simp: finished_def strict_prefix_def)
  moreover have same: "sends (pre @ es @ es') = sends es" "win_records (pre @ es @ es') = win_records es"
    "handles_closed (pre @ es @ es') = ''hFile'' # handles_closed es'"
    using assms(2-6) by (simp_all add: finished_def)
  moreover have wire: "wire (c_socket c) (pre @ es @ es') = wire (c_socket c) es"
    unfolding wire_def same ..
  ultimately show ?thesis
    using assms(1) unfolding load_win32_result_def page_sender_result_def same wire by blast
qed

lemma load_stopped:
  assumes "page_sender_result page F c out0 es" "handles_closed es = []"
    and "sends pre = []" "win_records pre = []"
    and "out = Exit 5 \<or> out = Blocked \<or> out = Crash ''%s past the end of buff''"
  shows "load_win32_result page F c out (pre @ es)"
proof -
  have same: "sends (pre @ es) = sends es" "win_records (pre @ es) = win_records es" using assms(3,4) by simp_all
  moreover from same have "wire (c_socket c) (pre @ es) = wire (c_socket c) es" by (simp add: wire_def)
  ultimately show ?thesis
    using assms(1,5) unfolding load_win32_result_def page_sender_result_def by auto
qed

lemma runs_load_win32:
  assumes "0 < page"
  shows "runs (view_os F page) (load_file_memory_and_send_win32 garbage c) (load_win32_result page F c)"
proof -
  have early: "load_win32_result page F c out es"
    if "sends es = []" "win_records es = []"
      "case out of Ret (ok, c') \<Rightarrow> \<not> ok \<and> (handles_closed es = [] \<or> handles_closed es = [''hFile'']) | Blocked \<Rightarrow> True | _ \<Rightarrow> False"
    for out es
    using that by (cases out) (auto simp: load_win32_result_def wire_def strict_prefix_def)
  show ?thesis
    unfolding load_file_memory_and_send_win32_def Let_def
  proof (intro runs_call runs_if runs_say runs_ret, goal_cases)
    case (11 hFile size hMapFile tHandle r)
    let ?c = "c\<lparr>c_len_file := nat (num size)\<rparr>"
    from 11 have len: "c_len_file ?c = length F" by simp
    have same: "load_win32_result page F ?c = load_win32_result page F c"
      by (intro ext) (simp add: load_win32_result_def)
    show ?case
    proof (rule runs_in_thread, rule runs_weaken [OF runs_only [OF runs_thread_sender_win32 [OF len assms] only_thread_sender_win32]], goal_cases)
      case (1 out es)
      let ?pre = "[Sys (Win (OpenForRead (cstr (c_path_file c)))) hFile, Sys (Win (GetFileSizeEx (rv hFile))) size,
        Log DEBUG ''Sending %lld bytes file %s'' [AI (int (c_len_file ?c)), AS (cstr (c_path_file ?c))],
        Sys (Win (CreateFileMapping (rv hFile) (int (c_len_file ?c)))) hMapFile,
        Log DEBUG ''CreateFileMappingA on %d'' [AI (rv hMapFile)],
        Sys (Win (StartThread ''thread_sender'' ?c)) tHandle, Sys (Win (CloseHandle ''hFile'')) r]"
      from 1 have es: "page_sender_result page F ?c out es" "handles_closed es = []"
        using no_handle_closed by auto
      have pre: "sends ?pre = []" "win_records ?pre = []" "handles_closed ?pre = [''hFile'']"
        using 11 by simp_all
      note stop = load_stopped [OF es pre(1,2), unfolded same]
      from es(1) consider u where "thread_ended out = Ret u" | "thread_ended out = Exit 5" | "thread_ended out = Blocked"
        | "thread_ended out = Crash ''%s past the end of buff''"
        by (auto simp: page_sender_result_def)
      then show ?case
      proof cases
        case (1 u)
        have "runs (view_os F page) (finish_transfer ?c) (\<lambda>out' es'. load_win32_result page F c out' (?pre @ es @ es'))"
          by (rule runs_weaken [OF runs_finish_transfer]) (rule load_finished [OF es _ pre, unfolded same])
        with 1 show ?thesis by simp
      qed (use stop in simp_all)
    qed
  qed (auto intro: early)
qed

section \<open>Properties\<close>

text \<open>
  C36: a Win32 client gets a prefix of the mapped file and nothing else, a record reaches the logger only for the
  whole file, and every \<^verbatim>\<open>send\<close> but the last one has taken a whole page: after a short one the next view
  does not start at a page and is refused. The function reports success exactly when it has closed
  its three handles; when it reports failure at least one that it opened is left open, unless it opened none.
\<close>

theorem win_client_gets_the_mapped_file:
  assumes "0 < page"
  shows "runs (view_os F page) (load_file_memory_and_send_win32 garbage c) (\<lambda>out es.
    prefix (wire (c_socket c) es) F \<and> (win_records es = [] \<or> wire (c_socket c) es = F) \<and>
    list_all (\<lambda>(fd, s, n). n = int page) (butlast (sends es)) \<and>
    (case out of
       Ret (ok, c') \<Rightarrow> if ok then handles_closed es = [''hFile'', ''tHandle'', ''hMapFile'']
         else strict_prefix (handles_closed es) [''hFile'', ''tHandle'', ''hMapFile'']
     | Exit n \<Rightarrow> n = 5
     | ThreadExit \<Rightarrow> False
     | Crash m \<Rightarrow> m = ''%s past the end of buff''
     | Blocked \<Rightarrow> True))"
  by (rule runs_weaken [OF runs_load_win32 [OF assms]]) (auto simp: load_win32_result_def)

theorem win_client_gets_the_mapped_file_witness:
  "runs (view_os ''contents'' 65536) (load_file_memory_and_send_win32 [] example_client) (\<lambda>out es.
    prefix (wire (c_socket example_client) es) ''contents'')"
  by (rule runs_weaken [OF win_client_gets_the_mapped_file]) simp_all

end
