(* ===== verification/Win_Config.thy ===== *)
theory Win_Config
  imports Startup
begin

text \<open>
  The configuration in the Win32 build (config.c): \<^verbatim>\<open>do_regex\<close> with its calls of PCRE2, a home
  directory of at most 259 characters that ends in a backslash, and the lines of the file. The lemmas show that
  the invariant of the settings is kept: the group of \<^verbatim>\<open>do_regex\<close> has at most 255 characters here,
  so the array of the home directory always keeps its terminator.
\<close>

section \<open>The settings\<close>

definition PATH_MAX_WIN32 :: nat where "PATH_MAX_WIN32 = 260"

definition ends_in_backslash :: "string \<Rightarrow> bool" where
  "ends_in_backslash s \<longleftrightarrow> s \<noteq> [] \<and> last s = BACKSLASH"

definition win_homedir_ok :: "string \<Rightarrow> bool" where
  "win_homedir_ok buf \<longleftrightarrow> length buf = PATH_MAX_WIN32 \<and> buf ! 259 = NUL \<and> ends_in_backslash (cstr buf)"

definition win_settings_inv :: "settings_t \<Rightarrow> bool" where
  "win_settings_inv st \<longleftrightarrow> mode_ok (mode st) \<and> win_homedir_ok (homedir st) \<and> hostname_ok (hostname st)"

lemma win_settings_inv_port [simp]: "win_settings_inv (st\<lparr>port := p\<rparr>) = win_settings_inv st"
  by (simp add: win_settings_inv_def)

lemma win_settings_inv_socket [simp]: "win_settings_inv (st\<lparr>socket := s\<rparr>) = win_settings_inv st"
  by (simp add: win_settings_inv_def)

lemma win_home_bounds:
  assumes "win_settings_inv st"
  shows "home st \<noteq> []" "length (home st) < PATH_MAX_WIN32"
proof -
  from assms have ok: "length (homedir st) = PATH_MAX_WIN32" "homedir st ! 259 = NUL" "home st \<noteq> []"
    by (simp_all add: win_settings_inv_def win_homedir_ok_def ends_in_backslash_def)
  have "homedir st ! 259 \<in> set (homedir st)" by (rule nth_mem) (simp add: ok(1) PATH_MAX_WIN32_def)
  with ok(2) have "NUL \<in> set (homedir st)" by simp
  from cstr_length_less [OF this] ok show "home st \<noteq> []" "length (home st) < PATH_MAX_WIN32" by simp_all
qed

text \<open>\<^verbatim>\<open>homedir[strlen(homedir)] = '\\'; homedir[strlen(homedir) + 1] = 0\<close>\<close>

definition append_backslash :: "string \<Rightarrow> string" where
  "append_backslash buf =
     (let b1 = buf[length (cstr buf) := BACKSLASH]
      in b1[length (cstr b1) + 1 := NUL])"

section \<open>The operations\<close>

text \<open>
  \<^verbatim>\<open>num\<close> and \<^verbatim>\<open>payload\<close> of the reply to the compilation are the offset and the text of its error.
  Without match data nothing matches.
\<close>

definition do_regex_pcre2 :: "conf_pattern \<Rightarrow> string \<Rightarrow> string prog" where
  "do_regex_pcre2 p str =
     call (Mem (Malloc ''r'' 256)) (\<lambda>r.
     if rv r = 0 then say ERROR ''calloc of r failed'' [] (exit 1)
     else
       call (Mem (Regcomp (keyword p))) (\<lambda>re.
       if rv re = 0 then
         say ERROR ''PCRE2 compilation failed at offset %d: %s'' [AI (num re), AS (cstr (payload re))] (exit 1)
       else
         call (Mem (Malloc ''match_data'' 20)) (\<lambda>m.
         ret (if rv m = 0 then [] else do_regex_win32 p str))))"

definition read_conf_mode_win32 :: "string \<Rightarrow> settings_t \<Rightarrow> settings_t prog" where
  "read_conf_mode_win32 line st =
     bind (do_regex_pcre2 pat_mode line) (\<lambda>match.
     if match = [] then ret st
     else if hd match = CHR ''t'' then
       say DEBUG (''read_conf_line: new mode: '' @ [QUOTE] @ ''multithread'' @ [QUOTE]) []
       (eff (Mem (Free ''match'')) (ret (st\<lparr>mode := CHR ''t''\<rparr>)))
     else if hd match = CHR ''p'' then
       say DEBUG (''read_conf_line: new mode: '' @ [QUOTE] @ ''multiprocess'' @ [QUOTE]) []
       (eff (Mem (Free ''match'')) (ret (st\<lparr>mode := CHR ''p''\<rparr>)))
     else eff (Mem (Free ''match'')) (ret st))"

definition store_homedir_win32 :: "string \<Rightarrow> string \<Rightarrow> string" where
  "store_homedir_win32 buf match =
     (let b = strncpy buf match 259
      in if b ! (length (cstr b) - 1) \<noteq> BACKSLASH then append_backslash b else b)"

definition read_conf_homedir_win32 :: "string \<Rightarrow> settings_t \<Rightarrow> settings_t prog" where
  "read_conf_homedir_win32 line st =
     bind (do_regex_pcre2 pat_homedir line) (\<lambda>match.
     if match = [] then ret st
     else
       call (File (Opendir match)) (\<lambda>folder.
       if rv folder = 0 then
         say ERROR ''Cant find home-directory: %s'' [AS match] (exit 1)
       else
         eff (File Closedir) (
         let st' = st\<lparr>homedir := store_homedir_win32 (homedir st) match\<rparr> in
         say DEBUG ''read_conf_line: new homedir: \"%s\"'' [AS (home st')]
         (eff (Mem (Free ''match'')) (ret st')))))"

definition read_conf_hostname_win32 :: "string \<Rightarrow> settings_t \<Rightarrow> settings_t prog" where
  "read_conf_hostname_win32 line st =
     bind (do_regex_pcre2 pat_hostname line) (\<lambda>match.
     if match = [] then ret st
     else
       let st' = st\<lparr>hostname := strncpy (hostname st) match 255\<rparr> in
       say DEBUG ''read_conf_line: new hostname: \"%s\"'' [AS (host st')]
       (eff (Mem (Free ''match'')) (ret st')))"

definition read_conf_line_win32 :: "string \<Rightarrow> settings_t \<Rightarrow> settings_t prog" where
  "read_conf_line_win32 line st =
     say DEBUG ''Line read from conf file: %s'' [AS line]
     (bind (read_conf_mode_win32 line st) (\<lambda>st.
      bind (read_conf_homedir_win32 line st) (\<lambda>st.
      read_conf_hostname_win32 line st)))"

definition check_if_port_change_win32 :: "string \<Rightarrow> settings_t \<Rightarrow> (bool \<times> settings_t) prog" where
  "check_if_port_change_win32 line st =
     bind (do_regex_pcre2 pat_port line) (\<lambda>match.
     if match = [] then ret (False, st)
     else
       let val = int (strtol10 match) in
       if val = 0 then
         say ERROR ''strtoll val in check_if_port_change, Failed with an error'' [] (exit 1)
       else if val \<noteq> 0 \<and> val \<noteq> port st \<and> val < 65536 then
         say DEBUG (''check_if_port_change: new port: '' @ [QUOTE] @ ''%d'' @ [QUOTE]) [AI val]
         (eff (Mem (Free ''match'')) (ret (True, st\<lparr>port := val\<rparr>)))
       else eff (Mem (Free ''match'')) (ret (False, st)))"

definition use_line_win32 :: "bool \<Rightarrow> bool \<Rightarrow> settings_t \<Rightarrow> string \<Rightarrow>
    (bool \<times> settings_t + bool \<times> settings_t) prog" where
  "use_line_win32 called_from_handler port_change st line =
     bind (if called_from_handler then ret st else read_conf_line_win32 line st) (\<lambda>st.
     bind (check_if_port_change_win32 line st) (\<lambda>(changed, st).
     ret (Inl (port_change \<or> changed, st))))"

definition conf_round_win32 :: "bool \<Rightarrow> bool \<times> settings_t \<Rightarrow> (bool \<times> settings_t + bool \<times> settings_t) prog" where
  "conf_round_win32 called_from_handler s =
     (let (port_change, st) = s in
      call (File (Fgets 512)) (\<lambda>r.
      if rv r = 0 then
        (if num r \<noteq> 0 then ret (Inr (port_change, st))
         else say ERROR ''fgets() failed: %s'' [AE (errno r)] (exit 5))
      else
        let raw = cstr (payload r) in
        if raw = [] then crash ''line[line_len - 1] with an empty line''
        else
          say_if (last raw \<noteq> LF) WARNING
            (''Line doesn'' @ [QUOTE] @ ''t end with '' @ [QUOTE, BACKSLASH] @ ''n'' @ [QUOTE]
               @ '' or is too long: %s'') [AS raw]
          (if length raw \<le> 512 then
             use_line_win32 called_from_handler port_change st (line_of raw)
           else ret (Inl (port_change, st)))))"

definition read_and_check_conf_win32 :: "settings_t \<Rightarrow> bool \<Rightarrow> (bool \<times> settings_t) prog" where
  "read_and_check_conf_win32 st called_from_handler =
     call (File (FopenRead SACAGAWEACONF_PATH)) (\<lambda>fp.
     if rv fp = 0 then say ERROR ''fopen() failed: %s'' [AE (errno fp)] (exit 5)
     else
       bind (loop (conf_round_win32 called_from_handler) (False, st)) (\<lambda>(port_change, st).
       eff (File Fclose) (ret (port_change, st))))"

section \<open>The invariant is kept\<close>

text \<open>Appending the backslash; the second store is outside the array when the string has 258 characters.\<close>

lemma append_backslash_zeros:
  assumes "NUL \<notin> set m" "2 \<le> n"
  shows "append_backslash (m @ replicate n NUL) = m @ BACKSLASH # replicate (n - 1) NUL"
proof -
  obtain k where n: "n = Suc (Suc k)" using assms(2) by (metis add_2_eq_Suc le_Suc_ex)
  have no: "NUL \<notin> set (m @ [BACKSLASH])" using assms(1) by simp
  have len: "length (cstr (m @ replicate n NUL)) = length m" using assms(1) by (simp add: cstr_append)
  have b1: "(m @ replicate n NUL)[length m := BACKSLASH] = (m @ [BACKSLASH]) @ NUL # replicate k NUL" by (simp add: n)
  have "cstr ((m @ [BACKSLASH]) @ NUL # replicate k NUL) = m @ [BACKSLASH]"
    using cstr_append_NUL [OF no] by simp
  then have "append_backslash (m @ replicate n NUL) =
      ((m @ [BACKSLASH]) @ NUL # replicate k NUL)[length (m @ [BACKSLASH]) + 1 := NUL]"
    unfolding append_backslash_def Let_def len b1 by simp
  also have "\<dots> = (m @ [BACKSLASH]) @ NUL # (replicate k NUL)[0 := NUL]"
    by (simp add: list_update_append)
  also have "(replicate k NUL)[0 := NUL] = replicate k NUL" by (cases k) simp_all
  finally show ?thesis by (simp add: n)
qed

lemma win_homedir_ok_zeros:
  "NUL \<notin> set s \<Longrightarrow> ends_in_backslash s \<Longrightarrow> length s \<le> 259 \<Longrightarrow> win_homedir_ok (s @ replicate (260 - length s) NUL)"
  by (simp add: win_homedir_ok_def PATH_MAX_WIN32_def cstr_append nth_append)

lemma store_homedir_win32_ok:
  assumes "win_homedir_ok buf" "NUL \<notin> set m" "m \<noteq> []" "length m \<le> 255"
  shows "win_homedir_ok (store_homedir_win32 buf m)"
    and "cstr (store_homedir_win32 buf m) = (if last m = BACKSLASH then m else m @ [BACKSLASH])"
proof -
  have "drop 259 buf = [NUL]"
    using assms(1) Cons_nth_drop_Suc [of 259 buf] by (simp add: win_homedir_ok_def PATH_MAX_WIN32_def)
  moreover have "260 - length m = Suc (259 - length m)" using assms(4) by simp
  ultimately have b: "strncpy buf m 259 = m @ replicate (260 - length m) NUL"
    using assms(4) by (simp add: strncpy_def replicate_append_same)
  have c: "cstr (strncpy buf m 259) = m"
    unfolding b using assms(2) by (simp add: cstr_append)
  have last: "strncpy buf m 259 ! (length m - 1) = last m"
    unfolding b using assms(3) by (simp add: nth_append last_conv_nth)
  have long: "append_backslash (strncpy buf m 259) = (m @ [BACKSLASH]) @ replicate (260 - length (m @ [BACKSLASH])) NUL"
    unfolding b using append_backslash_zeros [OF assms(2)] assms(4) by simp
  have "store_homedir_win32 buf m = (if last m = BACKSLASH then m @ replicate (260 - length m) NUL
      else (m @ [BACKSLASH]) @ replicate (260 - length (m @ [BACKSLASH])) NUL)"
    unfolding store_homedir_win32_def Let_def c last long using b by simp
  then show "win_homedir_ok (store_homedir_win32 buf m)"
    "cstr (store_homedir_win32 buf m) = (if last m = BACKSLASH then m else m @ [BACKSLASH])"
    using win_homedir_ok_zeros [of m] win_homedir_ok_zeros [of "m @ [BACKSLASH]"] assms
    by (simp_all add: ends_in_backslash_def cstr_append cstr_Cons)
qed

text \<open>What \<^verbatim>\<open>do_regex\<close> returns holds characters of the line, and fits its array.\<close>

definition win_group :: "conf_pattern \<Rightarrow> string \<Rightarrow> string \<Rightarrow> bool" where
  "win_group p line m \<longleftrightarrow> length m \<le> 255 \<and> NUL \<notin> set m \<and> (m = [] \<or> m = regex_group p line)"

lemma win_group_regex: "NUL \<notin> set line \<Longrightarrow> win_group p line (do_regex_win32 p line)"
  using do_regex_builds_agree [of p line] regex_group_chars [of NUL p line] by (auto simp: win_group_def)

text \<open>The events of reading the configuration: those of the Linux build.\<close>

lemma keeps_do_regex_pcre2:
  "NUL \<notin> set line \<Longrightarrow> keeps conf_event (win_group p line) (do_regex_pcre2 p line)"
  unfolding do_regex_pcre2_def
  by (intro keeps_intros) (simp_all add: win_group_regex, simp add: win_group_def)

lemma win_mode_group: "win_group pat_mode line m \<Longrightarrow> m \<noteq> [] \<Longrightarrow> hd m = CHR ''t'' \<or> hd m = CHR ''p''"
  using mode_group [of line] by (auto simp: win_group_def)

lemma keeps_read_conf_line_win32:
  assumes "win_settings_inv st" "NUL \<notin> set line"
  shows "keeps conf_event (\<lambda>st'. win_settings_inv st' \<and> port st' = port st) (read_conf_line_win32 line st)"
proof -
  note match = keeps_bind [OF keeps_do_regex_pcre2 [OF assms(2)]]
  have mode: "keeps conf_event (\<lambda>st'. win_settings_inv st' \<and> port st' = port s) (read_conf_mode_win32 line s)"
    if "win_settings_inv s" for s
    unfolding read_conf_mode_win32_def
    by (intro match keeps_intros) (use that in \<open>auto simp: win_settings_inv_def mode_ok_def\<close>)
  have homedir: "keeps conf_event (\<lambda>st'. win_settings_inv st' \<and> port st' = port s) (read_conf_homedir_win32 line s)"
    if "win_settings_inv s" for s
    unfolding read_conf_homedir_win32_def
    by (intro match keeps_intros)
       (use that in \<open>auto simp: win_settings_inv_def win_group_def intro!: store_homedir_win32_ok(1)\<close>)
  have hostname: "keeps conf_event (\<lambda>st'. win_settings_inv st' \<and> port st' = port s) (read_conf_hostname_win32 line s)"
    if "win_settings_inv s" for s
    unfolding read_conf_hostname_win32_def
    by (intro match keeps_intros)
       (use that in \<open>auto simp: win_settings_inv_def win_group_def intro!: hostname_store_ok\<close>)
  show ?thesis
    unfolding read_conf_line_win32_def
    by (intro keeps_say keeps_bind [OF mode [OF assms(1)]] keeps_bind [OF homedir] keeps_weaken [OF hostname]) auto
qed

lemma keeps_check_if_port_change_win32:
  assumes "NUL \<notin> set line"
  shows "keeps conf_event (\<lambda>(changed, st'). (\<exists>p. st' = st\<lparr>port := p\<rparr> \<and> (p = port st \<or> p \<in> {1..65535})) \<and>
     (changed \<longleftrightarrow> port st' \<noteq> port st)) (check_if_port_change_win32 line st)"
  unfolding check_if_port_change_win32_def Let_def
  by (intro keeps_bind [OF keeps_do_regex_pcre2 [OF assms]] keeps_intros)
     (auto intro: exI [of _ "port st"] exI [of _ "int (strtol10 m)" for m])

text \<open>What one line may do: the handler changes the port only.\<close>

definition win_conf_step :: "bool \<Rightarrow> settings_t \<Rightarrow> settings_t \<Rightarrow> bool" where
  "win_conf_step handler st st' \<longleftrightarrow> (win_settings_inv st \<longrightarrow> win_settings_inv st') \<and>
     (port st' = port st \<or> port st' \<in> {1..65535}) \<and> (handler \<longrightarrow> st' = st\<lparr>port := port st'\<rparr>)"

lemma win_conf_step_refl: "win_conf_step h st st"
  by (simp add: win_conf_step_def)

lemma win_conf_step_trans: "win_conf_step h a b \<Longrightarrow> win_conf_step h b c \<Longrightarrow> win_conf_step h a c"
  by (cases a; cases b; cases c) (auto simp: win_conf_step_def)

lemma keeps_use_line_win32:
  assumes "win_settings_inv st" "NUL \<notin> set line"
  shows "keeps conf_event (\<lambda>x. \<exists>st' changed. x = Inl (changed, st') \<and> win_settings_inv st' \<and> win_conf_step h st st')
    (use_line_win32 h b st line)"
proof -
  have first: "keeps conf_event (\<lambda>st'. win_settings_inv st' \<and> win_conf_step h st st')
      (if h then ret st else read_conf_line_win32 line st)"
  proof (cases h)
    case True
    then show ?thesis using assms(1) by (auto intro!: keeps_ret win_conf_step_refl)
  next
    case False
    then show ?thesis
      by (auto simp: win_conf_step_def intro!: keeps_weaken [OF keeps_read_conf_line_win32 [OF assms]])
  qed
  have step: "win_conf_step h st (s\<lparr>port := p\<rparr>)" if "win_conf_step h st s" "1 \<le> p" "p \<le> 65535" for s p
    by (rule win_conf_step_trans [OF that(1)]) (use that in \<open>simp add: win_conf_step_def\<close>)
  show ?thesis
    unfolding use_line_win32_def
    by (intro keeps_bind [OF first] keeps_bind [OF keeps_check_if_port_change_win32 [OF assms(2)]])
       (auto intro!: keeps_ret step)
qed

lemma keeps_conf_round_win32:
  assumes "win_settings_inv (snd s)"
  shows "keeps conf_event (\<lambda>x. case x of Inl s' \<Rightarrow> win_settings_inv (snd s') \<and> win_conf_step h (snd s) (snd s')
    | Inr s' \<Rightarrow> s' = s) (conf_round_win32 h s)"
proof -
  obtain b st where s: "s = (b, st)" by (cases s)
  have "keeps conf_event (\<lambda>x. case x of Inl s' \<Rightarrow> win_settings_inv (snd s') \<and> win_conf_step h st (snd s')
      | Inr s' \<Rightarrow> s' = (b, st)) (use_line_win32 h b st (line_of (cstr t)))" for t
    by (rule keeps_weaken [OF keeps_use_line_win32 [where h = h]])
       (use assms s in \<open>auto simp: line_of_def dest: in_set_butlastD\<close>)
  then show ?thesis
    unfolding conf_round_win32_def s Let_def prod.case snd_conv
    by (intro keeps_intros) (use assms s win_conf_step_refl in simp_all)
qed

lemma conf_round_win32_consumes:
  "runs any_os (conf_round_win32 h s) (\<lambda>out es. goes_round out \<longrightarrow> 0 < calls es)"
proof -
  have regex: "runs C (do_regex_pcre2 p l) (\<lambda>_ _. True)" for C p l
    unfolding do_regex_pcre2_def by (intro runs_intros) simp_all
  have "runs any_os (use_line_win32 h b st l) (\<lambda>_ _. True)" for b st l
    unfolding use_line_win32_def read_conf_line_win32_def read_conf_mode_win32_def read_conf_homedir_win32_def
      read_conf_hostname_win32_def check_if_port_change_win32_def Let_def
    by (intro runs_trivial_bind [where Q = "\<lambda>_ _. True"] regex runs_if runs_say runs_call runs_eff runs_exit runs_ret
        runs_case_prod) auto
  then show ?thesis
    unfolding conf_round_win32_def Let_def
    by (intro runs_case_prod consumes_call runs_if runs_say runs_say_if runs_exit runs_ret runs_crash) auto
qed

interpretation conf_win32_loop: loop_body "conf_round_win32 h" for h
  by unfold_locales (rule conf_round_win32_consumes)

lemma keeps_read_and_check_conf_win32:
  assumes "win_settings_inv st"
  shows "keeps conf_event (\<lambda>(changed, st'). win_settings_inv st' \<and> win_conf_step h st st')
    (read_and_check_conf_win32 st h)"
proof -
  have lines: "keeps conf_event (\<lambda>(changed, st'). win_settings_inv st' \<and> win_conf_step h st st')
      (loop (conf_round_win32 h) (False, st))"
  proof (rule conf_win32_loop.keeps_loop [where I = "\<lambda>s. win_settings_inv (snd s) \<and> win_conf_step h st (snd s)"])
    show "win_settings_inv (snd (False, st)) \<and> win_conf_step h st (snd (False, st))"
      using assms by (simp add: win_conf_step_refl)
    fix s :: "bool \<times> settings_t"
    assume s: "win_settings_inv (snd s) \<and> win_conf_step h st (snd s)"
    show "keeps conf_event (\<lambda>x. case x of Inl s' \<Rightarrow> win_settings_inv (snd s') \<and> win_conf_step h st (snd s')
        | Inr a \<Rightarrow> (case a of (changed, st') \<Rightarrow> win_settings_inv st' \<and> win_conf_step h st st')) (conf_round_win32 h s)"
      by (rule keeps_weaken [OF keeps_conf_round_win32])
         (use s in \<open>auto split: sum.splits intro: win_conf_step_trans\<close>)
  qed
  show ?thesis
    unfolding read_and_check_conf_win32_def
    by (intro keeps_call keeps_if keeps_say keeps_exit keeps_bind [OF lines]) (auto intro!: keeps_intros)
qed

section \<open>Where the home directory comes from\<close>

text \<open>
  The home directory \<open>H\<close> was \<open>H0\<close> before these events, or it is a directory that \<^verbatim>\<open>opendir\<close> could open,
  with a backslash behind it.
\<close>

definition with_backslash :: "string \<Rightarrow> string" where
  "with_backslash m = (if last m = BACKSLASH then m else m @ [BACKSLASH])"

fun dirs_found :: "event list \<Rightarrow> string list" where
  "dirs_found (Sys (File (Opendir m)) r # es) = (if rv r = 0 then [] else [m]) @ dirs_found es"
| "dirs_found (e # es) = dirs_found es"
| "dirs_found [] = []"

lemma dirs_found_append [simp]: "dirs_found (es @ es') = dirs_found es @ dirs_found es'"
  by (induction es rule: dirs_found.induct) auto

definition home_from :: "event list \<Rightarrow> string \<Rightarrow> string \<Rightarrow> bool" where
  "home_from es H0 H \<longleftrightarrow> H = H0 \<or> H \<in> with_backslash ` set (dirs_found es)"

lemma home_from_refl [simp]: "home_from es H H"
  by (simp add: home_from_def)

lemma home_from_append: "home_from es H0 H1 \<Longrightarrow> home_from es' H1 H2 \<Longrightarrow> home_from (es @ es') H0 H2"
  by (auto simp: home_from_def)

lemma home_from_after: "home_from es H0 H \<Longrightarrow> home_from (e # es) H0 H"
  using home_from_append [of "[e]" H0 H0 es H] by simp

text \<open>Programs that return settings: they keep the invariant and account for the home directory.\<close>

definition tracks :: "('a \<Rightarrow> settings_t) \<Rightarrow> settings_t \<Rightarrow> 'a prog \<Rightarrow> bool" where
  "tracks g st p \<longleftrightarrow> (win_settings_inv st \<longrightarrow>
     runs posix_os p (\<lambda>out es. \<forall>a. out = Ret a \<longrightarrow> win_settings_inv (g a) \<and> home_from es (home st) (home (g a))))"

lemma tracks_ret: "home (g a) = home st \<Longrightarrow> (win_settings_inv st \<Longrightarrow> win_settings_inv (g a)) \<Longrightarrow> tracks g st (ret a)"
  by (simp add: tracks_def runs_ret)

lemma tracks_keeps:
  assumes "win_settings_inv st \<Longrightarrow> keeps P (\<lambda>a. win_settings_inv (g a) \<and> home (g a) = home st) p"
  shows "tracks g st p"
  unfolding tracks_def
proof
  assume "win_settings_inv st"
  then have "runs posix_os p (\<lambda>out es. (\<forall>e \<in> set es. P e) \<and> (\<forall>a. out = Ret a \<longrightarrow> win_settings_inv (g a) \<and> home (g a) = home st))"
    using assms by (simp add: keeps_def)
  then show "runs posix_os p (\<lambda>out es. \<forall>a. out = Ret a \<longrightarrow> win_settings_inv (g a) \<and> home_from es (home st) (home (g a)))"
    by (rule runs_weaken) auto
qed

lemma tracks_bind:
  assumes "tracks g st p" "\<And>a. tracks f (g a) (k a)"
  shows "tracks f st (bind p k)"
  unfolding tracks_def
proof
  assume "win_settings_inv st"
  then have "runs posix_os p (\<lambda>out es. \<forall>a. out = Ret a \<longrightarrow> win_settings_inv (g a) \<and> home_from es (home st) (home (g a)))"
    using assms(1) by (simp add: tracks_def)
  then show "runs posix_os (bind p k) (\<lambda>out es. \<forall>b. out = Ret b \<longrightarrow> win_settings_inv (f b) \<and> home_from es (home st) (home (f b)))"
  proof (rule runs_bind_weaken)
    fix out es
    assume es: "\<forall>a. out = Ret a \<longrightarrow> win_settings_inv (g a) \<and> home_from es (home st) (home (g a))"
    have "runs posix_os (k a) (\<lambda>out es'. \<forall>b. out = Ret b \<longrightarrow> win_settings_inv (f b) \<and> home_from (es @ es') (home st) (home (f b)))"
      if "out = Ret a" for a
      by (rule runs_weaken [OF assms(2) [of a, unfolded tracks_def, rule_format]])
         (use es that in \<open>auto intro: home_from_append\<close>)
    then show "after posix_os k (\<lambda>out es. \<forall>b. out = Ret b \<longrightarrow> win_settings_inv (f b) \<and> home_from es (home st) (home (f b))) out es"
      by (cases out) simp_all
  qed
qed

lemma tracks_say: "tracks g st p \<Longrightarrow> tracks g st (say l s x p)"
  unfolding tracks_def by (intro impI runs_say) (erule impE, assumption, erule runs_weaken, auto intro: home_from_after)

lemma tracks_say_if: "tracks g st p \<Longrightarrow> tracks g st (say_if b l s x p)"
  by (simp add: say_if_def tracks_say)

lemma tracks_call: "(\<And>r. posix_os c r \<Longrightarrow> tracks g st (k r)) \<Longrightarrow> tracks g st (call c k)"
  unfolding tracks_def
  by (intro impI runs_call; (simp; fail)?) (rule runs_weaken, blast, auto intro: home_from_after)

lemma tracks_eff: "tracks g st p \<Longrightarrow> tracks g st (eff c p)"
  unfolding tracks_def by (intro impI runs_eff) (erule impE, assumption, erule runs_weaken, auto intro: home_from_after)

lemma tracks_stop: "tracks g st (exit n)" "tracks g st (crash m)"
  by (simp_all add: tracks_def runs_exit runs_crash)

lemma tracks_if: "(b \<Longrightarrow> tracks g st p) \<Longrightarrow> (\<not> b \<Longrightarrow> tracks g st q) \<Longrightarrow> tracks g st (if b then p else q)"
  by simp

lemmas tracks_intros = tracks_say tracks_say_if tracks_call tracks_eff tracks_stop tracks_if

lemma tracks_read_conf_line_win32:
  assumes "NUL \<notin> set line"
  shows "tracks (\<lambda>st. st) st (read_conf_line_win32 line st)"
proof -
  note match = keeps_bind [OF keeps_do_regex_pcre2 [OF assms]]
  have mode: "tracks (\<lambda>st. st) s (read_conf_mode_win32 line s)" for s
    unfolding read_conf_mode_win32_def
    by (rule tracks_keeps [where P = conf_event], intro match keeps_intros) (auto simp: win_settings_inv_def mode_ok_def)
  have hostname: "tracks (\<lambda>st. st) s (read_conf_hostname_win32 line s)" for s
    unfolding read_conf_hostname_win32_def
    by (rule tracks_keeps [where P = conf_event], intro match keeps_intros)
       (auto simp: win_settings_inv_def win_group_def intro!: hostname_store_ok)
  have homedir: "tracks (\<lambda>st. st) s (read_conf_homedir_win32 line s)" for s
    unfolding tracks_def read_conf_homedir_win32_def
  proof (rule impI, rule runs_bind_weaken [OF keeps_do_regex_pcre2 [OF assms, of pat_homedir, unfolded keeps_def]])
    fix out :: "string outcome" and es
    assume s: "win_settings_inv s" and es: "(\<forall>e \<in> set es. conf_event e) \<and> (\<forall>m. out = Ret m \<longrightarrow> win_group pat_homedir line m)"
    show "after posix_os (\<lambda>match. if match = [] then ret s
        else call (File (Opendir match)) (\<lambda>folder.
          if rv folder = 0 then say ERROR ''Cant find home-directory: %s'' [AS match] (exit 1)
          else eff (File Closedir) (
            let st' = s\<lparr>homedir := store_homedir_win32 (homedir s) match\<rparr> in
            say DEBUG ''read_conf_line: new homedir: \"%s\"'' [AS (home st')]
            (eff (Mem (Free ''match'')) (ret st')))))
        (\<lambda>out es. \<forall>a. out = Ret a \<longrightarrow> win_settings_inv a \<and> home_from es (home s) (home a)) out es"
    proof (cases out)
      case (Ret m)
      have ok: "win_homedir_ok (homedir s)" using s by (simp add: win_settings_inv_def)
      have m: "NUL \<notin> set m" "length m \<le> 255" using es Ret by (auto simp: win_group_def)
      have store: "win_homedir_ok (store_homedir_win32 (homedir s) m)"
        "cstr (store_homedir_win32 (homedir s) m) = with_backslash m" if "m \<noteq> []"
        using store_homedir_win32_ok [OF ok m(1) that m(2)] by (simp_all add: with_backslash_def)
      show ?thesis
        unfolding Ret after.simps Let_def
        by (intro runs_if runs_call runs_say runs_exit runs_eff runs_ret)
           (use s store in \<open>auto simp: win_settings_inv_def home_from_def\<close>)
    qed simp_all
  qed
  show ?thesis
    unfolding read_conf_line_win32_def by (intro tracks_say tracks_bind [OF mode] tracks_bind [OF homedir] hostname)
qed

lemma tracks_use_line_win32:
  assumes "NUL \<notin> set line"
  shows "tracks (\<lambda>x. case x of Inl s \<Rightarrow> snd s | Inr s \<Rightarrow> snd s) st (use_line_win32 h b st line)"
proof -
  have port: "tracks snd s (check_if_port_change_win32 line s)" for s
    by (rule tracks_keeps, rule keeps_weaken [OF keeps_check_if_port_change_win32 [OF assms]]) auto
  show ?thesis
    unfolding use_line_win32_def
    by (rule tracks_bind [where g = "\<lambda>st. st"], rule tracks_if)
       (auto intro!: tracks_ret tracks_read_conf_line_win32 [OF assms] tracks_bind [OF port])
qed

lemma tracks_read_and_check_conf_win32: "tracks snd st (read_and_check_conf_win32 st h)"
proof -
  let ?g = "\<lambda>x. case x of Inl s \<Rightarrow> snd s | Inr s \<Rightarrow> snd s"
  have "tracks ?g (snd s) (conf_round_win32 h s)" for s
  proof -
    have "NUL \<notin> set (line_of (cstr t))" for t
      by (auto simp: line_of_def dest: in_set_butlastD)
    then show ?thesis
      unfolding conf_round_win32_def Let_def
      by (cases s) (auto intro!: tracks_intros tracks_ret tracks_use_line_win32)
  qed
  note body = this
  have loop: "tracks snd (snd s0) (loop (conf_round_win32 h) s0)" for s0
    unfolding tracks_def
  proof (rule impI, rule conf_win32_loop.invariant
      [where I = "\<lambda>s es. win_settings_inv (snd s) \<and> home_from es (home (snd s0)) (home (snd s))"])
    fix s :: "bool \<times> settings_t" and es
    assume I: "win_settings_inv (snd s) \<and> home_from es (home (snd s0)) (home (snd s))"
    have "round (\<lambda>s es. win_settings_inv (snd s) \<and> home_from es (home (snd s0)) (home (snd s)))
        (\<lambda>out es. \<forall>a. out = Ret a \<longrightarrow> win_settings_inv (snd a) \<and> home_from es (home (snd s0)) (home (snd a))) es out es'"
      if "\<forall>a. out = Ret a \<longrightarrow> win_settings_inv (?g a) \<and> home_from es' (home (snd s)) (home (?g a))" for out es'
      using I that by (cases out rule: goes_round.cases) (auto intro: home_from_append)
    then show "runs posix_os (conf_round_win32 h s) (round (\<lambda>s es. win_settings_inv (snd s) \<and> home_from es (home (snd s0)) (home (snd s)))
        (\<lambda>out es. \<forall>a. out = Ret a \<longrightarrow> win_settings_inv (snd a) \<and> home_from es (home (snd s0)) (home (snd a))) es)"
      by (rule runs_weaken [OF body [unfolded tracks_def, rule_format, OF conjunct1 [OF I]]])
  qed simp
  show ?thesis
    unfolding read_and_check_conf_win32_def
    by (intro tracks_call tracks_if tracks_say tracks_stop tracks_bind [where g = snd])
       (use loop [of "(False, st)"] in \<open>auto intro!: tracks_eff tracks_ret\<close>)
qed

section \<open>What the lines mean\<close>

text \<open>
  Without match data \<^verbatim>\<open>do_regex\<close> finds nothing, and the caller goes on as if the line did not match. When no match
  data is lost, the result of reading the file is a function of its lines. \<open>yields x p\<close>: the part \<open>p\<close>, which
  reads no line, returns \<open>x\<close> then, if it returns.
\<close>

fun lost_match :: "event \<Rightarrow> bool" where
  "lost_match (Sys (Mem (Malloc s n)) r) = (s = ''match_data'' \<and> rv r = 0)"
| "lost_match e = False"

definition match_lost :: "event list \<Rightarrow> bool" where
  "match_lost es \<longleftrightarrow> list_ex lost_match es"

lemma match_lost_simps [simp]:
  "\<not> match_lost []" "match_lost (e # es) \<longleftrightarrow> lost_match e \<or> match_lost es"
  "match_lost (es @ es') \<longleftrightarrow> match_lost es \<or> match_lost es'"
  by (simp_all add: match_lost_def)

definition yields :: "'a \<Rightarrow> 'a prog \<Rightarrow> bool" where
  "yields x p \<longleftrightarrow> runs posix_os p (\<lambda>out es. lines_read es = [] \<and> (\<forall>a. out = Ret a \<longrightarrow> match_lost es \<or> a = x))"

lemma yields_ret: "yields x (ret x)"
  by (simp add: yields_def runs_ret)

lemma yields_stop: "yields x (exit n)"
  by (simp add: yields_def runs_exit)

lemma yields_say: "yields x p \<Longrightarrow> yields x (say l s a p)"
  unfolding yields_def by (rule runs_say) (erule runs_weaken, simp)

lemma yields_eff: "yields x p \<Longrightarrow> yields x (eff c p)"
  unfolding yields_def by (rule runs_eff) (erule runs_weaken, simp)

lemma yields_call:
  assumes "\<And>r. yields x (k r)" "\<And>n. c \<noteq> File (Fgets n)"
  shows "yields x (call c k)"
proof -
  have "lines_read [Sys c r] = []" for r
    using assms(2) by (cases "[Sys c r]" rule: lines_read.cases) auto
  then have "lines_read (Sys c r # es) = lines_read es" for r es
    using lines_read_append [of "[Sys c r]" es] by simp
  then show ?thesis
    unfolding yields_def by (intro runs_call runs_weaken [OF assms(1) [unfolded yields_def]]) auto
qed

lemma yields_if:
  "(b \<Longrightarrow> yields x p) \<Longrightarrow> (\<not> b \<Longrightarrow> yields y q) \<Longrightarrow> yields (if b then x else y) (if b then p else q)"
  by simp

lemma yields_bind:
  assumes "yields x p" "\<And>a. yields (y a) (f a)"
  shows "yields (y x) (bind p f)"
  unfolding yields_def
proof (rule runs_bind_weaken [OF assms(1) [unfolded yields_def]])
  fix out :: "'a outcome" and es
  assume p: "lines_read es = [] \<and> (\<forall>a. out = Ret a \<longrightarrow> match_lost es \<or> a = x)"
  have "runs posix_os (f a) (\<lambda>out es'. lines_read (es @ es') = [] \<and> (\<forall>b. out = Ret b \<longrightarrow> match_lost (es @ es') \<or> b = y x))"
    if "out = Ret a" for a
    by (rule runs_weaken [OF assms(2) [unfolded yields_def]]) (use p that in auto)
  then show "after posix_os f (\<lambda>out es. lines_read es = [] \<and> (\<forall>b. out = Ret b \<longrightarrow> match_lost es \<or> b = y x)) out es"
    using p by (cases out) simp_all
qed

lemma yields_case_prod: "yields (y (fst x) (snd x)) (f (fst x) (snd x)) \<Longrightarrow> yields (case x of (a, b) \<Rightarrow> y a b) (case x of (a, b) \<Rightarrow> f a b)"
  by (simp add: case_prod_beta)

lemma yields_eq: "yields x p \<Longrightarrow> x = y \<Longrightarrow> yields y p"
  by simp

lemma yields_do_regex: "yields (do_regex_win32 p line) (do_regex_pcre2 p line)"
  unfolding do_regex_pcre2_def yields_def by (intro runs_intros) auto

text \<open>The groups of a mode and of a port are short, so both builds read the same ones.\<close>

lemma mode_port_groups:
  "do_regex_win32 pat_mode line = regex_group pat_mode line"
  "do_regex_win32 pat_port line = regex_group pat_port line"
  using regex_group_length [of pat_mode line] regex_group_length [of pat_port line]
  by (simp_all add: do_regex_builds_agree pat_mode_def pat_port_def)

definition win_conf_homedir :: "string \<Rightarrow> settings_t \<Rightarrow> settings_t" where
  "win_conf_homedir line st =
     (let m = do_regex_win32 pat_homedir line in
      if m = [] then st else st\<lparr>homedir := store_homedir_win32 (homedir st) m\<rparr>)"

definition win_conf_hostname :: "string \<Rightarrow> settings_t \<Rightarrow> settings_t" where
  "win_conf_hostname line st =
     (let m = do_regex_win32 pat_hostname line in
      if m = [] then st else st\<lparr>hostname := strncpy (hostname st) m 255\<rparr>)"

definition win_conf_line :: "bool \<Rightarrow> string \<Rightarrow> settings_t \<Rightarrow> settings_t" where
  "win_conf_line handler line st =
     conf_port line (if handler then st
       else win_conf_hostname line (win_conf_homedir line (conf_mode line st)))"

lemma yields_use_line:
  "yields (Inl (b \<or> port (win_conf_line h line st) \<noteq> port st, win_conf_line h line st)) (use_line_win32 h b st line)"
proof -
  have mode: "yields (conf_mode line s) (read_conf_mode_win32 line s)" for s
  proof -
    have "yields (if m = [] then s else if hd m = CHR ''t'' then s\<lparr>mode := CHR ''t''\<rparr>
          else if hd m = CHR ''p'' then s\<lparr>mode := CHR ''p''\<rparr> else s)
        (if m = [] then ret s else if hd m = CHR ''t'' then
           say DEBUG (''read_conf_line: new mode: '' @ [QUOTE] @ ''multithread'' @ [QUOTE]) []
           (eff (Mem (Free ''match'')) (ret (s\<lparr>mode := CHR ''t''\<rparr>)))
         else if hd m = CHR ''p'' then
           say DEBUG (''read_conf_line: new mode: '' @ [QUOTE] @ ''multiprocess'' @ [QUOTE]) []
           (eff (Mem (Free ''match'')) (ret (s\<lparr>mode := CHR ''p''\<rparr>)))
         else eff (Mem (Free ''match'')) (ret s))" for m
      by (intro yields_if yields_say yields_eff yields_ret)
    from yields_bind [OF yields_do_regex this] show ?thesis
      unfolding read_conf_mode_win32_def
      by (rule yields_eq) (use mode_group [of line] in \<open>auto simp: conf_mode_def mode_port_groups Let_def\<close>)
  qed
  have homedir: "yields (win_conf_homedir line s) (read_conf_homedir_win32 line s)" for s
    unfolding read_conf_homedir_win32_def win_conf_homedir_def Let_def
    by (rule yields_bind [OF yields_do_regex]) (auto intro!: yields_ret yields_call yields_say yields_stop yields_eff)
  have hostname: "yields (win_conf_hostname line s) (read_conf_hostname_win32 line s)" for s
    unfolding read_conf_hostname_win32_def win_conf_hostname_def Let_def
    by (rule yields_bind [OF yields_do_regex]) (auto intro!: yields_ret yields_say yields_eff)
  have port: "yields (port (conf_port line s) \<noteq> port s, conf_port line s) (check_if_port_change_win32 line s)" for s
  proof -
    let ?set = "\<lambda>m. if m \<noteq> [] \<and> 0 < strtol10 m \<and> strtol10 m < 65536 then s\<lparr>port := int (strtol10 m)\<rparr> else s"
    show ?thesis
      unfolding check_if_port_change_win32_def conf_port_def mode_port_groups(2) [symmetric] Let_def
      by (rule yields_bind [OF yields_do_regex, of "\<lambda>m. (port (?set m) \<noteq> port s, ?set m)"])
         (auto intro!: yields_ret yields_say yields_eff yields_stop)
  qed
  let ?st = "if h then st else win_conf_hostname line (win_conf_homedir line (conf_mode line st))"
  have first: "yields ?st (if h then ret st else read_conf_line_win32 line st)"
    unfolding read_conf_line_win32_def
    by (auto intro!: yields_ret yields_say yields_bind [OF mode] yields_bind [OF homedir] hostname)
  have same: "port ?st = port st"
    by (simp add: win_conf_hostname_def win_conf_homedir_def conf_mode_def Let_def)
  show ?thesis
    unfolding use_line_win32_def
    by (rule yields_eq, rule yields_bind [OF first], rule yields_bind [OF port], rule yields_case_prod, rule yields_ret)
       (use same in \<open>simp add: win_conf_line_def\<close>)
qed

text \<open>The whole file: its lines in order, and for the handler whether one of them has changed the port.\<close>

definition win_conf_lines :: "bool \<Rightarrow> string list \<Rightarrow> settings_t \<Rightarrow> settings_t" where
  "win_conf_lines handler ls st = fold (win_conf_line handler) ls st"

lemma win_conf_line_handler [simp]: "win_conf_line True = conf_line True"
  by (intro ext) (simp add: win_conf_line_def conf_line_def)

lemma win_conf_lines_simps [simp]:
  "win_conf_lines h [] st = st"
  "win_conf_lines h (ls @ [l]) st = win_conf_line h l (win_conf_lines h ls st)"
  "win_conf_lines True ls st = conf_lines True ls st"
  by (simp_all add: win_conf_lines_def conf_lines_def)

definition win_conf_state :: "bool \<Rightarrow> settings_t \<Rightarrow> bool \<times> settings_t \<Rightarrow> event list \<Rightarrow> bool" where
  "win_conf_state h st s es \<longleftrightarrow> match_lost es \<or>
     snd s = win_conf_lines h (lines_read es) st \<and> (h \<longrightarrow> fst s = port_changes True (lines_read es) st)"

lemma win_conf_state_line:
  assumes "win_conf_state h st (b, s) es" "lines_read es' = [l]"
    and "match_lost es' \<or> s' = (b \<or> port (win_conf_line h l s) \<noteq> port s, win_conf_line h l s)"
  shows "win_conf_state h st s' (es @ es')"
  using assms by (cases h) (auto simp: win_conf_state_def)

lemma conf_round_win32_state:
  assumes "win_conf_state h st s es0"
  shows "runs posix_os (conf_round_win32 h s) (round (win_conf_state h st)
    (\<lambda>out es. \<forall>s. out = Ret s \<longrightarrow> win_conf_state h st s es) es0)"
proof -
  obtain b st' where s: "s = (b, st')" by (cases s)
  have line: "runs posix_os (use_line_win32 h b st' (line_of (cstr (payload r))))
      (\<lambda>out es. round (win_conf_state h st) (\<lambda>out es. \<forall>s. out = Ret s \<longrightarrow> win_conf_state h st s es) es0 out
        (Sys (File (Fgets 512)) r # pre @ es))" if "rv r \<noteq> 0" "lines_read pre = []" for r pre
  proof (rule runs_weaken [OF yields_use_line [unfolded yields_def]], goal_cases)
    case (1 out es)
    let ?es = "Sys (File (Fgets 512)) r # pre @ es"
    have read: "lines_read ?es = [line_of (cstr (payload r))]" using 1 that by simp
    have state: "win_conf_state h st x (es0 @ ?es)" if "out = Ret (Inl x)" for x
      by (rule win_conf_state_line [OF assms [unfolded s] read]) (use 1 that in auto)
    have "match_lost es" if "out = Ret (Inr x)" for x using 1 that by auto
    with state show ?case
      by (cases out rule: goes_round.cases) (auto simp: win_conf_state_def)
  qed
  have short: "length (cstr (payload r)) \<le> 512" if "length (payload r) < 512" for r :: reply
    using that by (auto intro: order_trans [OF cstr_length_le])
  show ?thesis
    unfolding conf_round_win32_def s Let_def prod.case say_if_def
    using line [where pre = "[]"] line [where pre = "[Log l x y]" for l x y] assms
    by (intro runs_call runs_if runs_say runs_exit runs_ret runs_crash) (auto simp: s win_conf_state_def intro: short)
qed

lemma runs_conf_lines_win32:
  "runs posix_os (read_and_check_conf_win32 st h) (\<lambda>out es. \<forall>s. out = Ret s \<longrightarrow> win_conf_state h st s es)"
proof -
  have loop: "runs posix_os (loop (conf_round_win32 h) (False, st)) (\<lambda>out es. \<forall>s. out = Ret s \<longrightarrow> win_conf_state h st s es)"
    by (rule conf_win32_loop.invariant [where I = "win_conf_state h st", OF _ conf_round_win32_state])
       (simp add: win_conf_state_def)
  show ?thesis
    unfolding read_and_check_conf_win32_def
  proof (intro runs_call runs_if runs_say runs_exit, goal_cases)
    case (3 r)
    show ?case
      by (rule runs_bind_weaken [OF loop], rename_tac out es, case_tac out)
         (auto simp: win_conf_state_def intro!: runs_case_prod runs_eff runs_ret)
  qed simp_all
qed

text \<open>The home directory: the last line that names one decides.\<close>

definition home_after :: "string list \<Rightarrow> string \<Rightarrow> string" where
  "home_after ls H = fold (\<lambda>l H. let m = do_regex_win32 pat_homedir l in if m = [] then H else with_backslash m) ls H"

lemma home_after_append [simp]: "home_after (ls @ ls') H = home_after ls' (home_after ls H)"
  by (simp add: home_after_def)

lemma home_after_Nil [simp]: "home_after [] H = H"
  by (simp add: home_after_def)

lemma home_after_lines:
  assumes "win_homedir_ok (homedir st)" "\<forall>l \<in> set ls. NUL \<notin> set l"
  shows "win_homedir_ok (homedir (win_conf_lines False ls st)) \<and>
    home (win_conf_lines False ls st) = home_after ls (home st)"
  using assms(2)
proof (induction ls rule: rev_induct)
  case Nil
  then show ?case using assms(1) by (simp add: home_after_def)
next
  case (snoc l ls)
  let ?s = "win_conf_lines False ls st" and ?m = "do_regex_win32 pat_homedir l"
  have ok: "win_homedir_ok (homedir ?s)" "home ?s = home_after ls (home st)" using snoc by simp_all
  have m: "length ?m \<le> 255" "NUL \<notin> set ?m" using win_group_regex [of l pat_homedir] snoc.prems by (simp_all add: win_group_def)
  have "homedir (win_conf_line False l ?s) = (if ?m = [] then homedir ?s else store_homedir_win32 (homedir ?s) ?m)"
    by (simp add: win_conf_line_def conf_port_def win_conf_hostname_def win_conf_homedir_def conf_mode_def Let_def)
  with store_homedir_win32_ok [OF ok(1) m(2) _ m(1)] ok show ?case
    by (auto simp: home_after_def with_backslash_def Let_def)
qed

text \<open>Settings to evaluate examples on.\<close>

definition win_example_settings :: settings_t where
  "win_example_settings = \<lparr>port = 7070, socket = 3, mode = CHR ''t'',
     homedir = (''C:'' @ [BACKSLASH] @ ''srv'' @ [BACKSLASH]) @ replicate 253 NUL,
     hostname = zeroed HOSTNAME_LEN ''localhost''\<rparr>"

lemma win_example_home: "home win_example_settings = ''C:'' @ [BACKSLASH] @ ''srv'' @ [BACKSLASH]"
  unfolding win_example_settings_def settings_t.simps by (subst cstr_append) simp_all

lemma win_example_settings_inv: "win_settings_inv win_example_settings"
proof -
  have "win_homedir_ok ((''C:'' @ [BACKSLASH] @ ''srv'' @ [BACKSLASH]) @ replicate 253 NUL)"
    using win_homedir_ok_zeros [of "''C:'' @ [BACKSLASH] @ ''srv'' @ [BACKSLASH]"] by (simp add: ends_in_backslash_def)
  moreover have "hostname_ok (zeroed HOSTNAME_LEN ''localhost'')"
    by (rule hostname_ok_zeroed) (simp add: HOSTNAME_LEN_def)
  ultimately show ?thesis
    by (simp add: win_settings_inv_def win_example_settings_def mode_ok_def)
qed

definition win_example_client :: client_args where
  "win_example_client = example_client\<lparr>c_settings := win_example_settings\<rparr>"

section \<open>Properties\<close>

text \<open>
  The Win32 build keeps its settings well-formed whatever the configuration file holds: a home
  directory of at most 259 characters that ends in a backslash, terminated inside its array (the group of
  \<^verbatim>\<open>do_regex\<close> has at most 255 characters here), a mode that is one of the two letters, and a port that
  is the old one or between 1 and 65535. The handler of CTRL+BREAK changes the port only.
\<close>

theorem win_config_keeps_settings_wellformed:
  assumes "win_settings_inv st"
  shows "runs posix_os (read_and_check_conf_win32 st h) (\<lambda>out es.
     case out of
       Ret (changed, st') \<Rightarrow> win_settings_inv st' \<and> length (home st') < 260 \<and>
         (port st' = port st \<or> port st' \<in> {1..65535}) \<and> (h \<longrightarrow> st' = st\<lparr>port := port st'\<rparr>)
     | _ \<Rightarrow> True)"
  by (rule runs_weaken [OF keeps_read_and_check_conf_win32 [OF assms, where h = h, unfolded keeps_def]])
     (use win_home_bounds(2) in \<open>auto simp: win_conf_step_def PATH_MAX_WIN32_def split: outcome.splits\<close>)

theorem win_config_keeps_settings_wellformed_witness:
  "win_settings_inv win_example_settings \<and>
   runs posix_os (read_and_check_conf_win32 win_example_settings True)
     (\<lambda>out es. case out of Ret (changed, st') \<Rightarrow> home st' = home win_example_settings | _ \<Rightarrow> True)"
proof -
  have "runs posix_os (read_and_check_conf_win32 win_example_settings True)
     (\<lambda>out es. case out of Ret (changed, st') \<Rightarrow> home st' = home win_example_settings | _ \<Rightarrow> True)"
  proof (rule runs_weaken [OF win_config_keeps_settings_wellformed [OF win_example_settings_inv, where h = True]], goal_cases)
    case (1 out es)
    then show ?case by (cases out) (auto, metis settings_t.select_convs(4) settings_t.surjective settings_t.update_convs(1))
  qed
  then show ?thesis using win_example_settings_inv by blast
qed

end
