(* ===== verification/Win_Request.thy ===== *)
theory Win_Request
  imports Win_Config Win_File
begin

text \<open>
  One request in the Win32 build (children.c, gopher.c): the Win32 branches of \<^verbatim>\<open>read_request\<close>,
  \<^verbatim>\<open>send_content_of_dir\<close> and \<^verbatim>\<open>management_function\<close>. A path has 260 bytes here, so the length
  test can fail; both separators end a component. The lemmas show that the handler opens nothing but the guarded
  path, and how it ends: in a thread as on Linux, in the process of mp.c by
  freeing a local variable.
\<close>

section \<open>Constants\<close>

definition WSAEWOULDBLOCK :: int where "WSAEWOULDBLOCK = 10035"
definition SOCKET_ERROR :: int where "SOCKET_ERROR = - 1"

text \<open>What Windows says of a path: the three parameters of \<open>type_path_win32\<close>.\<close>

record win_paths =
  has_attributes :: "string \<Rightarrow> bool"
  is_directory :: "string \<Rightarrow> bool"
  extension_of :: "string \<Rightarrow> string"

abbreviation type_on :: "win_paths \<Rightarrow> string \<Rightarrow> char prog" where
  "type_on P \<equiv> type_path_win32 (has_attributes P) (is_directory P) (extension_of P)"

section \<open>Reading the request\<close>

definition read_round_win32 :: "int \<Rightarrow> nat \<Rightarrow> nat \<times> nat \<times> string \<Rightarrow>
    ((nat \<times> nat \<times> string) + (nat \<times> string) option) prog" where
  "read_round_win32 sd buflen s =
     (let (total_recv, read_bytes, buf) = s in
      if read_bytes \<ge> buflen then
        say ERROR ''sd - %d, failed because of wrong input. Closing the connection'' [AI sd] (ret (Inr None))
      else
        call (Net (Recv sd (buflen - read_bytes) NoFlags)) (\<lambda>check.
        if rv check > 0 then
          let buf = take read_bytes buf @ payload check @ drop (read_bytes + length (payload check)) buf;
              total_recv = total_recv + nat (rv check);
              (found, read_bytes, buf) = scan read_bytes total_recv buf in
          if found then ret (Inr (Some (read_bytes, buf)))
          else ret (Inl (total_recv, read_bytes, buf))
        else if rv check = 0 then
          say DEBUG ''Connection closed %lld'' [AI sd] (ret (Inr None))
        else if errno check \<noteq> WSAEWOULDBLOCK then
          say ERROR ''recv() of sd - %d, failed with error: %d. Closing the connection.''
            [AI sd, AI (errno check)] (ret (Inr None))
        else ret (Inl (total_recv, read_bytes, buf))))"

definition read_request_win32 :: "int \<Rightarrow> string \<Rightarrow> nat \<Rightarrow> (nat \<times> string \<times> bool) option prog" where
  "read_request_win32 sd buf buflen =
     bind (loop (read_round_win32 sd buflen) (0, 0, buf)) (\<lambda>res.
     case res of
       None \<Rightarrow> ret None
     | Some (read_bytes, buf) \<Rightarrow>
         call (Mem (Realloc ''buf'' read_bytes)) (\<lambda>m.
         if rv m = 0 then
           say ERROR ''read_request(): realloc failed with error: %d. Closing connection.'' [AI (errno m)]
           (ret None)
         else ret (Some (read_bytes, take read_bytes buf, num m \<noteq> 0))))"

section \<open>The menu\<close>

text \<open>The test is for a backslash, but what is put between is a slash.\<close>

definition subfile_path_win32 :: "string \<Rightarrow> string \<Rightarrow> string" where
  "subfile_path_win32 path_file d_name =
     (if last path_file = BACKSLASH
      then snprintf (length path_file + length d_name + 1) (path_file @ d_name)
      else snprintf (length path_file + length d_name + 2) (path_file @ ''/'' @ d_name))"

definition dir_round_win32 :: "win_paths \<Rightarrow> char \<Rightarrow> client_args \<Rightarrow> string \<Rightarrow> string option \<Rightarrow>
    (string option + string option) prog" where
  "dir_round_win32 P before c client_selector response =
     call (File Readdir) (\<lambda>subFile.
     if rv subFile = 0 then ret (Inr response)
     else
       let d_name = cstr (payload subFile) in
       if d_name = ''..'' \<or> d_name = ''.'' then ret (Inl response)
       else
         call (Mem (Malloc ''path_of_subfile'' (int (length (path_of c) + length d_name + 2)))) (\<lambda>m.
         if rv m = 0 then say ERROR ''malloc of path_of_subfile failed'' [] (exit 1)
         else if path_of c = [] then crash ''path_file[-1]''
         else
           bind (type_on P (subfile_path_win32 (path_of c) d_name)) (\<lambda>type.
           call (Mem (Malloc ''response_line'' (int (len_responce client_selector (c_settings c) d_name)))) (\<lambda>m.
           if rv m = 0 then say ERROR ''malloc of response_line failed with error'' [] (exit 1)
           else
             let line = response_line before client_selector (c_settings c) type d_name;
                 size = (case response of None \<Rightarrow> length line + 1 | Some r \<Rightarrow> length r + length line + 1) in
             call (Mem (Realloc ''response'' size)) (\<lambda>m.
             if rv m = 0 then say ERROR ''malloc of response_line failed with error'' [] (exit 1)
             else
               eff (Mem (Free ''response_line''))
               (eff (Mem (Free ''path_of_subfile''))
               (ret (Inl (Some (case response of None \<Rightarrow> line | Some r \<Rightarrow> r @ line))))))))))"

text \<open>The code of the error is printed with \<^verbatim>\<open>%s\<close>: a number is used as a pointer.\<close>

definition finish_menu_win32 :: "client_args \<Rightarrow> string \<Rightarrow> unit prog" where
  "finish_menu_win32 c r =
     call (Mem (Realloc ''response'' (length r + 4))) (\<lambda>m.
     if rv m = 0 then say ERROR ''malloc of response_line failed with error'' [] (exit 1)
     else
       let response = r @ ''.'' @ [CR, LF] in
       call (Net (Send (c_socket c) response)) (\<lambda>check.
       if rv check = SOCKET_ERROR then crash ''error code printed as a string''
       else
         eff (Mem (Free ''response''))
         (say DEBUG ''send_content_of_dir response_line to socket %d: SENT'' [AI (c_socket c)]
         (call (File Closedir) (\<lambda>closed.
          say_if (rv closed = - 1) ERROR ''failed close dir: %s'' [AS (path_of c)] (ret ()))))))"

definition send_content_of_dir_win32 :: "win_paths \<Rightarrow> char \<Rightarrow> client_args \<Rightarrow> string \<Rightarrow> unit prog" where
  "send_content_of_dir_win32 P before c client_selector =
     say DEBUG ''send_content_of_dir: %s'' [AS (path_of c)]
     (call (File (Opendir (path_of c))) (\<lambda>folder.
     if rv folder = 0 then say ERROR ''failed open dir: %s'' [AS (path_of c)] (ret ())
     else
       bind (loop (dir_round_win32 P before c client_selector) None) (\<lambda>response.
       case response of
         None \<Rightarrow> crash ''strlen(response) of the null pointer''
       | Some r \<Rightarrow> finish_menu_win32 c r)))"

section \<open>The handler\<close>

text \<open>
  \<open>allocated\<close>: the arguments come from \<^verbatim>\<open>calloc\<close>, as in a thread; in the process of mp.c they are a
  local variable, which must not be freed.
\<close>

definition free_client_args_win32 :: "bool \<Rightarrow> 'a prog \<Rightarrow> 'a prog" where
  "free_client_args_win32 allocated p =
     eff (Mem (Free ''path_file''))
     (if allocated then eff (Mem (Free ''c'')) p else crash ''free of a local variable'')"

definition close_socket_win32 :: "int \<Rightarrow> 'a prog \<Rightarrow> 'a prog" where
  "close_socket_win32 sd p = eff (Win (CloseSocket sd)) (say DEBUG ''Closed socket %lld'' [AI sd] p)"

definition close_socket_kill_child_win32 :: "bool \<Rightarrow> client_args \<Rightarrow> int \<Rightarrow> 'a prog" where
  "close_socket_kill_child_win32 allocated c errcode =
     (let m = mode (c_settings c); s = c_socket c in
      free_client_args_win32 allocated
        (if m = CHR ''t'' then close_socket_win32 s (kill_thread errcode) else exit errcode))"

definition answer_win32 :: "win_paths \<Rightarrow> string \<Rightarrow> char \<Rightarrow> client_args \<Rightarrow> string \<Rightarrow> char \<Rightarrow> unit prog" where
  "answer_win32 P garbage before c input type =
     (if type = CHR ''1'' then send_content_of_dir_win32 P before c input
      else if type = CHR ''3'' then
        case error_text input of
          None \<Rightarrow> crash ''write past the end of temp''
        | Some temp \<Rightarrow>
            call (Net (Send (c_socket c) temp)) (\<lambda>check.
            if rv check = SOCKET_ERROR then crash ''error code printed as a string'' else ret ())
      else
        bind (load_file_memory_and_send_win32 garbage c) (\<lambda>_. say DEBUG (''finito invio '' @ [LF]) [] (ret ())))"

text \<open>\<^verbatim>\<open>strcpy\<close> of the home directory needs room for its terminator.\<close>

definition serve_win32 :: "win_paths \<Rightarrow> string \<Rightarrow> bool \<Rightarrow> char \<Rightarrow> client_args \<Rightarrow> string \<Rightarrow> unit prog" where
  "serve_win32 P garbage allocated before c input =
     say DEBUG (''RECEIVED: \"%s\" at addr %p'' @ [LF]) [AS input]
     (call (Mem (Malloc ''path_file'' (int PATH_MAX_WIN32))) (\<lambda>m.
      if rv m = 0 then say ERROR ''calloc of c->path_file failed with error: %d'' [AI (errno m)] (exit 1)
      else
        let path_file = home (c_settings c);
            len_check = length path_file + length input in
        if length path_file \<ge> PATH_MAX_WIN32 then crash ''write past the end of path_file''
        else if len_check \<ge> PATH_MAX_WIN32 then
          say ERROR ''Exceeded PATH_MAX length: requested path is %d chars long'' [AI (int len_check)]
          (close_socket_kill_child_win32 allocated c 0)
        else
          let c = c\<lparr>c_path_file := path_file @ input\<rparr> in
          say DEBUG ''PATH+SELECTOR %d bytes: %s'' [AI (int (length (c_path_file c))), AS (c_path_file c)]
          (if check_security_path (c_path_file c) then
             say WARNING (''Path traversal detected in client'' @ [QUOTE] @ ''s request: %s'') [AS (c_path_file c)]
             (eff (Mem (Free ''input'')) (close_socket_kill_child_win32 allocated c 0))
           else
             bind (type_on P (c_path_file c)) (\<lambda>type.
             bind (answer_win32 P garbage before c input type) (\<lambda>_.
             eff (Mem (Free ''input'')) (close_socket_kill_child_win32 allocated c 0))))))"

text \<open>\<open>garbage\<close> is what the array \<^verbatim>\<open>buff\<close> of the sender holds at first.\<close>

definition management_function_win32 :: "win_paths \<Rightarrow> string \<Rightarrow> bool \<Rightarrow> client_args \<Rightarrow> unit prog" where
  "management_function_win32 P garbage allocated c =
     call (Win WSAStartup) (\<lambda>s.
     if rv s = SOCKET_ERROR then
       say ERROR ''WSAStartup failed with error: %d'' [AI (errno s)]
       (close_socket_kill_child_win32 allocated c 0)
     else
       let size = MAX_REQUEST_LEN - length (home (c_settings c)) in
       call (Mem (Malloc ''input'' (int size))) (\<lambda>m.
       if rv m = 0 then say ERROR ''calloc of input failed with error: %d'' [AI (errno m)] (exit 1)
       else
         bind (read_request_win32 (c_socket c) (replicate size NUL) size) (\<lambda>check.
         case check of
           None \<Rightarrow> close_socket_kill_child_win32 allocated c 0
         | Some (n, input, moved) \<Rightarrow>
             if moved then crash ''input used after realloc moved it''
             else serve_win32 P garbage allocated (byte_before m) c (cstr input))))"

section \<open>Reading is the same in both builds\<close>

lemma read_request_win32_receives:
  "read_request_win32 sd buf buflen = receive_request NoFlags WSAEWOULDBLOCK
     ''recv() of sd - %d, failed with error: %d. Closing the connection.''
     ''read_request(): realloc failed with error: %d. Closing connection.'' AI sd buf buflen"
proof -
  have "read_round_win32 sd buflen = receive_round NoFlags WSAEWOULDBLOCK
     ''recv() of sd - %d, failed with error: %d. Closing the connection.'' AI sd buflen"
    by (rule ext) (simp add: read_round_win32_def receive_round_def)
  then show ?thesis by (simp only: read_request_win32_def receive_request_def)
qed

lemmas runs_read_request_win32 = runs_receive_request [where fl = NoFlags and again = WSAEWOULDBLOCK and arg = AI
  and failed = "''recv() of sd - %d, failed with error: %d. Closing the connection.''"
  and no_memory = "''read_request(): realloc failed with error: %d. Closing connection.''",
  folded read_request_win32_receives]

section \<open>How a request ends\<close>

definition win_farewell :: "client_args \<Rightarrow> event list" where
  "win_farewell c = [Eff (Mem (Free ''path_file'')), Eff (Mem (Free ''c'')), Eff (Win (CloseSocket (c_socket c))),
     Log DEBUG ''Closed socket %lld'' [AI (c_socket c)]]"

definition win_handler_end :: "bool \<Rightarrow> client_args \<Rightarrow> unit outcome \<Rightarrow> event list \<Rightarrow> bool" where
  "win_handler_end allocated c out es \<longleftrightarrow>
     (case out of
        Ret u \<Rightarrow> False
      | Exit n \<Rightarrow> n = 1 \<or> n = 5 \<or> (n = 0 \<and> allocated \<and> mode (c_settings c) \<noteq> CHR ''t'')
      | ThreadExit \<Rightarrow> allocated \<and> mode (c_settings c) = CHR ''t'' \<and> suffix (win_farewell c) es
      | Crash m \<Rightarrow> m = ''strlen(response) of the null pointer'' \<or> m = ''input used after realloc moved it'' \<or>
          m = ''error code printed as a string'' \<or> m = ''%s past the end of buff'' \<or>
          (\<not> allocated \<and> m = ''free of a local variable'')
      | Blocked \<Rightarrow> True)"

interpretation win_handler: ending "win_handler_end allocated c" for allocated c
  by unfold_locales (auto simp: win_handler_end_def suffix_Cons split: outcome.splits)

lemma runs_close_win32:
  assumes "c_settings c' = c_settings c" "c_socket c' = c_socket c"
  shows "runs C (close_socket_kill_child_win32 allocated c' 0) (win_handler_end allocated c)"
  unfolding close_socket_kill_child_win32_def free_client_args_win32_def close_socket_win32_def kill_thread_def Let_def
  by (intro runs_intros) (use assms in \<open>auto simp: win_handler_end_def win_farewell_def\<close>)

text \<open>A function of the handler that returns, exits, or prints what it should not.\<close>

definition win_part_end :: "'a outcome \<Rightarrow> bool" where
  "win_part_end out \<longleftrightarrow>
     (case out of
        Ret u \<Rightarrow> True
      | Exit n \<Rightarrow> n = 1 \<or> n = 5
      | ThreadExit \<Rightarrow> False
      | Crash m \<Rightarrow> m = ''strlen(response) of the null pointer'' \<or> m = ''error code printed as a string'' \<or>
          m = ''%s past the end of buff''
      | Blocked \<Rightarrow> True)"

lemma win_part_end_passes: "win_part_end out \<Longrightarrow> win_handler.passes allocated c out"
  by (cases out) (auto simp: win_part_end_def win_handler_end_def)

lemma runs_win_part:
  "runs C p (\<lambda>out es. win_part_end out) \<Longrightarrow> (\<And>a. runs C (f a) (win_handler_end allocated c)) \<Longrightarrow>
   runs C (bind p f) (win_handler_end allocated c)"
  by (rule win_handler.part [OF runs_weaken [OF _ win_part_end_passes]])

lemma runs_type_on: "runs C (type_on P path) (\<lambda>out es. \<exists>t. out = Ret t)"
  unfolding type_path_win32_def Let_def by (intro runs_intros) simp_all

lemma runs_typed:
  assumes "\<And>t es. runs C (f t) (\<lambda>out es'. R out (es @ es'))"
  shows "runs C (bind (type_on P path) f) R"
  by (rule runs_bind_weaken [OF runs_type_on]) (auto intro: assms)

lemma runs_pages_end:
  "runs C (loop (send_round_win32 page h c) n) (\<lambda>out es. (\<exists>x. out = Ret x) \<or> out = ThreadExit \<or> out = Blocked)"
  by (rule pages_loop.invariant [where I = "\<lambda>_ _. True"])
     (unfold send_round_win32_def unmap_view_def Let_def, simp, intro runs_intros, simp_all)

lemma runs_sender_end:
  "runs C (thread_sender_win32 garbage h c) (\<lambda>out es. out = Ret () \<or> out = ThreadExit \<or> out = Exit 5 \<or> out = Blocked \<or>
     out = Crash ''%s past the end of buff'')"
proof -
  have logged: "runs C (bind (log_transfer_win32 c) (\<lambda>_. pthread_exit))
      (\<lambda>out es. out = ThreadExit \<or> out = Exit 5 \<or> out = Blocked)"
    by (rule runs_bind_weaken [OF runs_log_transfer_win32]) (auto simp: message_sent_def intro!: runs_pthread_exit)
  show ?thesis
    unfolding thread_sender_win32_def
  proof (intro runs_call runs_bind_weaken [OF runs_pages_end], goal_cases)
    case (2 s out es)
    have "runs C (bind (loop (closing_round_win32 c) garbage)
        (\<lambda>_. if n = c_len_file c then bind (log_transfer_win32 c) (\<lambda>_. pthread_exit) else pthread_exit))
        (\<lambda>out es. out = ThreadExit \<or> out = Exit 5 \<or> out = Blocked \<or> out = Crash ''%s past the end of buff'')" for n
      by (rule runs_bind_weaken [OF runs_closing_win32])
         (auto intro!: runs_pthread_exit runs_weaken [OF logged])
    note closing = runs_weaken [OF this]
    show ?case
    proof (cases "\<exists>n. out = Ret (Some n)")
      case True
      then obtain n where out: "out = Ret (Some n)" by blast
      show ?thesis
        unfolding out after.simps option.case
        by (intro runs_call runs_if [where b = "rv r \<noteq> 0" for r] runs_say runs_pthread_exit closing) auto
    next
      case False
      with 2 show ?thesis by (auto intro!: runs_ret split: option.split)
    qed
  qed simp
qed

lemma runs_load_win32_end: "runs C (load_file_memory_and_send_win32 garbage c) (\<lambda>out es. win_part_end out)"
proof -
  have finish: "runs C (finish_transfer c') (\<lambda>out es. win_part_end out)" for c'
    by (rule runs_weaken [OF runs_finish_transfer]) (auto simp: finished_def win_part_end_def split: outcome.splits)
  show ?thesis
    unfolding load_file_memory_and_send_win32_def Let_def
    by (intro runs_call runs_if runs_say runs_ret runs_in_thread runs_weaken [OF runs_sender_end])
       (auto simp: win_part_end_def intro!: runs_weaken [OF finish])
qed

lemma dir_round_win32_ends:
  assumes "path_of c \<noteq> []"
  shows "runs C (dir_round_win32 P before c sel s) (\<lambda>out es. (goes_round out \<longrightarrow> 0 < calls es) \<and>
     ((\<exists>x. out = Ret x) \<or> out = Exit 1 \<or> out = Blocked))"
  unfolding dir_round_win32_def Let_def
  by (intro runs_typed runs_call runs_if runs_say runs_exit runs_ret runs_eff runs_crash) (use assms in simp_all)

lemma dir_round_win32_consumes:
  "runs any_os (dir_round_win32 P before c sel s) (\<lambda>out es. goes_round out \<longrightarrow> 0 < calls es)"
  unfolding dir_round_win32_def Let_def
  by (intro runs_typed runs_call runs_if runs_say runs_exit runs_ret runs_eff runs_crash) simp_all

interpretation dir_win32_loop: loop_body "dir_round_win32 P before c sel" for P before c sel
  by unfold_locales (rule dir_round_win32_consumes)

lemma runs_dir_loop_win32:
  assumes "path_of c \<noteq> []"
  shows "runs C (loop (dir_round_win32 P before c sel) s) (\<lambda>out es. (\<exists>x. out = Ret x) \<or> out = Exit 1 \<or> out = Blocked)"
proof (rule dir_win32_loop.invariant [where I = "\<lambda>_ _. True"], simp, rule runs_weaken [OF dir_round_win32_ends [OF assms]])
  fix es es' and out :: "(string option + string option) outcome"
  assume "(goes_round out \<longrightarrow> 0 < calls es') \<and> ((\<exists>x. out = Ret x) \<or> out = Exit 1 \<or> out = Blocked)"
  then show "round (\<lambda>_ _. True) (\<lambda>out es. (\<exists>x. out = Ret x) \<or> out = Exit 1 \<or> out = Blocked) es out es'"
    by (cases out rule: goes_round.cases) auto
qed

lemma runs_menu_win32:
  assumes "path_of c \<noteq> []"
  shows "runs C (send_content_of_dir_win32 P before c sel) (\<lambda>out es. win_part_end out)"
proof -
  have finish: "runs C (finish_menu_win32 c r) (\<lambda>out es. win_part_end out)" for r
    unfolding finish_menu_win32_def Let_def by (intro runs_intros) (simp_all add: win_part_end_def)
  show ?thesis
    unfolding send_content_of_dir_win32_def
    by (intro runs_say runs_call runs_if runs_ret runs_bind_weaken [OF runs_dir_loop_win32 [OF assms]])
       (auto simp: win_part_end_def intro!: runs_crash runs_weaken [OF finish] split: option.split)
qed

lemma runs_answer_win32:
  assumes "path_of c \<noteq> []"
  shows "runs C (answer_win32 P garbage before c input type) (\<lambda>out es. win_part_end out)"
proof -
  have "after C (\<lambda>_. say DEBUG (''finito invio '' @ [LF]) [] (ret ())) (\<lambda>out es. win_part_end out) out es"
    if "win_part_end out" for out :: "(bool \<times> client_args) outcome" and es
    using that by (cases out) (auto simp: win_part_end_def intro!: runs_intros)
  then show ?thesis
    unfolding answer_win32_def error_text_fits option.case
    by (intro runs_if runs_menu_win32 assms runs_call runs_crash runs_ret runs_bind_weaken [OF runs_load_win32_end])
       (simp_all add: win_part_end_def)
qed

lemma runs_serve_win32:
  assumes "NUL \<notin> set input" "home (c_settings c) \<noteq> []" "length (home (c_settings c)) < PATH_MAX_WIN32"
  shows "runs C (serve_win32 P garbage allocated before c input) (win_handler_end allocated c)"
proof -
  let ?c = "c\<lparr>c_path_file := target c input\<rparr>"
  have last: "runs C (close_socket_kill_child_win32 allocated c' 0) (win_handler_end allocated c)"
    if "c_settings c' = c_settings c" "c_socket c' = c_socket c" for c'
    by (rule runs_close_win32 [OF that])
  have type: "runs C (type_on P path) (\<lambda>out es. win_part_end out)" for path
    by (rule runs_weaken [OF runs_type_on]) (auto simp: win_part_end_def)
  have one: "win_handler_end allocated c (Exit 1) []" by (simp add: win_handler_end_def)
  have "path_of ?c \<noteq> []" using assms(2) cstr_target [OF assms(1)] by simp
  then show ?thesis
    unfolding serve_win32_def Let_def
    by (intro win_handler.intros runs_win_part runs_answer_win32 last type one) (use assms(3) in simp_all)
qed

lemma runs_management_win32:
  assumes "home (c_settings c) \<noteq> []" "length (home (c_settings c)) < PATH_MAX_WIN32"
  shows "runs posix_os (management_function_win32 P garbage allocated c) (win_handler_end allocated c)"
proof -
  let ?size = "MAX_REQUEST_LEN - length (home (c_settings c))"
  have one: "win_handler_end allocated c (Exit 1) []" by (simp add: win_handler_end_def)
  have moved: "win_handler_end allocated c (Crash ''input used after realloc moved it'') []"
    by (simp add: win_handler_end_def)
  have read: "runs posix_os (read_request_win32 (c_socket c) (replicate ?size NUL) ?size)
      (\<lambda>out es. win_handler.passes allocated c out)"
    by (rule runs_weaken [OF runs_read_request_win32]) (auto split: outcome.splits)
  have serve: "runs posix_os (serve_win32 P garbage allocated before c (cstr input)) (win_handler_end allocated c)"
    for before input
    by (rule runs_serve_win32 [OF _ assms]) simp
  show ?thesis
    unfolding management_function_win32_def Let_def
    by (intro win_handler.intros win_handler.part [OF read] runs_close_win32 one)
       (auto intro!: win_handler.intros runs_close_win32 serve moved split: option.split)
qed

section \<open>What a request touches\<close>

text \<open>The events of \<open>serve_win32\<close> for the path \<open>q\<close>; no command is run in this build.\<close>

fun win_serve_event :: "client_args \<Rightarrow> string \<Rightarrow> event \<Rightarrow> bool" where
  "win_serve_event c q (Sys (Win (OpenForRead p)) r) = (p = q \<and> \<not> check_security_path q \<and> length q < PATH_MAX_WIN32)"
| "win_serve_event c q (Sys (File (Opendir p)) r) = (p = q \<and> \<not> check_security_path q \<and> length q < PATH_MAX_WIN32)"
| "win_serve_event c q (Sys (File (OpenRdwr p)) r) = False"
| "win_serve_event c q (Sys (File (Popen cmd)) r) = False"
| "win_serve_event c q (Sys (File (FopenRead p)) r) = False"
| "win_serve_event c q (Sys (File (FopenAppend p)) r) = False"
| "win_serve_event c q (Sys (Win (CreateLogFile p)) r) = False"
| "win_serve_event c q (Sys (Win (CreateProcess p)) r) = False"
| "win_serve_event c q (Sys (Net (Send fd s)) r) = (fd = c_socket c)"
| "win_serve_event c q (Sys (Net (Recv fd n fl)) r) = (fd = c_socket c)"
| "win_serve_event c q (Sys (Net (Accept fd)) r) = False"
| "win_serve_event c q (Sys (Proc p) r) = (p = Localtime)"
| "win_serve_event c q (Sys (Thread t) r) = False"
| "win_serve_event c q (Sys (Win (StartThread n c')) r) = (n = ''thread_sender'' \<and> c_settings c' = c_settings c)"
| "win_serve_event c q e = True"

text \<open>The path may be served: it has passed both tests.\<close>

definition admitted :: "string \<Rightarrow> bool" where
  "admitted q \<longleftrightarrow> \<not> check_security_path q \<and> length q < PATH_MAX_WIN32"

lemma only_sender_win32: "c_socket c' = c_socket c \<Longrightarrow> only (win_serve_event c q) (thread_sender_win32 garbage h c')"
proof -
  assume same: "c_socket c' = c_socket c"
  have pages: "only (win_serve_event c q) (loop (send_round_win32 page h c') n)" for page n
    by (rule pages_loop.only_loop)
       (unfold send_round_win32_def unmap_view_def Let_def, intro only_intros; simp add: same)
  have closing: "only (win_serve_event c q) (loop (closing_round_win32 c') b)" for b
    by (rule closing_win32_loop.only_loop) (unfold closing_round_win32_def Let_def, intro only_intros; simp add: same)
  show ?thesis
    unfolding thread_sender_win32_def log_transfer_win32_def date_string_def write_message_def
    by (intro only_intros pages closing; simp?)
qed

lemma only_load_win32:
  assumes "cstr (c_path_file c') = q" "admitted q" "c_socket c' = c_socket c" "c_settings c' = c_settings c"
  shows "only (win_serve_event c q) (load_file_memory_and_send_win32 garbage c')"
  unfolding load_file_memory_and_send_win32_def finish_transfer_def Let_def
  by (intro only_intros only_sender_win32) (use assms in \<open>simp_all add: admitted_def\<close>)

lemma only_menu_win32:
  assumes "path_of c' = q" "admitted q" "c_socket c' = c_socket c" "c_settings c' = c_settings c"
  shows "only (win_serve_event c q) (send_content_of_dir_win32 P before c' sel)"
proof -
  have type: "only (win_serve_event c q) (type_on P path)" for path
    unfolding type_path_win32_def Let_def by (intro only_intros) simp_all
  have "only (win_serve_event c q) (loop (dir_round_win32 P before c' sel) s)" for s
    by (rule dir_win32_loop.only_loop) (unfold dir_round_win32_def Let_def, intro only_intros type; simp)
  moreover have "only (win_serve_event c q) (finish_menu_win32 c' r)" for r
    unfolding finish_menu_win32_def Let_def by (intro only_intros) (simp_all add: assms)
  ultimately show ?thesis
    unfolding send_content_of_dir_win32_def
    by (intro only_intros) (use assms in \<open>simp_all add: admitted_def\<close>)
qed

lemma only_farewell_win32: "only (win_serve_event c q) (close_socket_kill_child_win32 allocated c' n)"
  unfolding close_socket_kill_child_win32_def free_client_args_win32_def close_socket_win32_def kill_thread_def Let_def
  by (intro only_intros) simp_all

lemma only_serve_win32:
  assumes "NUL \<notin> set input"
  shows "only (win_serve_event c (target c input)) (serve_win32 P garbage allocated before c input)"
proof -
  let ?q = "target c input" and ?c = "c\<lparr>c_path_file := target c input\<rparr>"
  have path: "path_of ?c = ?q" using cstr_target [OF assms] by simp
  have type: "only (win_serve_event c ?q) (type_on P path)" for path
    unfolding type_path_win32_def Let_def by (intro only_intros) simp_all
  have answer: "only (win_serve_event c ?q) (answer_win32 P garbage before ?c input t)" if "admitted ?q" for t
    unfolding answer_win32_def error_text_fits option.case
    by (intro only_intros only_menu_win32 only_load_win32) (use that path in simp_all)
  have admitted: "admitted ?q" if "\<not> length (home (c_settings c)) + length input \<ge> PATH_MAX_WIN32" "\<not> check_security_path ?q"
    using that by (simp add: admitted_def)
  show ?thesis
    unfolding serve_win32_def Let_def
    by (intro only_intros only_farewell_win32 type answer admitted) simp_all
qed

section \<open>The whole handler\<close>

fun win_read_event :: "client_args \<Rightarrow> event \<Rightarrow> bool" where
  "win_read_event c (Sys (Net (Recv fd n fl)) r) = (fd = c_socket c \<and> fl = NoFlags)"
| "win_read_event c (Sys (Mem m) r) = True"
| "win_read_event c (Sys (Win w) r) = (w = WSAStartup)"
| "win_read_event c (Sys _ r) = False"
| "win_read_event c e = True"

definition win_request_events :: "client_args \<Rightarrow> event list \<Rightarrow> bool" where
  "win_request_events c es \<longleftrightarrow>
     (\<exists>es1 es2. es = es1 @ es2 \<and> (\<forall>e \<in> set es1. win_read_event c e) \<and>
        (es2 = [] \<or> (\<exists>t. cut (heard NoFlags es1) = Some t \<and> (\<forall>e \<in> set es2. win_serve_event c (target c (cstr t)) e))))"

lemma win_request_events_read: "\<forall>e \<in> set es. win_read_event c e \<Longrightarrow> win_request_events c es"
  unfolding win_request_events_def by (intro exI [of _ es] exI [of _ "[]"]) simp

lemma win_request_events_served:
  "\<forall>e \<in> set es. win_read_event c e \<Longrightarrow> cut (heard NoFlags es) = Some t \<Longrightarrow>
   \<forall>e \<in> set es'. win_serve_event c (target c (cstr t)) e \<Longrightarrow> win_request_events c (es @ es')"
  unfolding win_request_events_def by blast

lemma only_read_farewell_win32: "only (win_read_event c) (close_socket_kill_child_win32 allocated c' n)"
  unfolding close_socket_kill_child_win32_def free_client_args_win32_def close_socket_win32_def kill_thread_def Let_def
  by (intro only_intros) simp_all

lemma only_read_request_win32: "only (win_read_event c) (read_request_win32 (c_socket c) buf n)"
  unfolding read_request_win32_receives by (rule only_receive_request) simp_all

text \<open>After the request has been read.\<close>

lemma win_after_read:
  assumes "\<forall>e \<in> set es. win_read_event c e"
    and "case res of None \<Rightarrow> True | Some (n, input, moved) \<Rightarrow> \<exists>t. cut (heard NoFlags es) = Some t \<and> input = t @ [NUL]"
  shows "runs C (case res of
          None \<Rightarrow> close_socket_kill_child_win32 allocated c 0
        | Some (n, input, moved) \<Rightarrow>
            if moved then crash ''input used after realloc moved it''
            else serve_win32 P garbage allocated before c (cstr input)) (\<lambda>out es'. win_request_events c (es @ es'))"
proof (cases res)
  case None
  have "runs C (close_socket_kill_child_win32 allocated c 0 :: unit prog) (\<lambda>out es'. win_request_events c (es @ es'))"
    by (rule runs_any, rule runs_weaken [OF only_read_farewell_win32 [where c = c, unfolded only_def]])
       (rule win_request_events_read, use assms(1) in \<open>auto simp: ball_Un\<close>)
  with None show ?thesis by simp
next
  case (Some r)
  obtain n input moved where r: "r = (n, input, moved)" by (cases r)
  from Some r assms(2) obtain t where t: "cut (heard NoFlags es) = Some t" "input = t @ [NUL]" by auto
  have "runs C (serve_win32 P garbage allocated before c (cstr t)) (\<lambda>out es'. win_request_events c (es @ es'))"
    by (rule runs_any, rule runs_weaken [OF only_serve_win32 [unfolded only_def]])
       (use win_request_events_served [OF assms(1) t(1)] in simp_all)
  then show ?thesis
    using Some r t(2) cstr_cut [of t] win_request_events_read [OF assms(1)] by (auto intro!: runs_crash)
qed

lemma runs_management_events:
  "runs posix_os (management_function_win32 P garbage allocated c) (\<lambda>out es. win_request_events c es)"
  unfolding management_function_win32_def Let_def
proof (intro runs_call runs_if runs_say runs_exit, goal_cases)
  case (2 s)
  show ?case
    by (rule runs_any, rule runs_weaken [OF only_read_farewell_win32 [where c = c, unfolded only_def]])
       (rule win_request_events_read, simp)
next
  case (5 s m)
  let ?size = "MAX_REQUEST_LEN - length (home (c_settings c))"
  let ?pre = "[Sys (Win WSAStartup) s, Sys (Mem (Malloc ''input'' (int ?size))) m]"
  show ?case
  proof (rule runs_bind_weaken [OF runs_only [OF runs_read_request_win32 only_read_request_win32]], goal_cases)
    case 1
    show ?case by simp
  next
    case (2 out es)
    then have read: "\<forall>e \<in> set (?pre @ es). win_read_event c e" by simp
    show ?case
    proof (cases out)
      case (Ret res)
      have "heard NoFlags (?pre @ es) = heard NoFlags es" by simp
      then have "case res of None \<Rightarrow> True | Some (n, input, moved) \<Rightarrow>
          \<exists>t. cut (heard NoFlags (?pre @ es)) = Some t \<and> input = t @ [NUL]"
        using 2 Ret by (auto split: option.splits)
      from win_after_read [OF read this] Ret show ?thesis by simp
    qed (use win_request_events_read [OF read] in simp_all)
  qed
qed (auto intro!: win_request_events_read)

section \<open>Where a Windows path leads\<close>

text \<open>Both separators end a component; the guard looks for \<^verbatim>\<open>..\<close> before either of them.\<close>

definition to_slash :: "char \<Rightarrow> char" where
  "to_slash ch = (if ch = BACKSLASH then CHR ''/'' else ch)"

definition win_resolve :: "string \<Rightarrow> string list" where
  "win_resolve path = resolve (map to_slash path)"

definition win_last :: "string \<Rightarrow> string" where
  "win_last path = last_component (map to_slash path)"

lemma to_slash_eq: "to_slash ch = CHR ''.'' \<longleftrightarrow> ch = CHR ''.''" "to_slash ch = CHR ''/'' \<longleftrightarrow> ch = CHR ''/'' \<or> ch = BACKSLASH"
  by (auto simp: to_slash_def)

lemma check_security_path_win: "check_security_path p \<longleftrightarrow> strstr (map to_slash p) ''../''"
proof
  assume "check_security_path p"
  then obtain xs w ys where "p = xs @ w @ ys" "w = ''../'' \<or> w = ''..'' @ [BACKSLASH]"
    unfolding check_security_path_def strstr_def sublist_def by blast
  then have "map to_slash p = map to_slash xs @ ''../'' @ map to_slash ys" by (auto simp: to_slash_def)
  then show "strstr (map to_slash p) ''../''" unfolding strstr_def sublist_def by blast
next
  assume "strstr (map to_slash p) ''../''"
  then obtain xs ys where "map to_slash p = xs @ ''../'' @ ys" unfolding strstr_def sublist_def by blast
  then have "\<exists>us vs. p = us @ vs \<and> xs = map to_slash us \<and> ''../'' @ ys = map to_slash vs"
    by (rule map_eq_append_conv [THEN iffD1])
  then obtain us rest where p: "p = us @ rest" "map to_slash rest = ''../'' @ ys" by metis
  from p(2) have "\<exists>us vs. rest = us @ vs \<and> ''../'' = map to_slash us \<and> ys = map to_slash vs"
    by (rule map_eq_append_conv [THEN iffD1])
  then obtain w vs where w: "rest = w @ vs" "map to_slash w = ''../''" by metis
  from w(2) have "w = ''../'' \<or> w = ''..'' @ [BACKSLASH]"
    by (auto simp: map_eq_Cons_conv to_slash_eq)
  then show "check_security_path p"
    unfolding check_security_path_def strstr_def p(1) w(1) by auto
qed

text \<open>The guard is the one of the locale, for paths in which both separators are written as slashes.\<close>

interpretation win_guard: dotdot_guard "\<lambda>p. strstr p ''../''"
  by unfold_locales (simp add: strstr_def)

lemma win_confined:
  assumes "ends_in_backslash root" "\<not> check_security_path (root @ sel)"
  shows "prefix (if win_last sel = ''..'' then butlast (win_resolve root) else win_resolve root) (win_resolve (root @ sel))"
  unfolding win_resolve_def win_last_def map_append
proof (rule win_guard.confined)
  show "ends_in_slash (map to_slash root)"
    using assms(1) by (simp add: ends_in_slash_def ends_in_backslash_def last_map to_slash_def)
  show "\<not> strstr (map to_slash root @ map to_slash sel) ''../''"
    using assms(2) by (simp add: check_security_path_win)
qed

section \<open>What is opened and sent\<close>

fun win_opened :: "event list \<Rightarrow> string list" where
  "win_opened (Sys (Win (OpenForRead p)) r # es) = p # win_opened es"
| "win_opened (Sys (File (OpenRdwr p)) r # es) = p # win_opened es"
| "win_opened (Sys (File (Opendir p)) r # es) = p # win_opened es"
| "win_opened (e # es) = win_opened es"
| "win_opened [] = []"

lemma win_opened_append [simp]: "win_opened (es @ es') = win_opened es @ win_opened es'"
  by (induction es rule: win_opened.induct) auto

lemma win_read_event_nothing:
  assumes "\<forall>e \<in> set es. win_read_event c e"
  shows "win_opened es = []" "commands_run es = []" "sends es = []"
proof -
  show "win_opened es = []"
    using assms by (induction es rule: win_opened.induct) auto
  show "commands_run es = []"
    using assms by (induction es rule: commands_run.induct) auto
  show "sends es = []"
    using assms by (induction es rule: sends.induct) auto
qed

lemma win_serve_event_touches:
  assumes "\<forall>e \<in> set es. win_serve_event c q e"
  shows "p \<in> set (win_opened es) \<Longrightarrow> p = q \<and> admitted q" "commands_run es = []" "x \<in> set (sends es) \<Longrightarrow> fst x = c_socket c"
proof -
  show "p \<in> set (win_opened es) \<Longrightarrow> p = q \<and> admitted q"
    using assms by (induction es rule: win_opened.induct) (auto simp: admitted_def)
  show "commands_run es = []"
    using assms by (induction es rule: commands_run.induct) auto
  show "x \<in> set (sends es) \<Longrightarrow> fst x = c_socket c"
    using assms by (induction es rule: sends.induct) auto
qed

lemma win_request_confined:
  assumes "ends_in_backslash (home (c_settings c))" "win_request_events c es"
  shows "p \<in> set (win_opened es) \<Longrightarrow> \<exists>t. cut (heard NoFlags es) = Some t \<and> p = target c (cstr t) \<and> admitted p \<and>
      prefix (if win_last (cstr t) = ''..'' then butlast (win_resolve (home (c_settings c)))
              else win_resolve (home (c_settings c))) (win_resolve p)"
    and "commands_run es = []" and "x \<in> set (sends es) \<Longrightarrow> fst x = c_socket c"
proof -
  from assms(2) obtain es1 es2 where es: "es = es1 @ es2" "\<forall>e \<in> set es1. win_read_event c e"
    and served: "es2 = [] \<or> (\<exists>t. cut (heard NoFlags es1) = Some t \<and>
      (\<forall>e \<in> set es2. win_serve_event c (target c (cstr t)) e))"
    unfolding win_request_events_def by blast
  note quiet = win_read_event_nothing [OF es(2)]
  have "commands_run es2 = [] \<and> (x \<in> set (sends es2) \<longrightarrow> fst x = c_socket c)"
  proof (cases "es2 = []")
    case False
    with served obtain t where "\<forall>e \<in> set es2. win_serve_event c (target c (cstr t)) e" by blast
    from win_serve_event_touches(2,3) [OF this] show ?thesis by blast
  qed simp
  with es quiet show "commands_run es = []" "x \<in> set (sends es) \<Longrightarrow> fst x = c_socket c" by simp_all
  assume "p \<in> set (win_opened es)"
  with es quiet have p: "p \<in> set (win_opened es2)" by simp
  then have "es2 \<noteq> []" by auto
  with served obtain t where t: "cut (heard NoFlags es1) = Some t"
    "\<forall>e \<in> set es2. win_serve_event c (target c (cstr t)) e" by blast
  have "cut (heard NoFlags es) = Some t" using cut_more [OF t(1)] es(1) by simp
  moreover from win_serve_event_touches(1) [OF t(2) p] have q: "p = target c (cstr t)" "admitted (target c (cstr t))" by auto
  moreover have "prefix (if win_last (cstr t) = ''..'' then butlast (win_resolve (home (c_settings c)))
      else win_resolve (home (c_settings c))) (win_resolve (target c (cstr t)))"
    using q(2) by (intro win_confined [OF assms(1)]) (simp add: admitted_def)
  ultimately show "\<exists>t. cut (heard NoFlags es) = Some t \<and> p = target c (cstr t) \<and> admitted p \<and>
      prefix (if win_last (cstr t) = ''..'' then butlast (win_resolve (home (c_settings c)))
              else win_resolve (home (c_settings c))) (win_resolve p)"
    by blast
qed

text \<open>To evaluate examples on: every path is a file without an extension.\<close>

definition example_paths :: win_paths where
  "example_paths = \<lparr>has_attributes = \<lambda>_. True, is_directory = \<lambda>_. False, extension_of = \<lambda>_. []\<rparr>"

section \<open>Properties\<close>

text \<open>
  C22: whatever a client of the Win32 build sends, the only path that the handler opens, as a file
  or as a directory, is the home directory followed by the text before the first CR LF (up to its first NUL), and
  only when it passes the guard and fits 259 characters; read with both separators of Windows it
  lies in the home directory, or in its parent for a selector that ends in the component
  \<^verbatim>\<open>..\<close>. No command is run, and bytes are sent to this client only.
\<close>

theorem win_handler_opens_only_the_confined_path:
  assumes "win_settings_inv (c_settings c)"
  shows "runs posix_os (management_function_win32 P garbage allocated c) (\<lambda>out es.
    (\<forall>p \<in> set (win_opened es). \<exists>t. cut (heard NoFlags es) = Some t \<and> p = target c (cstr t) \<and>
       \<not> check_security_path p \<and> length p < 260 \<and>
       prefix (if win_last (cstr t) = ''..'' then butlast (win_resolve (home (c_settings c)))
               else win_resolve (home (c_settings c))) (win_resolve p)) \<and>
    commands_run es = [] \<and> (\<forall>x \<in> set (sends es). fst x = c_socket c))"
proof (rule runs_weaken [OF runs_management_events], goal_cases)
  case (1 out es)
  have "ends_in_backslash (home (c_settings c))"
    using assms by (simp add: win_settings_inv_def win_homedir_ok_def)
  note confined = win_request_confined [OF this 1, unfolded admitted_def PATH_MAX_WIN32_def]
  then show ?case by (intro conjI ballI) (blast | rule confined)+
qed

theorem win_handler_opens_only_the_confined_path_witness:
  "win_settings_inv (c_settings win_example_client) \<and>
   runs posix_os (management_function_win32 example_paths [] True win_example_client) (\<lambda>out es.
     win_opened es = [] \<or> (\<exists>t. cut (heard NoFlags es) = Some t \<and>
       hd (win_opened es) = ''C:'' @ [BACKSLASH] @ ''srv'' @ [BACKSLASH] @ cstr t))"
proof -
  have inv: "win_settings_inv (c_settings win_example_client)"
    by (simp add: win_example_client_def win_example_settings_inv)
  have home: "home (c_settings win_example_client) = ''C:'' @ [BACKSLASH] @ ''srv'' @ [BACKSLASH]"
    by (simp add: win_example_client_def win_example_home)
  have "runs posix_os (management_function_win32 example_paths [] True win_example_client) (\<lambda>out es.
     win_opened es = [] \<or> (\<exists>t. cut (heard NoFlags es) = Some t \<and>
       hd (win_opened es) = ''C:'' @ [BACKSLASH] @ ''srv'' @ [BACKSLASH] @ cstr t))"
  proof (rule runs_weaken [OF win_handler_opens_only_the_confined_path [OF inv]], goal_cases)
    case (1 out es)
    then show ?case unfolding home by (cases "win_opened es") auto
  qed
  with inv show ?thesis by blast
qed

text \<open>
  How a handler of the Win32 build ends. It never returns. In a thread it frees its arguments, closes the socket and
  ends the thread. The process of mp.c runs it with arguments in a local variable and the
  function frees that variable: no such process ends with code 0. Otherwise a call has failed (code 1 or 5),
  or the handler uses a moved request, lists an empty directory, or prints an error code or an unterminated
  array as a string.
\<close>

theorem win_handler_always_ends:
  assumes "win_settings_inv (c_settings c)"
  shows "runs posix_os (management_function_win32 P garbage allocated c) (\<lambda>out es.
    case out of
      Ret u \<Rightarrow> False
    | Exit n \<Rightarrow> n \<in> {1, 5} \<or> (n = 0 \<and> allocated \<and> mode (c_settings c) = CHR ''p'')
    | ThreadExit \<Rightarrow> allocated \<and> mode (c_settings c) = CHR ''t'' \<and>
        suffix [Eff (Mem (Free ''path_file'')), Eff (Mem (Free ''c'')), Eff (Win (CloseSocket (c_socket c))),
          Log DEBUG ''Closed socket %lld'' [AI (c_socket c)]] es
    | Crash m \<Rightarrow> m \<in> {''strlen(response) of the null pointer'', ''input used after realloc moved it'',
          ''error code printed as a string'', ''%s past the end of buff''} \<or>
        (\<not> allocated \<and> m = ''free of a local variable'')
    | Blocked \<Rightarrow> True)"
  by (rule runs_weaken [OF runs_management_win32 [OF win_home_bounds [OF assms]]])
     (use assms in \<open>auto simp: win_handler_end_def win_farewell_def win_settings_inv_def mode_ok_def split: outcome.splits\<close>)

theorem win_handler_always_ends_witness:
  "win_settings_inv (c_settings win_example_client) \<and>
   runs posix_os (management_function_win32 example_paths [] False win_example_client) (\<lambda>out es. out \<noteq> Ret () \<and> out \<noteq> Exit 0)"
proof -
  have inv: "win_settings_inv (c_settings win_example_client)"
    by (simp add: win_example_client_def win_example_settings_inv)
  have "runs posix_os (management_function_win32 example_paths [] False win_example_client) (\<lambda>out es. out \<noteq> Ret () \<and> out \<noteq> Exit 0)"
    by (rule runs_weaken [OF win_handler_always_ends [OF inv]]) auto
  with inv show ?thesis by blast
qed

end
