(* ===== verification/Win_Children.thy ===== *)
theory Win_Children
  imports Win_Request
begin

text \<open>
  Starting a handler in the Win32 build (children.c) and the handler process (win32-multiprocess/mp.c). A thread
  gets a pointer to its arguments. A process cannot be forked: the server copies the arguments into an
  anonymous mapping whose handle the child inherits, and prints the number of the handle on the command
  line of sacagawea-mp.exe, which reads it back and copies the arguments out of the
  mapping. What a mapping holds is the parameter \<open>shared\<close> of the child.
\<close>

section \<open>The server's side\<close>

text \<open>\<^verbatim>\<open>sizeof(client_args)\<close> in the 64-bit layout of Windows.\<close>

definition CLIENT_ARGS_SIZE :: nat where "CLIENT_ARGS_SIZE = 592"

definition thread_management_win32 :: "client_args \<Rightarrow> unit prog" where
  "thread_management_win32 c =
     print_client_args c
     (call (Win (StartThread ''management_function'' c)) (\<lambda>tHandle.
      call (Win (CloseHandle ''tHandle'')) (\<lambda>r.
      say_if (rv r = 0) ERROR ''Close tHandle in thread_managmente failed wirh error: %d'' [AI (errno r)] (ret ()))))"

text \<open>A handle that is closed after use; a failure is only logged.\<close>

definition release :: "string \<Rightarrow> string \<Rightarrow> 'a prog \<Rightarrow> 'a prog" where
  "release handle msg p =
     call (Win (CloseHandle handle)) (\<lambda>r. say_if (rv r = 0) ERROR msg [AI (errno r)] p)"

definition mp_command :: "int \<Rightarrow> string" where
  "mp_command h = ''sacagawea-mp.exe '' @ show_int h"

definition process_management_win32 :: "client_args \<Rightarrow> bool prog" where
  "process_management_win32 c =
     call (Win (CreateFileMapping (- 1) (int CLIENT_ARGS_SIZE))) (\<lambda>hMapFile.
     if rv hMapFile = 0 then
       say ERROR ''CreateFileMappingA failed wirh error: %d'' [AI (errno hMapFile)] (exit 1)
     else
       call (Win (MapView (rv hMapFile) 0 CLIENT_ARGS_SIZE)) (\<lambda>pBuf.
       if rv pBuf = 0 then say ERROR ''MapViewOfFile failed wirh error: %d'' [AI (errno pBuf)] (exit 1)
       else
         eff (Win (ShareArgs (rv hMapFile) c))
         (let szCmdline = mp_command (rv hMapFile) in
          if length szCmdline + 1 > 64 then crash ''write past the end of szCmdline''
          else
            call (Win (CreateProcess szCmdline)) (\<lambda>bSuccess.
            if rv bSuccess = 0 then say ERROR ''Failed to create subprocess.'' [] (exit 1)
            else
              release ''hProcess'' ''Close piProcInfo.hProcess failed wirh error: %d''
              (release ''hThread'' ''Close piProcInfo.hThread failed wirh error: %d''
              (call (Win UnmapView) (\<lambda>u.
               say_if (rv u = 0) ERROR ''UnmapViewOfFile failed with error: %d'' [AI (errno u)]
               (release ''hMapFile'' ''Close hMapFile failed wirh error: %d''
               (eff (Win (CloseSocket (c_socket c)))
               (eff (Mem (Free ''client_info'')) (ret False)))))))))))"

section \<open>The handler process\<close>

text \<open>Whether the event is handled; a break does not end the process (\<^verbatim>\<open>CTRL_BREAK_EVENT\<close> is 1).\<close>

definition mpConsoleEventHandler :: "int \<Rightarrow> bool" where
  "mpConsoleEventHandler fdwCtrlType = (if fdwCtrlType = 1 then True else False)"

text \<open>\<^verbatim>\<open>strtoll\<close> and \<^verbatim>\<open>strtol\<close> of 64 bits are the same function.\<close>

definition mp_main :: "(int \<Rightarrow> client_args) \<Rightarrow> win_paths \<Rightarrow> string \<Rightarrow> string list \<Rightarrow> unit prog" where
  "mp_main shared P garbage argv =
     (case argv of
        _ # arg # _ \<Rightarrow>
          let hMapFile = strtol arg in
          if hMapFile = 0 then say ERROR ''strtoll of mp.c Failed with error'' [] (exit 1)
          else
            call (Win SetConsoleCtrlHandler) (\<lambda>r.
            if rv r = 0 then say ERROR ''SetConsoleCtrlHandler Failed with error: %lld'' [AI (errno r)] (exit 1)
            else
              call (Win (MapView hMapFile 0 CLIENT_ARGS_SIZE)) (\<lambda>pBuf.
              if rv pBuf = 0 then say ERROR ''MapViewOfFile failed wirh error: %d'' [AI (errno pBuf)] (exit 1)
              else
                let c = shared hMapFile in
                call (Win UnmapView) (\<lambda>u.
                say_if (rv u = 0) ERROR ''UnmapViewOfFile failed with error: %I64d'' [AI (errno u)]
                (release ''hMapFile'' ''Close hMapFile failed wirh error: %d''
                (bind (management_function_win32 P garbage False c) (\<lambda>_. exit 1))))))
      | _ \<Rightarrow> crash ''strtoll of the null pointer'')"

section \<open>The handle on the command line\<close>

lemma isdigit_not_space: "isdigit x \<Longrightarrow> \<not> isspace x"
  by (auto simp: isdigit_def isspace_def)

lemma strtol_digits:
  assumes "\<forall>x \<in> set s. isdigit x" "s \<noteq> []"
  shows "strtol s = min (2 ^ 63 - 1) (int (digits_val s))"
    and "strtol (CHR ''-'' # s) = max (- (2 ^ 63)) (- int (digits_val s))"
proof -
  obtain x xs where s: "s = x # xs" using assms(2) by (cases s) auto
  have x: "isdigit x" "\<not> isspace x" "x \<noteq> CHR ''-''" "x \<noteq> CHR ''+''"
    using assms(1) by (auto simp: s isdigit_def isspace_def)
  have all: "takeWhile isdigit s = s" using assms(1) by (simp add: takeWhile_eq_all_conv)
  have rest: "takeWhile isdigit xs = xs" using assms(1) by (simp add: s takeWhile_eq_all_conv)
  show "strtol s = min (2 ^ 63 - 1) (int (digits_val s))"
    using x by (simp add: strtol_def s Let_def rest)
  have "\<not> isspace (CHR ''-'')" by (simp add: isspace_def)
  then show "strtol (CHR ''-'' # s) = max (- (2 ^ 63)) (- int (digits_val s))"
    by (simp add: strtol_def Let_def all)
qed

text \<open>The child reads the number that the server has printed.\<close>

lemma strtol_show_int:
  assumes "- (2 ^ 63) \<le> n" "n < 2 ^ 63"
  shows "strtol (show_int n) = n"
  using assms strtol_digits [of "show_nat (nat n)"] strtol_digits [of "show_nat (nat (- n))"]
  by (auto simp: show_int_def show_nat_digits)

lemma show_int_no_space: "CHR '' '' \<notin> set (show_int n)"
  by (auto simp: show_int_def dest!: show_nat_digits) (simp_all add: isdigit_def)

abbreviation words_of :: "string \<Rightarrow> string list" where
  "words_of \<equiv> split_on (CHR '' '')"

lemma words_of_mp_command: "words_of (mp_command h) = [''sacagawea-mp.exe'', show_int h]"
  unfolding mp_command_def using split_on_sep [of "CHR '' ''" "''sacagawea-mp.exe''" "show_int h"]
  by (simp add: split_on_whole show_int_no_space)

lemma mp_command_fits:
  assumes "- (2 ^ 63) \<le> h" "h < 2 ^ 63"
  shows "length (mp_command h) < 64"
proof -
  have "length (show_nat (nat n)) \<le> 19" if "n \<le> 2 ^ 63" for n :: int
    using that by (intro show_nat_length) (simp_all add: nat_less_iff)
  from this [of h] this [of "- h"] assms show ?thesis
    by (auto simp: mp_command_def show_int_def)
qed

section \<open>What the two programs do\<close>

text \<open>The processes that were started, and what was put into mappings for them.\<close>

fun started :: "event list \<Rightarrow> string list" where
  "started (Sys (Win (CreateProcess cmd)) r # es) = (if rv r = 0 then [] else [cmd]) @ started es"
| "started (e # es) = started es"
| "started [] = []"

fun shares :: "event list \<Rightarrow> (int \<times> client_args) list" where
  "shares (Eff (Win (ShareArgs h c)) # es) = (h, c) # shares es"
| "shares (e # es) = shares es"
| "shares [] = []"

lemma started_append [simp]: "started (es @ es') = started es @ started es'"
  by (induction es rule: started.induct) auto

lemma shares_append [simp]: "shares (es @ es') = shares es @ shares es'"
  by (induction es rule: shares.induct) auto

text \<open>The handles of the server that were closed, in order.\<close>

fun released :: "event list \<Rightarrow> string list" where
  "released (Sys (Win (CloseHandle s)) r # es) = s # released es"
| "released (e # es) = released es"
| "released [] = []"

fun sockets_closed :: "event list \<Rightarrow> int list" where
  "sockets_closed (Eff (Win (CloseSocket s)) # es) = s # sockets_closed es"
| "sockets_closed (e # es) = sockets_closed es"
| "sockets_closed [] = []"

text \<open>
  Starting a process: on success one process was started for these arguments, the four handles were closed and the
  socket of the client too; every failure ends the server.
\<close>

definition process_started :: "client_args \<Rightarrow> bool outcome \<Rightarrow> event list \<Rightarrow> bool" where
  "process_started c out es \<longleftrightarrow>
     (\<exists>h. - (2 ^ 63) \<le> h \<and> h < 2 ^ 63 \<and> h \<noteq> 0 \<and>
        ((started es = [] \<and> set (shares es) \<subseteq> {(h, c)}) \<or> (shares es = [(h, c)] \<and> started es = [mp_command h]))) \<and>
     (case out of
        Ret b \<Rightarrow> \<not> b \<and> started es \<noteq> [] \<and> released es = [''hProcess'', ''hThread'', ''hMapFile''] \<and> sockets_closed es = [c_socket c]
      | Exit n \<Rightarrow> n = 1 \<and> started es = []
      | Blocked \<Rightarrow> True
      | _ \<Rightarrow> False)"

lemma runs_process_management_win32: "runs posix_os (process_management_win32 c) (process_started c)"
proof -
  have early: "process_started c out es" if "started es = []" "shares es = []" "out = Blocked \<or> out = Exit 1" for out es
    using that unfolding process_started_def by (intro conjI exI [of _ 1]) auto
  have late: "process_started c out es" if "shares es = [(h, c)]" "- (2 ^ 63) \<le> h" "h < 2 ^ 63" "h \<noteq> 0"
      "(started es = [] \<and> (out = Blocked \<or> out = Exit 1)) \<or> (started es = [mp_command h] \<and>
        (out = Blocked \<or> (out = Ret False \<and> released es = [''hProcess'', ''hThread'', ''hMapFile''] \<and> sockets_closed es = [c_socket c])))"
    for out es h
    using that unfolding process_started_def by (intro conjI exI [of _ h]) auto
  show ?thesis
    unfolding process_management_win32_def release_def Let_def
  proof (intro runs_call runs_if runs_say runs_exit, goal_cases)
    case (5 hMapFile pBuf)
    then have h: "- (2 ^ 63) \<le> rv hMapFile" "rv hMapFile < 2 ^ 63" "rv hMapFile \<noteq> 0" by simp_all
    note fits = mp_command_fits [OF h(1,2)]
    show ?case
      by (intro runs_eff runs_if runs_call runs_say runs_say_if runs_exit runs_crash runs_ret; (rule late [OF _ h])?)
         (use fits in simp_all)
  qed (auto intro: early)
qed

text \<open>
  The handler process sets itself up, with the one view of the mapping \<open>h\<close>; then it is one handler that must
  not free its arguments. It ends without a handler only when one of the two calls before has failed.
\<close>

fun mp_event :: "int \<Rightarrow> event \<Rightarrow> bool" where
  "mp_event h (Sys (Win SetConsoleCtrlHandler) r) = True"
| "mp_event h (Sys (Win (MapView k n m)) r) = (k = h \<and> n = 0 \<and> m = CLIENT_ARGS_SIZE)"
| "mp_event h (Sys (Win UnmapView) r) = True"
| "mp_event h (Sys (Win (CloseHandle s)) r) = (s = ''hMapFile'')"
| "mp_event h (Sys c r) = False"
| "mp_event h (Eff c) = False"
| "mp_event h (Log l s a) = True"

definition mp_served :: "int \<Rightarrow> client_args \<Rightarrow> unit outcome \<Rightarrow> event list \<Rightarrow> bool" where
  "mp_served h c out es \<longleftrightarrow>
     (\<exists>es1 es2. es = es1 @ es2 \<and> list_all (mp_event h) es1 \<and>
        ((es2 = [] \<and> out = Blocked) \<or> (win_handler_end False c out es2 \<and> win_request_events c es2)))"

definition mp_view_failed :: "int \<Rightarrow> event list \<Rightarrow> bool" where
  "mp_view_failed h es \<longleftrightarrow> (\<exists>r. rv r = 0 \<and>
     (Sys (Win SetConsoleCtrlHandler) r \<in> set es \<or> Sys (Win (MapView h 0 CLIENT_ARGS_SIZE)) r \<in> set es))"

definition mp_serves :: "int \<Rightarrow> client_args \<Rightarrow> unit outcome \<Rightarrow> event list \<Rightarrow> bool" where
  "mp_serves h c out es \<longleftrightarrow>
     (list_all (mp_event h) es \<and> (out = Blocked \<or> out = Exit 1 \<and> mp_view_failed h es)) \<or>
     (\<exists>r es1 es2. rv r \<noteq> 0 \<and> es = es1 @ Sys (Win (MapView h 0 CLIENT_ARGS_SIZE)) r # es2 \<and>
        list_all (mp_event h) es1 \<and> mp_served h c out es2)"

lemma mp_served_now: "mp_served h c Blocked []"
  by (simp add: mp_served_def)

lemma mp_served_more: "mp_served h c out es \<Longrightarrow> mp_event h e \<Longrightarrow> mp_served h c out (e # es)"
  unfolding mp_served_def by (elim exE conjE) (rule exI [of _ "e # es1" for es1], auto)

lemma mp_intros:
  "runs C p (mp_served h c) \<Longrightarrow> runs C (say_if b l s a p) (mp_served h c)"
  "(\<And>r. mp_event h (Sys x r)) \<Longrightarrow> (\<And>r. runs C (k r) (mp_served h c)) \<Longrightarrow> runs C (call x k) (mp_served h c)"
proof -
  have "runs C (say l s a p) (mp_served h c)" if "runs C p (mp_served h c)"
    by (rule runs_say) (rule runs_weaken [OF that], rule mp_served_more, simp_all)
  then show "runs C (say_if b l s a p) (mp_served h c)" if "runs C p (mp_served h c)"
    using that by (simp add: say_if_def)
  show "runs C (call x k) (mp_served h c)" if "\<And>r. mp_event h (Sys x r)" "\<And>r. runs C (k r) (mp_served h c)"
    by (rule runs_call, rule mp_served_now)
       (rule runs_weaken [OF that(2)], rule mp_served_more [OF _ that(1)])
qed

lemma runs_mp_handler:
  assumes "win_settings_inv (c_settings c)"
  shows "runs posix_os (bind (management_function_win32 P garbage False c) (\<lambda>_. exit 1)) (mp_served h c)"
proof (rule runs_bind_weaken [OF runs_conj [OF runs_management_win32 [OF win_home_bounds [OF assms]] runs_management_events]])
  fix out es
  assume handler: "win_handler_end False c out es \<and> win_request_events c es"
  then have "mp_served h c out ([] @ es)"
    unfolding mp_served_def by (intro exI [of _ "[]"] exI [of _ es]) simp
  with handler show "after posix_os (\<lambda>_. exit 1) (mp_served h c) out es"
    by (cases out) (simp_all add: win_handler_end_def)
qed

text \<open>Behind the view: the process lets go of the mapping and is the handler.\<close>

definition mp_handler :: "win_paths \<Rightarrow> string \<Rightarrow> client_args \<Rightarrow> unit prog" where
  "mp_handler P garbage c =
     call (Win UnmapView) (\<lambda>u.
     say_if (rv u = 0) ERROR ''UnmapViewOfFile failed with error: %I64d'' [AI (errno u)]
     (release ''hMapFile'' ''Close hMapFile failed wirh error: %d''
     (bind (management_function_win32 P garbage False c) (\<lambda>_. exit 1))))"

lemma runs_mp_handler_view:
  assumes "win_settings_inv (c_settings c)" "list_all (mp_event h) es1" "rv v \<noteq> 0"
  shows "runs posix_os (mp_handler P garbage c) (\<lambda>out es. mp_serves h c out
    (es1 @ Sys (Win (MapView h 0 CLIENT_ARGS_SIZE)) v # es))"
proof (rule runs_weaken)
  show "runs posix_os (mp_handler P garbage c) (mp_served h c)"
    unfolding mp_handler_def release_def by (intro mp_intros runs_mp_handler assms(1)) simp_all
qed (use assms(2,3) in \<open>auto simp: mp_serves_def\<close>)

lemma runs_mp_main:
  assumes "win_settings_inv (c_settings c)" "strtol arg = h" "h \<noteq> 0" "shared h = c"
  shows "runs posix_os (mp_main shared P garbage [name, arg]) (mp_serves h c)"
  unfolding mp_main_def list.case Let_def assms(2,4) if_not_P [OF assms(3)] mp_handler_def [symmetric]
  by (intro runs_call runs_if runs_say runs_exit
      runs_mp_handler_view [where ?es1.0 = "[e]" for e, simplified append.simps] assms(1))
     (auto simp: mp_serves_def mp_view_failed_def)

section \<open>Properties\<close>



end
