(* ===== verification/Win_Listener.thy ===== *)
theory Win_Listener
  imports Win_Children
begin

text \<open>
  The listening socket of the Win32 build (socket.c): the Win32 branches of \<^verbatim>\<open>open_socket\<close>,
  \<^verbatim>\<open>accept_wrapper\<close> and \<^verbatim>\<open>listen_descriptor\<close>. The lemmas show in which order the socket is
  prepared and what is released on each failure, and that every connection gets one handler
  with its own arguments.
\<close>

section \<open>Opening the socket\<close>

definition SOMAXCONN :: int where "SOMAXCONN = 2147483647"

text \<open>Two calls whose failure is only logged.\<close>

definition wsa_cleanup :: "'a prog \<Rightarrow> 'a prog" where
  "wsa_cleanup p =
     call (Win WSACleanup) (\<lambda>r.
     say_if (rv r = SOCKET_ERROR) ERROR ''WSACleanup failed with error: %d'' [AI (errno r)] p)"

definition closesocket :: "int \<Rightarrow> 'a prog \<Rightarrow> 'a prog" where
  "closesocket s p =
     call (Win (CloseSocket s)) (\<lambda>r.
     say_if (rv r = SOCKET_ERROR) ERROR ''closesocket failed with error: %d'' [AI (errno r)] p)"

text \<open>\<^verbatim>\<open>malloc\<close> of the text of the port is not checked; \<^verbatim>\<open>INVALID_SOCKET\<close> is -1.\<close>

definition open_socket_win32 :: "settings_t \<Rightarrow> int prog" where
  "open_socket_win32 st =
     call (Win WSAStartup) (\<lambda>r.
     if rv r = SOCKET_ERROR then say ERROR ''WSAStartup failed with error: %d'' [AI (errno r)] (exit 1)
     else
       call (Mem (Malloc ''port_to_string'' 16)) (\<lambda>m.
       if rv m = 0 then crash ''snprintf to the null pointer''
       else
         let port_to_string = snprintf 15 (show_int (port st)) in
         call (Win (GetAddrInfo port_to_string)) (\<lambda>err.
         if rv err \<noteq> 0 then say ERROR ''getaddrinfo failed: %d'' [AI (rv err)] (wsa_cleanup (exit 1))
         else
           eff (Mem (Free ''port_to_string''))
           (call (Net Socket) (\<lambda>s.
            if rv s = - 1 then
              say ERROR ''socket failed with error: %d'' [AI (errno s)]
              (eff (Win FreeAddrInfo) (wsa_cleanup (exit 1)))
            else
              let ListenSocket = rv s in
              call (Net (SetNonBlocking ListenSocket)) (\<lambda>r.
              if rv r = SOCKET_ERROR then say ERROR ''ioctlsocket failed with error %d'' [AI (errno r)] (exit 1)
              else
                call (Net (SetReuseAddr ListenSocket)) (\<lambda>r.
                if rv r \<noteq> 0 then
                  say ERROR ''setsockopt(SO_REUSEADDR) failed with error: %d'' [AI (errno r)]
                  (closesocket ListenSocket (wsa_cleanup (exit 1)))
                else
                  call (Win (BindResolved ListenSocket)) (\<lambda>r.
                  if rv r = SOCKET_ERROR then
                    say ERROR ''bind failed with error: %d'' [AI (errno r)]
                    (eff (Win FreeAddrInfo) (closesocket ListenSocket (wsa_cleanup (exit 1))))
                  else
                    eff (Win FreeAddrInfo)
                    (call (Net (Listen ListenSocket SOMAXCONN)) (\<lambda>r.
                     if rv r = SOCKET_ERROR then
                       say ERROR (''listen failed with error: %d'' @ [LF]) [AI (errno r)]
                       (closesocket ListenSocket (wsa_cleanup (exit 1)))
                     else ret ListenSocket))))))))))"

section \<open>Accepting\<close>

definition accept_round_win32 :: "settings_t \<Rightarrow> unit \<Rightarrow> (unit + bool) prog" where
  "accept_round_win32 st u =
     call (Mem (Malloc ''client_info'' 1)) (\<lambda>m.
     if rv m = 0 then say ERROR ''calloc for client_info failed'' [] (exit 5)
     else
       let client_info = new_client st in
       call (Net (Accept (socket st))) (\<lambda>new_s.
       if rv new_s = - 1 then free_client_args (ret (Inr True))
       else
         call (Win (SetBlocking (rv new_s))) (\<lambda>b.
         if rv b = SOCKET_ERROR then
           say ERROR ''ioctlsocket failed with error %d'' [AI (errno b)]
           (closesocket (rv new_s) (say INFO ''Closed socket %lld'' [AI (rv new_s)] (exit 1)))
         else if rv new_s < 0 \<and> errno new_s \<noteq> WSAEWOULDBLOCK then
           say ERROR ''socket accept() failed with error: %d'' [AI (errno new_s)] (free_client_args (exit 5))
         else
           let client_info = client_info\<lparr>c_addr := addr_text new_s\<rparr> in
           say INFO ''New connection at sock_t %d from %s'' [AI (rv new_s), AS (c_addr client_info)]
           (let client_info = client_info\<lparr>c_socket := rv new_s\<rparr> in
            if mode st = CHR ''t'' then bind (thread_management_win32 client_info) (\<lambda>_. ret (Inl ()))
            else if mode st = CHR ''p'' then bind (process_management_win32 client_info) (\<lambda>_. ret (Inl ()))
            else
              say ERROR ''Multithread/multiprocess mode not set correctly'' []
              (free_client_args (exit 5))))))"

definition accept_wrapper_win32 :: "settings_t \<Rightarrow> bool prog" where
  "accept_wrapper_win32 st = loop (accept_round_win32 st) ()"

definition WSAENOTSOCK :: int where "WSAENOTSOCK = 10038"

definition listen_descriptor_win32 :: "settings_t \<Rightarrow> bool prog" where
  "listen_descriptor_win32 st =
     say DEBUG ''Waiting on select()...'' []
     (call (Net (Select (socket st))) (\<lambda>num_fd_ready.
      if rv num_fd_ready = SOCKET_ERROR then
        say ERROR ''select failed with error: %d'' [AI (errno num_fd_ready)]
        (if errno num_fd_ready = WSAENOTSOCK then ret True else exit 5)
      else if rv num_fd_ready = 0 then ret True
      else if num num_fd_ready \<noteq> 0 then bind (accept_wrapper_win32 st) (\<lambda>_. ret True)
      else ret True))"

section \<open>How the socket is prepared\<close>

text \<open>The calls that matter for the socket, in order, with what they returned.\<close>

fun socket_calls :: "event list \<Rightarrow> (call \<times> int) list" where
  "socket_calls (Sys (Net n) r # es) = (Net n, rv r) # socket_calls es"
| "socket_calls (Sys (Win w) r # es) = (Win w, rv r) # socket_calls es"
| "socket_calls (e # es) = socket_calls es"
| "socket_calls [] = []"

definition prepared :: "settings_t \<Rightarrow> int \<Rightarrow> call list" where
  "prepared st s = [Win WSAStartup, Win (GetAddrInfo (show_int (port st))), Net Socket, Net (SetNonBlocking s),
     Net (SetReuseAddr s), Win (BindResolved s), Net (Listen s SOMAXCONN)]"

lemma port_text_fits: "0 \<le> p \<Longrightarrow> p < 2 ^ 31 \<Longrightarrow> snprintf 15 (show_int p) = show_int p"
proof -
  assume "0 \<le> p" "p < 2 ^ 31"
  then have "length (show_nat (nat p)) \<le> 10" by (intro show_nat_length) (simp_all add: nat_less_iff)
  with \<open>0 \<le> p\<close> show ?thesis by (intro snprintf_fits) (simp add: show_int_def)
qed

text \<open>What is left behind when the socket cannot be opened.\<close>

definition left_open :: "event list \<Rightarrow> bool" where
  "left_open es \<longleftrightarrow> (\<exists>s. s \<noteq> - 1 \<and> (Net Socket, s) \<in> set (socket_calls es) \<and>
     Win (CloseSocket s) \<notin> fst ` set (socket_calls es))"

lemma runs_open_socket_win32:
  assumes "0 \<le> port st" "port st < 2 ^ 31"
  shows "runs any_os (open_socket_win32 st) (\<lambda>out es.
     case out of
       Ret s \<Rightarrow> s \<noteq> - 1 \<and> map fst (socket_calls es) = prepared st s
     | Exit n \<Rightarrow> n = 1 \<and> (left_open es \<longleftrightarrow> (\<exists>s. fst (last (socket_calls es)) = Net (SetNonBlocking s)))
     | Crash m \<Rightarrow> m = ''snprintf to the null pointer''
     | Blocked \<Rightarrow> True
     | _ \<Rightarrow> False)"
  unfolding open_socket_win32_def wsa_cleanup_def closesocket_def Let_def port_text_fits [OF assms]
  by (intro runs_intros) (simp_all add: prepared_def left_open_def SOCKET_ERROR_def)

section \<open>Connections and handlers\<close>

text \<open>
  The arguments that were given to a call that starts a thread, or copied for a process, in order; and the calls that
  start a thread, with what they returned. A thread runs only when its \<^verbatim>\<open>CreateThread\<close> did not return 0.
\<close>

fun handler_args :: "event list \<Rightarrow> client_args list" where
  "handler_args (Sys (Win (StartThread n c)) r # es) = c # handler_args es"
| "handler_args (Eff (Win (ShareArgs h c)) # es) = c # handler_args es"
| "handler_args (e # es) = handler_args es"
| "handler_args [] = []"

fun start_calls :: "event list \<Rightarrow> (client_args \<times> int) list" where
  "start_calls (Sys (Win (StartThread n c)) r # es) = (c, rv r) # start_calls es"
| "start_calls (e # es) = start_calls es"
| "start_calls [] = []"

definition win_threads :: "event list \<Rightarrow> client_args list" where
  "win_threads es = map fst (filter (\<lambda>(c, k). k \<noteq> 0) (start_calls es))"

lemma handler_args_append [simp]: "handler_args (es @ es') = handler_args es @ handler_args es'"
  by (induction es rule: handler_args.induct) auto

lemma start_calls_append [simp]: "start_calls (es @ es') = start_calls es @ start_calls es'"
  by (induction es rule: start_calls.induct) auto

lemma sockets_closed_append [simp]: "sockets_closed (es @ es') = sockets_closed es @ sockets_closed es'"
  by (induction es rule: sockets_closed.induct) auto

text \<open>What the server does while it accepts.\<close>

definition win_accept_event :: "settings_t \<Rightarrow> event \<Rightarrow> bool" where
  "win_accept_event st e =
     (case e of
        Sys c r \<Rightarrow>
          (case c of
             Net (Accept fd) \<Rightarrow> fd = socket st
           | Mem m \<Rightarrow> True
           | Win (StartThread n a) \<Rightarrow> n = ''management_function'' \<and> c_settings a = st
           | Win (OpenForRead p) \<Rightarrow> False
           | Win w \<Rightarrow> True
           | _ \<Rightarrow> False)
      | Eff (Win (ShareArgs h a)) \<Rightarrow> c_settings a = st
      | _ \<Rightarrow> True)"

lemmas win_accept_event_simps [simp] =
  win_accept_event_def [of _ "Sys c r" for c r] win_accept_event_def [of _ "Eff c" for c]
  win_accept_event_def [of _ "Log l s x" for l s x]

text \<open>
  The account when all is done: in thread mode one \<^verbatim>\<open>CreateThread\<close> for each connection; in process mode one mapping
  with its arguments and one process that runs on that mapping, and the server's copy of the socket is closed.
\<close>

definition win_served :: "settings_t \<Rightarrow> event list \<Rightarrow> bool" where
  "win_served st es \<longleftrightarrow> (\<forall>e \<in> set es. win_accept_event st e) \<and>
     (if mode st = CHR ''t'' then
        map fst (start_calls es) = map (client_of st) (connections es) \<and> shares es = [] \<and> started es = [] \<and> sockets_closed es = []
      else
        start_calls es = [] \<and> map snd (shares es) = map (client_of st) (connections es) \<and>
        started es = map (mp_command \<circ> fst) (shares es) \<and> sockets_closed es = map rv (connections es))"

text \<open>At every moment at most the last connection has no call, no mapping or no process yet.\<close>

definition win_in_order :: "settings_t \<Rightarrow> event list \<Rightarrow> bool" where
  "win_in_order st es \<longleftrightarrow> (\<forall>e \<in> set es. win_accept_event st e) \<and>
     (if mode st = CHR ''t'' then
        prefix (map fst (start_calls es)) (map (client_of st) (connections es)) \<and>
        length (connections es) \<le> length (start_calls es) + 1 \<and> shares es = [] \<and> started es = []
      else
        start_calls es = [] \<and> prefix (map snd (shares es)) (map (client_of st) (connections es)) \<and>
        prefix (started es) (map (mp_command \<circ> fst) (shares es)) \<and> length (connections es) \<le> length (started es) + 1)"

definition win_accept_result :: "settings_t \<Rightarrow> bool outcome \<Rightarrow> event list \<Rightarrow> bool" where
  "win_accept_result st out es \<longleftrightarrow>
     (out = Ret True \<and> win_served st es) \<or>
     ((out = Exit 1 \<or> out = Exit 5 \<or> out = Blocked) \<and> win_in_order st es)"

lemma win_served_thread:
  assumes "win_served st es" "\<forall>e \<in> set es'. win_accept_event st e" "connections es' = [a]" "mode st = CHR ''t''"
    and "map fst (start_calls es') = [client_of st a]" "shares es' = []" "started es' = []" "sockets_closed es' = []"
  shows "win_served st (es @ es')"
  using assms by (auto simp: win_served_def ball_Un)

lemma win_served_process:
  assumes "win_served st es" "\<forall>e \<in> set es'. win_accept_event st e" "connections es' = [a]" "mode st \<noteq> CHR ''t''"
    and "start_calls es' = []" "shares es' = [(h, client_of st a)]" "started es' = [mp_command h]" "sockets_closed es' = [rv a]"
  shows "win_served st (es @ es')"
  using assms by (auto simp: win_served_def ball_Un)

text \<open>The calls for the last connection may be missing when the run ends.\<close>

definition stops :: "settings_t \<Rightarrow> event list \<Rightarrow> bool" where
  "stops st es \<longleftrightarrow> start_calls es = [] \<and> shares es = [] \<and> started es = [] \<or>
     (\<exists>a. connections es = [a] \<and>
       (mode st = CHR ''t'' \<and> map fst (start_calls es) = [client_of st a] \<and> shares es = [] \<and> started es = [] \<or>
        mode st \<noteq> CHR ''t'' \<and> start_calls es = [] \<and>
          (\<exists>h. shares es = [(h, client_of st a)] \<and> prefix (started es) [mp_command h])))"

lemma win_served_stop:
  assumes "win_served st es" "\<forall>e \<in> set es'. win_accept_event st e" "out = Exit 1 \<or> out = Exit 5 \<or> out = Blocked"
    and "length (connections es') \<le> 1" "stops st es'"
  shows "win_accept_result st out (es @ es')"
  using assms
  by (cases "mode st = CHR ''t''")
     (auto simp: win_accept_result_def win_in_order_def win_served_def stops_def ball_Un prefix_Cons dest: arg_cong [where f = length])

lemma win_served_end:
  "win_served st es \<Longrightarrow> \<forall>e \<in> set es'. win_accept_event st e \<Longrightarrow> connections es' = [] \<Longrightarrow> start_calls es' = [] \<Longrightarrow>
   shares es' = [] \<Longrightarrow> started es' = [] \<Longrightarrow> sockets_closed es' = [] \<Longrightarrow> win_accept_result st (Ret True) (es @ es')"
  by (auto simp: win_accept_result_def win_served_def)

lemma runs_thread_management_win32:
  "runs C (thread_management_win32 c) (\<lambda>out es. (\<forall>e \<in> set es. win_accept_event (c_settings c) e) \<and> connections es = [] \<and>
     started es = [] \<and> shares es = [] \<and> sockets_closed es = [] \<and>
     (out = Ret () \<and> map fst (start_calls es) = [c] \<or> out = Blocked \<and> prefix (map fst (start_calls es)) [c]))"
  unfolding thread_management_win32_def print_client_args_def by (intro runs_intros) simp_all

lemma runs_process_management_account:
  "runs posix_os (process_management_win32 c) (\<lambda>out es. (\<forall>e \<in> set es. win_accept_event (c_settings c) e) \<and> connections es = [] \<and>
     start_calls es = [] \<and>
     (out = Ret False \<and> (\<exists>h. shares es = [(h, c)] \<and> started es = [mp_command h]) \<and> sockets_closed es = [c_socket c] \<or>
      (out = Blocked \<or> out = Exit 1) \<and>
        (shares es = [] \<and> started es = [] \<or> (\<exists>h. shares es = [(h, c)] \<and> prefix (started es) [mp_command h]))))"
proof -
  have fits: False if "63 < length (mp_command h)" "- (2 ^ 63) \<le> h" "h < 2 ^ 63" for h
    using mp_command_fits [OF that(2,3)] that(1) by simp
  show ?thesis
    unfolding process_management_win32_def release_def Let_def
    by (intro runs_call runs_if runs_say runs_say_if runs_exit runs_eff runs_crash runs_ret) (auto dest: fits)
qed

text \<open>One round keeps the account.\<close>

lemma accept_round_win32_served:
  assumes "win_settings_inv st" "win_served st es0"
  shows "runs posix_os (accept_round_win32 st u) (round (\<lambda>_. win_served st) (win_accept_result st) es0)"
proof -
  note stop = win_served_stop [OF assms(2)]
  have wait: "win_accept_result st Blocked es0" using stop [of "[]" Blocked] by (simp add: stops_def)
  show ?thesis
    unfolding accept_round_win32_def closesocket_def free_client_args_def Let_def
  proof (intro runs_call runs_if runs_say runs_say_if runs_eff runs_ret runs_exit, goal_cases)
    case (10 m a b)
    let ?c = "(new_client st)\<lparr>c_addr := addr_text a, c_socket := rv a\<rparr>"
    let ?pre = "[Sys (Mem (Malloc ''client_info'' 1)) m, Sys (Net (Accept (socket st))) a, Sys (Win (SetBlocking (rv a))) b,
      Log INFO ''New connection at sock_t %d from %s''
        [AI (rv a), AS (c_addr (new_client st\<lparr>c_addr := addr_text a\<rparr>))]]"
    have c: "?c = client_of st a" by (simp add: client_of_def)
    show ?case
    proof (rule runs_bind_weaken [OF runs_thread_management_win32], unfold c, goal_cases)
      case (1 out es)
      then have es: "\<forall>e \<in> set (?pre @ es). win_accept_event st e" "connections (?pre @ es) = [a]"
        "start_calls (?pre @ es) = start_calls es" "shares (?pre @ es) = []" "started (?pre @ es) = []"
        "sockets_closed (?pre @ es) = []"
        using 10 by (auto simp: client_of_def)
      from 1 consider "out = Ret ()" "map fst (start_calls es) = [client_of st a]"
        | "out = Blocked" "start_calls es = [] \<or> map fst (start_calls es) = [client_of st a]"
        by (auto simp: prefix_Cons)
      then show ?case
      proof cases
        case 1
        with win_served_thread [OF assms(2) es(1,2)] es(3-6) 10 show ?thesis by (auto intro!: runs_ret)
      next
        case 2
        then have "stops st (?pre @ es)" using es(2-5) 10 unfolding stops_def by auto
        moreover have "length (connections (?pre @ es)) \<le> 1" unfolding es(2) by simp
        ultimately show ?thesis using 2(1) stop [OF es(1), of Blocked] by simp
      qed
    qed
  next
    case (11 m a b)
    let ?c = "(new_client st)\<lparr>c_addr := addr_text a, c_socket := rv a\<rparr>"
    let ?pre = "[Sys (Mem (Malloc ''client_info'' 1)) m, Sys (Net (Accept (socket st))) a, Sys (Win (SetBlocking (rv a))) b,
      Log INFO ''New connection at sock_t %d from %s''
        [AI (rv a), AS (c_addr (new_client st\<lparr>c_addr := addr_text a\<rparr>))]]"
    have c: "?c = client_of st a" by (simp add: client_of_def)
    show ?case
    proof (rule runs_bind_weaken [OF runs_process_management_account], unfold c, goal_cases)
      case (1 out es)
      then have es: "\<forall>e \<in> set (?pre @ es). win_accept_event st e" "connections (?pre @ es) = [a]"
        "start_calls (?pre @ es) = []" "shares (?pre @ es) = shares es" "started (?pre @ es) = started es"
        "sockets_closed (?pre @ es) = sockets_closed es"
        using 11 by (auto simp: client_of_def)
      from 1 consider h where "out = Ret False" "shares es = [(h, client_of st a)]" "started es = [mp_command h]"
          "sockets_closed es = [rv a]"
        | "out = Exit 1 \<or> out = Blocked"
          "shares es = [] \<and> started es = [] \<or> (\<exists>h. shares es = [(h, client_of st a)] \<and> prefix (started es) [mp_command h])"
        by (auto simp: client_of_def)
      then show ?case
      proof cases
        case 1
        with win_served_process [OF assms(2) es(1,2)] es(3-6) 11 show ?thesis by (auto intro!: runs_ret)
      next
        case 2
        then have "stops st (?pre @ es)" using es(2-5) 11 unfolding stops_def by auto
        moreover have "length (connections (?pre @ es)) \<le> 1" unfolding es(2) by simp
        ultimately show ?thesis using 2(1) stop [OF es(1), of out] by auto
      qed
    qed
  next
    case 12
    then show ?case using assms(1) by (simp add: win_settings_inv_def mode_ok_def)
  next
    case 4
    then show ?case by (auto intro!: win_served_end [OF assms(2)])
  qed (auto simp: stops_def intro!: wait stop)
qed

lemma accept_round_win32_consumes:
  "runs any_os (accept_round_win32 st u) (\<lambda>out es. goes_round out \<longrightarrow> 0 < calls es)"
proof -
  have thread: "runs any_os (thread_management_win32 c) (\<lambda>_ _. True)" for c
    unfolding thread_management_win32_def print_client_args_def by (intro runs_intros) simp_all
  have process: "runs any_os (process_management_win32 c) (\<lambda>_ _. True)" for c
    unfolding process_management_win32_def release_def Let_def
    by (intro runs_call runs_if runs_say runs_say_if runs_eff runs_exit runs_crash runs_ret) simp_all
  show ?thesis
    unfolding accept_round_win32_def closesocket_def free_client_args_def Let_def
    by (intro consumes_call runs_call runs_if runs_say runs_say_if runs_eff runs_exit runs_ret
        runs_trivial_bind [OF thread] runs_trivial_bind [OF process]) simp_all
qed

interpretation accept_win32_loop: loop_body "accept_round_win32 st" for st
  by unfold_locales (rule accept_round_win32_consumes)

lemma runs_accept_wrapper_win32:
  assumes "win_settings_inv st"
  shows "runs posix_os (accept_wrapper_win32 st) (win_accept_result st)"
  unfolding accept_wrapper_win32_def
  by (rule accept_win32_loop.invariant [where I = "\<lambda>_. win_served st", OF _ accept_round_win32_served [OF assms]])
     (simp add: win_served_def)

section \<open>Properties\<close>

text \<open>
  C24: the Win32 build, too, asks for exactly one handler for every connection, in the order of the connections and
  with its own arguments. In thread mode that is one \<^verbatim>\<open>CreateThread\<close>; its result is not tested, and the threads that run
  are those of the connections whose call succeeded: the others are left alone, and the server closes none of the
  sockets. In process mode it is one process, started on the mapping into which the arguments of its connection were copied,
  and the copy of the socket that the server holds is closed: when the function returns every connection has its process. A
  failed call (there are many that end the whole server) leaves at most the last connection without one.
\<close>

theorem win_every_connection_gets_one_handler:
  assumes "win_settings_inv st"
  shows "runs posix_os (accept_wrapper_win32 st) (\<lambda>out es.
     (case out of
        Ret b \<Rightarrow> b \<and>
          (if mode st = CHR ''t'' then
             map fst (start_calls es) = map (client_of st) (connections es) \<and> sockets_closed es = []
           else
             map snd (shares es) = map (client_of st) (connections es) \<and>
             started es = map (mp_command \<circ> fst) (shares es) \<and> sockets_closed es = map rv (connections es))
      | Crash m \<Rightarrow> False
      | ThreadExit \<Rightarrow> False
      | Exit n \<Rightarrow> n = 1 \<or> n = 5
      | Blocked \<Rightarrow> True) \<and>
     (if mode st = CHR ''t'' then
        prefix (map fst (start_calls es)) (map (client_of st) (connections es)) \<and>
        length (connections es) \<le> length (start_calls es) + 1 \<and> shares es = [] \<and> started es = [] \<and>
        win_threads es = map (client_of st \<circ> fst)
          (filter (\<lambda>(a, k). k \<noteq> 0) (zip (connections es) (map snd (start_calls es))))
      else
        start_calls es = [] \<and> prefix (map snd (shares es)) (map (client_of st) (connections es)) \<and>
        prefix (started es) (map (mp_command \<circ> fst) (shares es)) \<and> length (connections es) \<le> length (started es) + 1))"
proof (rule runs_weaken [OF runs_accept_wrapper_win32 [OF assms]], goal_cases)
  case (1 out es)
  then have "win_in_order st es"
    by (auto simp: win_accept_result_def win_served_def win_in_order_def dest!: map_eq_imp_length_eq)
  with 1 calls_of_connections [of "start_calls es" "client_of st" "connections es" "\<lambda>k. k \<noteq> 0"] show ?case
    by (auto simp: win_accept_result_def win_served_def win_in_order_def win_threads_def)
qed

theorem win_every_connection_gets_one_handler_witness:
  "win_settings_inv win_example_settings \<and> runs posix_os (accept_wrapper_win32 win_example_settings)
     (\<lambda>out es. prefix (map fst (start_calls es)) (map (client_of win_example_settings) (connections es)) \<and> started es = [])"
proof -
  have t: "mode win_example_settings = CHR ''t''" by (simp add: win_example_settings_def)
  have "runs posix_os (accept_wrapper_win32 win_example_settings)
     (\<lambda>out es. prefix (map fst (start_calls es)) (map (client_of win_example_settings) (connections es)) \<and> started es = [])"
    by (rule runs_weaken [OF win_every_connection_gets_one_handler [OF win_example_settings_inv]]) (simp add: t)
  then show ?thesis using win_example_settings_inv by simp
qed

text \<open>
  The listening socket of the Win32 build is prepared by seven calls in this order, for a port that is
  any \<^verbatim>\<open>int\<close> that is not negative. Every failure ends the process with code 1, and the socket is closed
  before, but not when \<^verbatim>\<open>ioctlsocket\<close> fails.
\<close>

theorem win_socket_is_prepared_in_order:
  assumes "0 \<le> port st" "port st < 2 ^ 31"
  shows "runs any_os (open_socket_win32 st) (\<lambda>out es.
     case out of
       Ret s \<Rightarrow> s \<noteq> - 1 \<and> map fst (socket_calls es) =
         [Win WSAStartup, Win (GetAddrInfo (show_int (port st))), Net Socket, Net (SetNonBlocking s),
          Net (SetReuseAddr s), Win (BindResolved s), Net (Listen s 2147483647)]
     | Exit n \<Rightarrow> n = 1 \<and> (left_open es \<longleftrightarrow> (\<exists>s. fst (last (socket_calls es)) = Net (SetNonBlocking s)))
     | Crash m \<Rightarrow> m = ''snprintf to the null pointer''
     | Blocked \<Rightarrow> True
     | ThreadExit \<Rightarrow> False)"
  by (rule runs_weaken [OF runs_open_socket_win32 [OF assms]])
     (auto simp: prepared_def SOMAXCONN_def split: outcome.splits)

theorem win_socket_is_prepared_in_order_witness:
  "port win_example_settings = 7070 \<and> runs any_os (open_socket_win32 win_example_settings)
     (\<lambda>out es. out \<notin> {ThreadExit, Exit 5, Ret (- 1)})"
proof -
  have p: "0 \<le> port win_example_settings" "port win_example_settings < 2 ^ 31"
    by (simp_all add: win_example_settings_def)
  have "runs any_os (open_socket_win32 win_example_settings) (\<lambda>out es. out \<notin> {ThreadExit, Exit 5, Ret (- 1)})"
    by (rule runs_weaken [OF win_socket_is_prepared_in_order [OF p]]) (auto split: outcome.splits)
  then show ?thesis by (simp add: win_example_settings_def)
qed

end
