(* ===== verification/Win_Server.thy ===== *)
theory Win_Server
  imports Win_Listener Server
begin

text \<open>
  The server of the Win32 build (server/sacagawea.c): the Win32 branches of \<^verbatim>\<open>close_all\<close>,
  \<^verbatim>\<open>universal_handler\<close> and \<^verbatim>\<open>main\<close>, and \<^verbatim>\<open>consoleEventHandler\<close>. A console event arrives as the reply to
  the pseudo call \<open>Signals\<close> at the head of a round of the server loop: 0 none, otherwise one more than the
  number of the event. The lemmas follow the settings from \<^verbatim>\<open>main\<close> to every handler that
  it starts, in a thread or through the mapping of a process.
\<close>

section \<open>The code\<close>

definition close_all_win32 :: "settings_t option \<Rightarrow> 'a prog" where
  "close_all_win32 settings =
     say INFO ''Gracefully closing the server...'' []
     (case settings of
        None \<Rightarrow> crash ''settings->socket of the null pointer''
      | Some st \<Rightarrow>
          closesocket (socket st)
          (call (Win TerminateThread) (\<lambda>r.
           say_if (rv r = 0) ERROR ''TerminateThread failed with error: %d'' [AI (errno r)]
           (call (Win TerminateProcess) (\<lambda>r.
            say_if (rv r = 0) ERROR ''TerminateThread failed with error: %d'' [AI (errno r)]
            (wsa_cleanup (eff (Mem (Free ''settings'')) (exit 1))))))))"

definition universal_handler_win32 :: "settings_t \<Rightarrow> settings_t prog" where
  "universal_handler_win32 st =
     bind (read_and_check_conf_win32 st True) (\<lambda>(changed, st).
     if changed then
       say INFO ''settings->socket CHANGE %d'' [AI (socket st)]
       (call (Win (CloseSocket (socket st))) (\<lambda>r.
        say_if (rv r = SOCKET_ERROR) ERROR
          ''System call close() on %d (server socket) failed with error: %d. Socket change failed.''
          [AI (socket st), AI (errno r)]
        (bind (open_socket_win32 st) (\<lambda>s. ret (st\<lparr>socket := s\<rparr>)))))
     else ret st)"

definition CTRL_BREAK_EVENT :: int where "CTRL_BREAK_EVENT = 1"

definition consoleEventHandler :: "settings_t \<Rightarrow> int \<Rightarrow> (bool \<times> settings_t) prog" where
  "consoleEventHandler st fdwCtrlType =
     (if fdwCtrlType = CTRL_BREAK_EVENT then
        say DEBUG ''CTRL+BREAK PRESSED!'' []
        (bind (universal_handler_win32 st) (\<lambda>st. ret (True, st)))
      else
        say DEBUG ''Exiting!'' []
        (bind (close_all_win32 (Some st)) (\<lambda>u :: unit. ret (False, st))))"

text \<open>The job object: what runs in it ends with this process.\<close>

definition create_job_win32 :: "unit prog" where
  "create_job_win32 =
     need (Win CreateJobObject) (\<lambda>r. rv r = 0)
       (\<lambda>r. say ERROR ''CreateJobObjectA failed: %lld'' [AI (errno r)] (exit 1))
     (need (Win SetJobLimit) (\<lambda>r. rv r = 0)
       (\<lambda>r. say ERROR ''SetInformationJobObject failed: error %lld'' [AI (errno r)] (exit 1))
     (need (Win (AssignToJob ''GetCurrentProcess()'')) (\<lambda>r. rv r = 0)
       (\<lambda>r. say ERROR ''AssignProcessToJobObject failed: %lld'' [AI (errno r)] (exit 1))
     (ret ())))"

definition default_settings_win32 :: "settings_t prog" where
  "default_settings_win32 =
     call (Mem (Malloc ''settings'' 1)) (\<lambda>m.
     if rv m = 0 then say ERROR ''calloc of settings failed'' [] (close_all_win32 None)
     else
       let st = \<lparr>port = DEFAULT_SERVER_PORT, socket = 0, mode = CHR ''t'',
                 homedir = zeroed PATH_MAX_WIN32 [], hostname = zeroed HOSTNAME_LEN []\<rparr> in
       call (Win (GetCurrentDirectory (PATH_MAX_WIN32 - 1))) (\<lambda>cwd.
       if rv cwd = 0 then
         say ERROR ''GetCurrentDirectoryA failed: %d'' [AE (errno cwd)] (close_all_win32 (Some st))
       else
         let st = st\<lparr>homedir := append_backslash (zeroed PATH_MAX_WIN32 (payload cwd))\<rparr> in
         call (Win (GetComputerName (HOSTNAME_LEN - 1))) (\<lambda>r.
         let st = st\<lparr>hostname := zeroed HOSTNAME_LEN (payload r)\<rparr> in
         if rv r = 0 then
           say WARNING ''GetComputerNameA failed with error: %I64d'' [AI (errno r)]
           (ret (st\<lparr>hostname := strncpy (hostname st) ''localhost'' 10\<rparr>))
         else ret st)))"

text \<open>\<^verbatim>\<open>getopt\<close> knows \<^verbatim>\<open>-d\<close> here too, but no case handles it.\<close>

definition usage_win32 :: string where
  "usage_win32 = ''Usage: sacagawea [-P number_of_port][-p/-t for use subprocess/threads to handle client connections]''"

definition option_round_win32 :: "settings_t \<Rightarrow> (settings_t + settings_t) prog" where
  "option_round_win32 st =
     call (Proc Getopt) (\<lambda>c.
     if rv c = - 1 then ret (Inr st)
     else if rv c = of_char (CHR ''p'') then
       say INFO (''mode change: '' @ [QUOTE, CHR ''p'', QUOTE]) [] (ret (Inl (st\<lparr>mode := CHR ''p''\<rparr>)))
     else if rv c = of_char (CHR ''P'') then
       (let st = st\<lparr>port := atoi (payload c)\<rparr> in
        say INFO ''port change: %d'' [AI (port st)] (ret (Inl st)))
     else if rv c = of_char (CHR ''t'') then
       say INFO (''mode change: '' @ [QUOTE, CHR ''t'', QUOTE]) [] (ret (Inl (st\<lparr>mode := CHR ''t''\<rparr>)))
     else if rv c = of_char (CHR ''?'') then say INFO usage_win32 [] (exit 20)
     else ret (Inl st))"

definition read_options_win32 :: "settings_t \<Rightarrow> settings_t prog" where
  "read_options_win32 st = loop option_round_win32 st"

text \<open>The logger is a program of its own, and it is put into the job.\<close>

definition start_logger_win32 :: "settings_t \<Rightarrow> unit prog" where
  "start_logger_win32 st =
     need (Win (CreateProcess ''sacagawea-logger.exe'')) (\<lambda>r. rv r = 0)
       (\<lambda>r. say ERROR ''CreateProcess failed with error: %I64d'' [AI (errno r)] (close_all_win32 (Some st)))
     (need (Win (AssignToJob ''logProcess.hProcess'')) (\<lambda>r. rv r = 0)
       (\<lambda>r. say ERROR ''AssignProcessToJobObject failed: %lld'' [AI (errno r)] (close_all_win32 (Some st)))
     (ret ()))"

definition server_round_win32 :: "settings_t \<Rightarrow> (settings_t + settings_t) prog" where
  "server_round_win32 st =
     call (Proc Signals) (\<lambda>sig.
     if rv sig \<noteq> 0 then bind (consoleEventHandler st (rv sig - 1)) (\<lambda>(handled, st). ret (Inl st))
     else bind (listen_descriptor_win32 st) (\<lambda>go. if go then ret (Inl st) else ret (Inr st)))"

definition serve_clients_win32 :: "settings_t \<Rightarrow> unit prog" where
  "serve_clients_win32 st =
     bind (open_socket_win32 st) (\<lambda>s.
     bind (loop server_round_win32 (st\<lparr>socket := s\<rparr>)) (\<lambda>st. close_all_win32 (Some st)))"

definition main_win32 :: "unit prog" where
  "main_win32 =
     bind create_job_win32 (\<lambda>_.
     bind default_settings_win32 (\<lambda>st.
     bind (read_and_check_conf_win32 st False) (\<lambda>(changed, st).
     bind (read_options_win32 st) (\<lambda>st.
     say INFO ''Server port: %d, mode: %s''
       [AI (port st), AS (if mode st = CHR ''p'' then ''multiprocess'' else ''multithreaded'')]
     (bind (start_logger_win32 st) (\<lambda>_.
      need (Win SetConsoleCtrlHandler) (\<lambda>r. rv r = 0)
        (\<lambda>r. say ERROR ''SetConsoleCtrlHandler Failed with error: %lld'' [AI (errno r)] (close_all_win32 (Some st)))
      (serve_clients_win32 st)))))))"

section \<open>CTRL+BREAK\<close>

text \<open>The handler reads the port only, and it tells when some line has changed it.\<close>

definition port_moved :: "settings_t \<Rightarrow> bool \<times> settings_t \<Rightarrow> bool" where
  "port_moved st s \<longleftrightarrow> (if fst s then \<exists>p \<in> {1..65535}. snd s = st\<lparr>port := p\<rparr> else snd s = st)"

lemma port_moved_simps:
  "port_moved st (False, st') \<longleftrightarrow> st' = st"
  "port_moved st (True, st') \<longleftrightarrow> (\<exists>p \<in> {1..65535}. st' = st\<lparr>port := p\<rparr>)"
  by (simp_all add: port_moved_def)

lemma port_moved_step:
  assumes "port_moved st (b, s)" "s' = s\<lparr>port := p\<rparr>" "p = port s \<or> p \<in> {1..65535}"
  shows "port_moved st (b \<or> port s' \<noteq> port s, s')"
proof (cases "p = port s")
  case True
  with assms show ?thesis by simp
next
  case False
  from assms(1) have "s = st \<or> (\<exists>q. s = st\<lparr>port := q\<rparr>)" by (cases b) (auto simp: port_moved_simps)
  then have "s' = st\<lparr>port := p\<rparr>" unfolding assms(2) by auto
  moreover from False have "(b \<or> port s' \<noteq> port s) = True" unfolding assms(2) by simp
  moreover from False assms(3) have "p \<in> {1..65535}" by blast
  ultimately show ?thesis using port_moved_simps(2) [of st s'] by auto
qed

lemma keeps_conf_break: "keeps conf_event (port_moved st) (read_and_check_conf_win32 st True)"
proof -
  let ?I = "\<lambda>s. port_moved st s"
  have use: "keeps conf_event (\<lambda>x. case x of Inl s' \<Rightarrow> ?I s' | Inr s' \<Rightarrow> ?I s') (use_line_win32 True b s line)"
    if "port_moved st (b, s)" "NUL \<notin> set line" for b s line
    unfolding use_line_win32_def
    by (intro keeps_bind [where R = "\<lambda>x. x = s"] keeps_bind [OF keeps_check_if_port_change_win32 [OF that(2)]])
       (use that(1) port_moved_step [OF that(1)] in \<open>auto intro!: keeps_ret\<close>)
  have round: "keeps conf_event (\<lambda>x. case x of Inl s' \<Rightarrow> ?I s' | Inr s' \<Rightarrow> ?I s') (conf_round_win32 True s)" if "?I s" for s
  proof -
    obtain b s' where s: "s = (b, s')" by (cases s)
    have "NUL \<notin> set (line_of (cstr t))" for t
      by (auto simp: line_of_def dest: in_set_butlastD)
    with that show ?thesis
      unfolding conf_round_win32_def s Let_def prod.case
      by (intro keeps_intros use) simp_all
  qed
  have "keeps conf_event ?I (loop (conf_round_win32 True) (False, st))"
    by (rule conf_win32_loop.keeps_loop [where I = ?I]) (simp add: port_moved_def, rule round)
  then show ?thesis
    unfolding read_and_check_conf_win32_def
    by (intro keeps_call keeps_if keeps_say keeps_exit; (simp; fail)?)
       (rule keeps_bind, assumption, auto intro!: keeps_intros)
qed

lemma conf_no_socket_calls: "\<forall>e \<in> set es. conf_event e \<Longrightarrow> socket_calls es = []"
  by (induction es rule: socket_calls.induct) auto

lemma socket_calls_append [simp]: "socket_calls (es @ es') = socket_calls es @ socket_calls es'"
  by (induction es rule: socket_calls.induct) auto

text \<open>
  The old socket is closed and a new one is prepared on the new port, or nothing is touched; which of the two it
  is, is decided by the lines of the file, when no match data is lost.
\<close>

definition socket_stays :: "settings_t \<Rightarrow> settings_t \<Rightarrow> event list \<Rightarrow> bool" where
  "socket_stays st st' es \<longleftrightarrow> st' = st \<and> socket_calls es = []"

definition socket_moves :: "settings_t \<Rightarrow> settings_t \<Rightarrow> event list \<Rightarrow> bool" where
  "socket_moves st st' es \<longleftrightarrow>
     port st' \<in> {1..65535} \<and> st' = st\<lparr>port := port st', socket := socket st'\<rparr> \<and> socket st' \<noteq> - 1 \<and>
     map fst (socket_calls es) = Win (CloseSocket (socket st)) # prepared st' (socket st')"

definition break_result :: "settings_t \<Rightarrow> settings_t outcome \<Rightarrow> event list \<Rightarrow> bool" where
  "break_result st out es \<longleftrightarrow>
     (case out of
        Ret st' \<Rightarrow> (socket_stays st st' es \<or> socket_moves st st' es) \<and>
          (match_lost es \<or> port st' = port (conf_lines True (lines_read es) st) \<and>
             (if port_changes True (lines_read es) st then socket_moves st st' es else socket_stays st st' es))
      | Exit n \<Rightarrow> n = 1 \<or> n = 5
      | ThreadExit \<Rightarrow> False
      | _ \<Rightarrow> True)"

fun conf_end :: "'a outcome \<Rightarrow> bool" where
  "conf_end (Exit n) = (n = 1 \<or> n = 5)"
| "conf_end ThreadExit = False"
| "conf_end out = True"

lemma conf_end_bind:
  assumes "runs C p (\<lambda>out es. conf_end out)" "\<And>a. runs C (f a) (\<lambda>out es. conf_end out)"
  shows "runs C (bind p f) (\<lambda>out es. conf_end out)"
  by (rule runs_bind_weaken [OF assms(1)], rename_tac out es, case_tac out) (simp_all add: assms(2))

lemma runs_conf_break:
  "runs posix_os (read_and_check_conf_win32 st True) (\<lambda>out es. socket_calls es = [] \<and>
     (case out of Ret s \<Rightarrow> port_moved st s \<and> win_conf_state True st s es | Exit n \<Rightarrow> n = 1 \<or> n = 5 | ThreadExit \<Rightarrow> False | _ \<Rightarrow> True))"
proof -
  have regex: "runs posix_os (do_regex_pcre2 p l) (\<lambda>out es. conf_end out)" for p l
    unfolding do_regex_pcre2_def by (intro runs_intros) simp_all
  have port: "runs posix_os (check_if_port_change_win32 l s) (\<lambda>out es. conf_end out)" for l s
    unfolding check_if_port_change_win32_def Let_def
    by (intro conf_end_bind regex runs_if runs_say runs_eff runs_exit runs_ret) simp_all
  have line: "runs posix_os (use_line_win32 True b s l) (\<lambda>out es. conf_end out)" for b s l
    unfolding use_line_win32_def
    by (simp, intro conf_end_bind port runs_case_prod runs_ret) simp_all
  have round: "runs posix_os (conf_round_win32 True s) (\<lambda>out es. conf_end out)" for s
    unfolding conf_round_win32_def Let_def
    by (intro runs_case_prod runs_call runs_if runs_say runs_say_if runs_exit runs_ret runs_crash line) simp_all
  have loop: "runs posix_os (loop (conf_round_win32 True) s) (\<lambda>out es. conf_end out)" for s
  proof (rule conf_win32_loop.invariant [where I = "\<lambda>_ _. True"])
    fix s :: "bool \<times> settings_t" and es
    show "runs posix_os (conf_round_win32 True s) (round (\<lambda>_ _. True) (\<lambda>out es. conf_end out) es)"
      by (rule runs_weaken [OF round], rename_tac out es', case_tac out rule: goes_round.cases) auto
  qed simp
  have "runs posix_os (read_and_check_conf_win32 st True) (\<lambda>out es. conf_end out)"
    unfolding read_and_check_conf_win32_def
    by (intro runs_call runs_if runs_say runs_exit conf_end_bind loop runs_case_prod runs_eff runs_ret) simp_all
  from runs_conj [OF this runs_conj [OF runs_conf_lines_win32 [of st True] keeps_conf_break [of st, unfolded keeps_def]]]
  show ?thesis
    by (rule runs_weaken) (auto simp: conf_no_socket_calls split: outcome.splits)
qed

lemma open_socket_reads_no_line: "only (\<lambda>e. lines_read [e] = []) (open_socket_win32 st)"
  unfolding open_socket_win32_def closesocket_def wsa_cleanup_def by (intro only_intros) simp_all

lemma runs_universal_handler_win32: "runs posix_os (universal_handler_win32 st) (break_result st)"
  unfolding universal_handler_win32_def
proof (rule runs_bind_weaken [OF runs_conf_break], goal_cases)
  case (1 out es)
  show ?case
  proof (cases out)
    case (Ret s)
    with 1 obtain changed st' where s: "s = (changed, st')" "port_moved st (changed, st')"
      "win_conf_state True st (changed, st') es" by (cases s) auto
    show ?thesis
    proof (cases changed)
      case False
      with 1 Ret s show ?thesis
        by (auto simp: port_moved_def break_result_def socket_stays_def win_conf_state_def intro!: runs_ret)
    next
      case True
      with s obtain p where p: "st' = st\<lparr>port := p\<rparr>" "1 \<le> p" "p \<le> 65535" by (auto simp: port_moved_def)
      then have "0 \<le> port st'" "port st' < 2 ^ 31" by simp_all
      note opened = runs_any [OF runs_only [OF runs_open_socket_win32 [OF this] open_socket_reads_no_line]]
      have new: "break_result st (Ret (st'\<lparr>socket := n\<rparr>)) (es @ es')"
        if "n \<noteq> - 1" "map fst (socket_calls es') = Win (CloseSocket (socket st)) # prepared st' n"
          "lines_read es' = []" for n es'
      proof -
        have "socket_moves st (st'\<lparr>socket := n\<rparr>) (es @ es')"
          using that(1,2) p 1 by (simp add: socket_moves_def prepared_def)
        moreover from s(3) True have "match_lost es \<or> st' = conf_lines True (lines_read es) st \<and>
            port_changes True (lines_read es) st" by (simp add: win_conf_state_def)
        ultimately show ?thesis using that(3) unfolding break_result_def by (elim disjE) simp_all
      qed
      have same: "socket st' = socket st" by (simp add: p(1))
      have stop: "break_result st (Exit 1) es'" "break_result st (Crash m) es'" "break_result st Blocked es'" for m es'
        by (simp_all add: break_result_def)
      show ?thesis
        unfolding Ret s(1) after.simps prod.case using True
      proof (simp only: if_True, intro runs_say runs_call runs_say_if runs_bind_weaken [OF opened], goal_cases)
        case (2 r out es')
        then have "lines_read es' = []" by (intro no_lines_read) blast
        with 2 show ?case by (cases out) (auto simp: same intro!: runs_ret new intro: stop)
      next
        case (3 r out es')
        then have "lines_read es' = []" by (intro no_lines_read) blast
        with 3 show ?case by (cases out) (auto simp: same intro!: runs_ret new intro: stop)
      qed (simp add: break_result_def)
    qed
  qed (use 1 in \<open>auto simp: break_result_def\<close>)
qed

section \<open>Every run of main\<close>

definition win_settings_for :: "string \<Rightarrow> settings_t \<Rightarrow> bool" where
  "win_settings_for H st \<longleftrightarrow> win_settings_inv st \<and> home st = H"

lemma win_settings_for_update [simp]:
  "win_settings_for H (st\<lparr>socket := s\<rparr>) = win_settings_for H st"
  "win_settings_for H (st\<lparr>port := p\<rparr>) = win_settings_for H st"
  by (simp_all add: win_settings_for_def)

text \<open>Before the logger is started there is no connection, no thread and no process.\<close>

fun win_startup_event :: "event \<Rightarrow> bool" where
  "win_startup_event (Sys (Net n) r) = False"
| "win_startup_event (Sys (File (OpenRdwr p)) r) = False"
| "win_startup_event (Sys (File (Popen p)) r) = False"
| "win_startup_event (Sys (Win (OpenForRead p)) r) = False"
| "win_startup_event (Sys (Win (StartThread n c)) r) = False"
| "win_startup_event (Sys (Win (CreateProcess cmd)) r) = False"
| "win_startup_event (Eff (Win (ShareArgs h c))) = False"
| "win_startup_event e = True"

text \<open>
  Then no file is opened, no byte is read from a client or sent to one, and a handler, in a thread or through a
  mapping, gets well-formed settings with the home directory \<open>H\<close>.
\<close>

definition win_server_event :: "string \<Rightarrow> event \<Rightarrow> bool" where
  "win_server_event H e =
     (case e of
        Sys c r \<Rightarrow>
          (case c of
             File (OpenRdwr p) \<Rightarrow> False
           | File (Popen cmd) \<Rightarrow> False
           | Net (Recv s n f) \<Rightarrow> False
           | Net (Send s x) \<Rightarrow> False
           | Win (OpenForRead p) \<Rightarrow> False
           | Win (StartThread n a) \<Rightarrow> n = ''management_function'' \<and> win_settings_for H (c_settings a)
           | _ \<Rightarrow> True)
      | Eff (Win (ShareArgs h a)) \<Rightarrow> win_settings_for H (c_settings a)
      | _ \<Rightarrow> True)"

lemmas win_server_event_simps [simp] =
  win_server_event_def [of _ "Sys c r" for c r] win_server_event_def [of _ "Eff c" for c]
  win_server_event_def [of _ "Log l s x" for l s x]

lemma conf_event_win_startup: "conf_event e \<Longrightarrow> win_startup_event e"
  by (cases e rule: win_startup_event.cases) auto

lemma win_startup_server: "win_startup_event e \<Longrightarrow> win_server_event H e"
  by (cases e rule: win_startup_event.cases) simp_all

lemma win_accept_server: "win_accept_event st e \<Longrightarrow> win_settings_for H st \<Longrightarrow> win_server_event H e"
  by (simp add: win_server_event_def win_accept_event_def
      split: event.splits call.splits net_call.splits file_call.splits win_call.splits)

lemma keeps_events: "keeps P Q p \<Longrightarrow> (\<And>e. P e \<Longrightarrow> P' e) \<Longrightarrow> keeps P' Q p"
  unfolding keeps_def by (erule runs_weaken) blast

lemma keeps_close_all_win32: "keeps win_startup_event Q (close_all_win32 s)"
  unfolding close_all_win32_def closesocket_def wsa_cleanup_def by (intro keeps_intros) simp_all

lemma keeps_open_socket_win32: "keeps (win_server_event H) (\<lambda>_. True) (open_socket_win32 st)"
  unfolding open_socket_win32_def closesocket_def wsa_cleanup_def by (intro keeps_intros) simp_all

lemma keeps_listen_descriptor_win32:
  assumes "win_settings_for H st"
  shows "keeps (win_server_event H) (\<lambda>b. b) (listen_descriptor_win32 st)"
proof -
  have inv: "win_settings_inv st" using assms by (simp add: win_settings_for_def)
  have "keeps (win_server_event H) (\<lambda>b. b) (accept_wrapper_win32 st)"
    by (rule keeps_runs [OF runs_accept_wrapper_win32 [OF inv]])
       (auto simp: win_accept_result_def win_served_def win_in_order_def intro: win_accept_server [OF _ assms])
  then show ?thesis
    unfolding listen_descriptor_win32_def
    by (intro keeps_intros keeps_bind [where R = "\<lambda>b. b"]) simp_all
qed

lemma keeps_consoleEventHandler:
  assumes "win_settings_for H st"
  shows "keeps (win_server_event H) (\<lambda>(b, st'). win_settings_for H st') (consoleEventHandler st n)"
proof -
  have conf: "keeps (win_server_event H) (\<lambda>(changed, st'). win_settings_for H st') (read_and_check_conf_win32 st True)"
    by (rule keeps_events [OF keeps_weaken [OF keeps_conf_break]])
       (use assms in \<open>auto simp: port_moved_def intro: win_startup_server conf_event_win_startup split: if_splits\<close>)
  have "keeps (win_server_event H) (win_settings_for H) (universal_handler_win32 st)"
    unfolding universal_handler_win32_def
    by (rule keeps_bind [OF conf]) (auto intro!: keeps_intros keeps_bind [OF keeps_open_socket_win32])
  note break = this
  have stop: "keeps (win_server_event H) (\<lambda>_. False) (close_all_win32 (Some st) :: unit prog)"
    by (rule keeps_events [OF keeps_close_all_win32 win_startup_server])
  show ?thesis
    unfolding consoleEventHandler_def
    by (intro keeps_intros keeps_bind [OF break] keeps_bind [OF stop]) simp_all
qed

lemma server_round_win32_consumes:
  "runs any_os (server_round_win32 st) (\<lambda>out es. goes_round out \<longrightarrow> 0 < calls es)"
proof -
  have conf: "runs any_os (read_and_check_conf_win32 s h) (\<lambda>_ _. True)" for s h
    unfolding read_and_check_conf_win32_def
    by (intro runs_call runs_if runs_say runs_exit runs_eff runs_ret runs_case_prod
        runs_trivial_bind [OF conf_win32_loop.trivial] TrueI)
  have "only (\<lambda>_. True) (open_socket_win32 s)" for s
    unfolding open_socket_win32_def closesocket_def wsa_cleanup_def by (intro only_intros) simp_all
  note open_socket = runs_of_only [OF this]
  have "only (\<lambda>_. True) (close_all_win32 s)" for s
    unfolding close_all_win32_def closesocket_def wsa_cleanup_def by (intro only_intros) simp_all
  note close = runs_of_only [OF this]
  have handler: "runs any_os (consoleEventHandler s n) (\<lambda>_ _. True)" for s n
    unfolding consoleEventHandler_def universal_handler_win32_def
    by (intro runs_trivial_bind [OF conf] runs_trivial_bind [OF open_socket] runs_trivial_bind [OF close]
        runs_trivial_bind [where Q = "\<lambda>_ _. True"] runs_call runs_if runs_say runs_say_if runs_ret runs_case_prod TrueI)
  have listen: "runs any_os (listen_descriptor_win32 s) (\<lambda>_ _. True)" for s
    unfolding listen_descriptor_win32_def accept_wrapper_win32_def
    by (intro runs_say runs_call runs_if runs_ret runs_exit runs_trivial_bind [OF accept_win32_loop.trivial] TrueI)
  show ?thesis
    unfolding server_round_win32_def
    by (intro consumes_call runs_if runs_ret runs_case_prod runs_trivial_bind [OF listen] runs_trivial_bind [OF handler] TrueI)
qed

interpretation server_win32_loop: loop_body server_round_win32
  by unfold_locales (rule server_round_win32_consumes)

lemma keeps_serve_clients_win32:
  assumes "win_settings_for H st"
  shows "keeps (win_server_event H) (\<lambda>_. False) (serve_clients_win32 st)"
proof -
  have round: "keeps (win_server_event H) (\<lambda>x. case x of Inl st' \<Rightarrow> win_settings_for H st' | Inr st' \<Rightarrow> False) (server_round_win32 s)"
    if "win_settings_for H s" for s
    unfolding server_round_win32_def
    by (intro keeps_intros keeps_bind [OF keeps_consoleEventHandler [OF that]]
        keeps_bind [OF keeps_listen_descriptor_win32 [OF that]]) (use that in \<open>auto intro!: keeps_ret\<close>)
  have loop: "keeps (win_server_event H) (\<lambda>_. False) (loop server_round_win32 s)" if "win_settings_for H s" for s
    by (rule server_win32_loop.keeps_loop [where I = "win_settings_for H"], rule that, rule round)
  show ?thesis
    unfolding serve_clients_win32_def
    by (intro keeps_bind [OF keeps_open_socket_win32] keeps_bind [OF loop]) (use assms in simp_all)
qed

text \<open>The stages before the logger: they settle the home directory.\<close>

definition win_first_settings :: "string \<Rightarrow> string \<Rightarrow> settings_t" where
  "win_first_settings cwd name = \<lparr>port = 7070, socket = 0, mode = CHR ''t'',
     homedir = append_backslash (zeroed PATH_MAX_WIN32 cwd), hostname = name\<rparr>"

lemma win_first_home:
  assumes "NUL \<notin> set cwd" "length cwd < 259"
  shows "win_homedir_ok (append_backslash (zeroed PATH_MAX_WIN32 cwd))"
    and "home (win_first_settings cwd name) = cwd @ [BACKSLASH]"
proof -
  have len: "260 - length cwd - 1 = 260 - length (cwd @ [BACKSLASH])" by simp
  have "append_backslash (cwd @ replicate (260 - length cwd) NUL) = cwd @ BACKSLASH # replicate (260 - length cwd - 1) NUL"
    by (rule append_backslash_zeros) (use assms in auto)
  then have buf: "append_backslash (zeroed PATH_MAX_WIN32 cwd) =
      (cwd @ [BACKSLASH]) @ replicate (260 - length (cwd @ [BACKSLASH])) NUL"
    unfolding len by (simp add: zeroed_def PATH_MAX_WIN32_def)
  show "win_homedir_ok (append_backslash (zeroed PATH_MAX_WIN32 cwd))"
    unfolding buf by (rule win_homedir_ok_zeros) (use assms in \<open>simp_all add: ends_in_backslash_def\<close>)
  have "NUL \<notin> set (cwd @ [BACKSLASH])" using assms(1) by simp
  then show "home (win_first_settings cwd name) = cwd @ [BACKSLASH]"
    unfolding win_first_settings_def settings_t.simps buf by (subst cstr_append) (use assms(2) in simp_all)
qed

lemma win_first_settings_inv:
  "NUL \<notin> set cwd \<Longrightarrow> length cwd < 259 \<Longrightarrow> hostname_ok name \<Longrightarrow> win_settings_inv (win_first_settings cwd name)"
  using win_first_home(1) [of cwd] by (simp add: win_settings_inv_def win_first_settings_def mode_ok_def)

text \<open>
  The configured home directory: what the lines of the configuration file, all that were read before the command line,
  make of the working directory. When match data is lost a line may be passed over; even then it is the
  working directory, or a directory of the file that could be opened.
\<close>

definition home_so_far :: "event list \<Rightarrow> string \<Rightarrow> reply \<Rightarrow> bool" where
  "home_so_far es H r \<longleftrightarrow> Sys (Win (GetCurrentDirectory 259)) r \<in> set es \<and> rv r \<noteq> 0 \<and>
     (match_lost es \<or> H = home_after (lines_read es) (payload r @ [BACKSLASH]))"

definition configured_home :: "event list \<Rightarrow> string \<Rightarrow> bool" where
  "configured_home es H \<longleftrightarrow>
     (\<exists>r. home_so_far (before_options es) H r \<and> home_from es (payload r @ [BACKSLASH]) H)"

definition homes :: "event list \<Rightarrow> string \<Rightarrow> bool" where
  "homes es H \<longleftrightarrow> (\<forall>e \<in> set es. \<not> is_getopt e) \<and> (\<exists>r. home_so_far es H r \<and> home_from es (payload r @ [BACKSLASH]) H)"

lemma homes_append:
  assumes "homes es H0" "home_from es' H0 H" "\<forall>e \<in> set es'. \<not> is_getopt e"
    and "match_lost es' \<or> H = home_after (lines_read es') H0"
  shows "homes (es @ es') H"
  using assms unfolding homes_def home_so_far_def
  by (elim exE conjE, intro conjI) (auto intro: home_from_append)

lemma homes_before:
  assumes "homes es H" "\<forall>e \<in> set pre. \<not> is_getopt e" "lines_read pre = []"
  shows "homes (pre @ es) H"
  using assms home_from_append [OF home_from_refl, of es _ H pre] by (auto simp: homes_def home_so_far_def)

lemma configured_homeI:
  assumes "homes es H" "es' \<noteq> []" "is_getopt (hd es')"
  shows "configured_home (es @ es') H"
  using assms before_options_cut [of es es'] home_from_append [of es _ H es' H]
  by (auto simp: homes_def configured_home_def)

lemma configured_home_append:
  "configured_home es H \<Longrightarrow> list_ex is_getopt es \<Longrightarrow> configured_home (es @ es') H"
  using home_from_append [of es _ H es' H] by (auto simp: configured_home_def before_options_more)

lemma runs_default_settings_win32:
  "runs posix_os default_settings_win32 (\<lambda>out es. (\<forall>e \<in> set es. win_startup_event e) \<and>
     (\<forall>st. out = Ret st \<longrightarrow> win_settings_inv st \<and> homes es (home st)))"
proof -
  note close = runs_weaken [OF keeps_close_all_win32 [where Q = "\<lambda>_ :: settings_t. False", unfolded keeps_def]]
  have home: "homes es (home (win_first_settings (payload r) name))"
    if "Sys (Win (GetCurrentDirectory 259)) r \<in> set es" "lines_read es = []" "\<forall>e \<in> set es. \<not> is_getopt e" "rv r \<noteq> 0" "length (payload r) < 259" "NUL \<notin> set (payload r)"
    for es r name
    using that win_first_home(2) [of "payload r" name] unfolding homes_def home_so_far_def
    by (intro conjI exI [of _ r]) simp_all
  have folded: "\<lparr>port = 7070, socket = 0, mode = CHR ''t'', homedir = append_backslash (zeroed 260 cwd), hostname = name\<rparr>
      = win_first_settings cwd name"
    "win_first_settings cwd name\<lparr>hostname := name'\<rparr> = win_first_settings cwd name'"
    "hostname (win_first_settings cwd name) = name" for cwd name name'
    by (simp_all add: win_first_settings_def PATH_MAX_WIN32_def)
  note names = hostname_ok_payload [unfolded HOSTNAME_LEN_def]
  show ?thesis
    unfolding default_settings_win32_def Let_def
    by (intro runs_call runs_if runs_say runs_ret close)
       (auto simp: PATH_MAX_WIN32_def HOSTNAME_LEN_def DEFAULT_SERVER_PORT_def folded win_first_settings_inv names
          intro!: home)
qed

lemma conf_stage_win32:
  assumes "win_settings_inv st"
  shows "runs posix_os (read_and_check_conf_win32 st h) (\<lambda>out es. (\<forall>e \<in> set es. win_startup_event e) \<and>
     (\<forall>s. out = Ret s \<longrightarrow> win_settings_inv (snd s) \<and> home_from es (home st) (home (snd s)) \<and> (\<forall>e \<in> set es. \<not> is_getopt e) \<and>
        (\<not> h \<longrightarrow> match_lost es \<or> home (snd s) = home_after (lines_read es) (home st))))"
  using runs_conj [OF runs_conf_lines_win32 [of st h] runs_conj [OF tracks_read_and_check_conf_win32 [of st h, unfolded tracks_def, rule_format, OF assms]
      keeps_read_and_check_conf_win32 [OF assms, of h, unfolded keeps_def]]]
proof (rule runs_weaken, goal_cases)
  case (1 out es)
  have "home (win_conf_lines False (lines_read es) st) = home_after (lines_read es) (home st)"
    using home_after_lines [of st "lines_read es"] assms lines_read_no_NUL by (auto simp: win_settings_inv_def)
  with 1 show ?case
    by (auto simp: win_conf_state_def conf_before_options intro: conf_event_win_startup)
qed

lemma option_round_win32_consumes: "runs any_os (option_round_win32 s) (\<lambda>out es. goes_round out \<longrightarrow> 0 < calls es)"
  unfolding option_round_win32_def by (intro runs_intros) simp_all

interpretation option_win32_loop: loop_body option_round_win32
  by unfold_locales (rule option_round_win32_consumes)

lemma keeps_read_options_win32:
  assumes "win_settings_for H st"
  shows "keeps win_startup_event (win_settings_for H) (read_options_win32 st)"
  unfolding read_options_win32_def
proof (rule option_win32_loop.keeps_loop [where I = "win_settings_for H"])
  fix s
  assume "win_settings_for H s"
  then show "keeps win_startup_event (\<lambda>x. case x of Inl s' \<Rightarrow> win_settings_for H s' | Inr s' \<Rightarrow> win_settings_for H s')
      (option_round_win32 s)"
    unfolding option_round_win32_def Let_def
    by (intro keeps_intros) (simp_all add: win_settings_for_def win_settings_inv_def mode_ok_def)
qed (rule assms)

lemma runs_read_options_win32_first: "runs posix_os (read_options_win32 st) getopt_first"
  unfolding read_options_win32_def
proof (rule option_win32_loop.invariant [where I = "\<lambda>_ es. es = [] \<or> is_getopt (hd es)"])
  fix s :: settings_t and es0
  assume "es0 = [] \<or> is_getopt (hd es0)"
  then show "runs posix_os (option_round_win32 s) (round (\<lambda>_ es. es = [] \<or> is_getopt (hd es)) getopt_first es0)"
    unfolding option_round_win32_def Let_def
    by (intro runs_intros) (auto simp: getopt_first_def hd_append)
qed simp

abbreviation logger_exe :: string where
  "logger_exe \<equiv> ''sacagawea-logger.exe''"

text \<open>The part of a run that starts with the logger.\<close>

definition win_serves :: "string \<Rightarrow> 'a outcome \<Rightarrow> event list \<Rightarrow> bool" where
  "win_serves H out es \<longleftrightarrow> (\<forall>u. out \<noteq> Ret u) \<and> (\<forall>e \<in> set es. win_server_event H e) \<and>
     (started es = [] \<or> hd (started es) = logger_exe)"

lemma runs_start_logger_win32:
  "runs posix_os (start_logger_win32 st) (\<lambda>out es. (\<forall>e \<in> set es. win_server_event H e) \<and>
     (\<forall>u. out = Ret u \<longrightarrow> started es = [logger_exe]) \<and> (started es = [] \<or> started es = [logger_exe]))"
proof -
  have close: "runs posix_os (close_all_win32 s) (\<lambda>out es. (\<forall>e \<in> set es. win_server_event H e) \<and> (\<forall>u :: unit. out \<noteq> Ret u) \<and>
      started es = [])" for s
    unfolding close_all_win32_def closesocket_def wsa_cleanup_def by (intro runs_intros) simp_all
  show ?thesis
    unfolding start_logger_win32_def
    by (intro runs_need runs_say runs_ret runs_weaken [OF close]) simp_all
qed

lemma keeps_serve_logger:
  assumes "win_settings_for H st"
  shows "runs posix_os (bind (start_logger_win32 st) (\<lambda>_.
      need (Win SetConsoleCtrlHandler) (\<lambda>r. rv r = 0)
        (\<lambda>r. say ERROR ''SetConsoleCtrlHandler Failed with error: %lld'' [AI (errno r)] (close_all_win32 (Some st)))
      (serve_clients_win32 st))) (win_serves H)"
proof (rule runs_bind_weaken [OF runs_start_logger_win32 [of st H]], goal_cases)
  case (1 out es)
  let ?rest = "need (Win SetConsoleCtrlHandler) (\<lambda>r. rv r = 0)
        (\<lambda>r. say ERROR ''SetConsoleCtrlHandler Failed with error: %lld'' [AI (errno r)] (close_all_win32 (Some st)))
      (serve_clients_win32 st)"
  have "keeps (win_server_event H) (\<lambda>_. False) ?rest"
    by (intro keeps_need keeps_say keeps_events [OF keeps_close_all_win32 win_startup_server]
        keeps_serve_clients_win32 assms) simp_all
  then have "runs posix_os ?rest (\<lambda>out es'. win_serves H out (es @ es'))" if "out = Ret u" for u
    unfolding keeps_def by (rule runs_weaken) (use 1 that in \<open>auto simp: win_serves_def\<close>)
  with 1 show ?case by (cases out) (auto simp: win_serves_def)
qed

text \<open>This process was in the job before anything else happened.\<close>

definition job_ready :: "event list \<Rightarrow> bool" where
  "job_ready es \<longleftrightarrow> (\<exists>r1 r2 r3 es'. es = Sys (Win CreateJobObject) r1 # Sys (Win SetJobLimit) r2 #
     Sys (Win (AssignToJob ''GetCurrentProcess()'')) r3 # es' \<and> 0 \<notin> {rv r1, rv r2, rv r3})"

lemma runs_create_job:
  "runs posix_os create_job_win32 (\<lambda>out es. (\<forall>e \<in> set es. win_startup_event e) \<and>
     (\<forall>u. out = Ret u \<longrightarrow> job_ready es \<and> lines_read es = [] \<and> (\<forall>e \<in> set es. \<not> is_getopt e)))"
  unfolding create_job_win32_def by (intro runs_need runs_say runs_exit runs_ret) (auto simp: job_ready_def)

definition win_main_result :: "unit outcome \<Rightarrow> event list \<Rightarrow> bool" where
  "win_main_result out es \<longleftrightarrow> (\<forall>u. out \<noteq> Ret u) \<and>
     ((\<forall>e \<in> set es. win_startup_event e) \<or>
      (\<exists>H es1 es2. es = es1 @ es2 \<and> job_ready es1 \<and> (\<forall>e \<in> set es1. win_startup_event e) \<and> configured_home es1 H \<and>
         list_ex is_getopt es1 \<and> win_serves H out es2))"

lemma runs_main_win32: "runs posix_os main_win32 win_main_result"
proof -
  let ?serve = "\<lambda>st. say INFO ''Server port: %d, mode: %s''
       [AI (port st), AS (if mode st = CHR ''p'' then ''multiprocess'' else ''multithreaded'')]
     (bind (start_logger_win32 st) (\<lambda>_.
      need (Win SetConsoleCtrlHandler) (\<lambda>r. rv r = 0)
        (\<lambda>r. say ERROR ''SetConsoleCtrlHandler Failed with error: %lld'' [AI (errno r)] (close_all_win32 (Some st)))
      (serve_clients_win32 st)))"
  have early: "win_main_result out (pre @ es)"
    if "\<forall>e \<in> set pre. win_startup_event e" "\<forall>e \<in> set es. win_startup_event e" "\<forall>u. out \<noteq> Ret u" for out pre es
    using that by (auto simp: win_main_result_def)
  have serve: "runs posix_os (?serve st) (\<lambda>out es. win_main_result out (pre @ es))"
    if "win_settings_inv st" "configured_home pre (home st)" "job_ready pre" "\<forall>e \<in> set pre. win_startup_event e"
      "list_ex is_getopt pre" for st pre
  proof -
    have "win_settings_for (home st) st" using that(1) by (simp add: win_settings_for_def)
    note served = keeps_serve_logger [OF this]
    have "win_main_result out (pre @ Log l s a # es)" if "win_serves (home st) out es" for out es l s a
      unfolding win_main_result_def
      using that \<open>configured_home _ _\<close> \<open>job_ready pre\<close> \<open>\<forall>e \<in> set pre. _ e\<close> \<open>list_ex _ pre\<close>
      by (intro conjI disjI2 exI [of _ "home st"] exI [of _ pre] exI [of _ "Log l s a # es"]) (auto simp: win_serves_def)
    then show ?thesis by (intro runs_say runs_weaken [OF served])
  qed
  have options: "runs posix_os (bind (read_options_win32 st) ?serve) (\<lambda>out es. win_main_result out (pre @ es))"
    if "win_settings_inv st" "homes pre (home st)" "job_ready pre" "\<forall>e \<in> set pre. win_startup_event e" for st pre
  proof (rule stage_bind [where P = win_startup_event and Q = "\<lambda>st' es. win_settings_for (home st) st' \<and> es \<noteq> [] \<and> is_getopt (hd es)"], goal_cases)
    case 1
    have "win_settings_for (home st) st" using that(1) by (simp add: win_settings_for_def)
    from runs_conj [OF keeps_read_options_win32 [OF this, unfolded keeps_def] runs_read_options_win32_first [of st]] show ?case
      by (rule runs_weaken) (auto simp: getopt_first_def)
  next
    case (2 st' es)
    then have "win_settings_inv st'" "configured_home (pre @ es) (home st')" "job_ready (pre @ es)"
      "\<forall>e \<in> set (pre @ es). win_startup_event e" "list_ex is_getopt (pre @ es)"
      using configured_homeI [OF that(2), of es] that(3,4)
      by (auto simp: win_settings_for_def job_ready_def list_ex_iff intro: hd_in_set)
    from serve [OF this] show ?case by (simp only: append_assoc)
  next
    case (3 out es)
    then show ?case by (rule early [OF that(4)])
  qed
  have conf: "runs posix_os (bind (read_and_check_conf_win32 st False) (\<lambda>(changed, st). bind (read_options_win32 st) ?serve))
      (\<lambda>out es. win_main_result out (pre @ es))"
    if "win_settings_inv st" "homes pre (home st)" "job_ready pre" "\<forall>e \<in> set pre. win_startup_event e" for st pre
  proof (rule stage_bind [OF conf_stage_win32 [OF that(1)]], goal_cases)
    case (1 s es)
    then have "win_settings_inv (snd s)" "homes (pre @ es) (home (snd s))" "job_ready (pre @ es)"
      "\<forall>e \<in> set (pre @ es). win_startup_event e"
      using homes_append [OF that(2), of es] that(3,4) by (auto simp: job_ready_def)
    from options [OF this] show ?case by (simp only: append_assoc case_prod_beta)
  next
    case (2 out es)
    then show ?case by (rule early [OF that(4)])
  qed
  have default: "runs posix_os (bind default_settings_win32 (\<lambda>st. bind (read_and_check_conf_win32 st False)
      (\<lambda>(changed, st). bind (read_options_win32 st) ?serve))) (\<lambda>out es. win_main_result out (pre @ es))"
    if "job_ready pre" "\<forall>e \<in> set pre. win_startup_event e" "lines_read pre = []" "\<forall>e \<in> set pre. \<not> is_getopt e" for pre
  proof (rule stage_bind [where P = win_startup_event and Q = "\<lambda>st es. win_settings_inv st \<and> homes es (home st)"],
      rule runs_default_settings_win32, goal_cases)
    case (1 st es)
    then have "win_settings_inv st" "homes (pre @ es) (home st)" "job_ready (pre @ es)"
      "\<forall>e \<in> set (pre @ es). win_startup_event e"
      using that homes_before [of es "home st" pre] by (auto simp: job_ready_def)
    from conf [OF this] show ?case by (simp only: append_assoc)
  next
    case (2 out es)
    then show ?case by (rule early [OF that(2)])
  qed
  show ?thesis
    unfolding main_win32_def
  proof (rule stage_bind [where P = win_startup_event and
      Q = "\<lambda>_ es. job_ready es \<and> lines_read es = [] \<and> (\<forall>e \<in> set es. \<not> is_getopt e)"], rule runs_create_job, goal_cases)
    case (1 u es)
    then show ?case by (intro default) simp_all
  next
    case (2 out es)
    then show ?case using early [of "[]" es out] by simp
  qed
qed

section \<open>What the runs of main have in common\<close>

fun win_files :: "event list \<Rightarrow> string list" where
  "win_files (Sys (Win (OpenForRead p)) r # es) = p # win_files es"
| "win_files (Sys (File (OpenRdwr p)) r # es) = p # win_files es"
| "win_files (e # es) = win_files es"
| "win_files [] = []"

lemma win_server_event_quiet:
  assumes "\<forall>e \<in> set es. win_server_event H e"
  shows "win_files es = []" "commands_run es = []" "received es = []" "sends es = []"
proof -
  show "win_files es = []" using assms by (induction es rule: win_files.induct) auto
  show "commands_run es = []" using assms by (induction es rule: commands_run.induct) auto
  show "received es = []" using assms by (induction es rule: received.induct) auto
  show "sends es = []" using assms by (induction es rule: sends.induct) auto
qed

lemma win_server_event_handlers:
  "\<forall>e \<in> set es. win_server_event H e \<Longrightarrow> c \<in> set (handler_args es) \<Longrightarrow> win_settings_for H (c_settings c)"
  by (induction es rule: handler_args.induct) auto

lemma win_startup_none:
  assumes "\<forall>e \<in> set es. win_startup_event e"
  shows "handler_args es = []" "started es = []"
proof -
  show "handler_args es = []" using assms by (induction es rule: handler_args.induct) auto
  show "started es = []" using assms by (induction es rule: started.induct) auto
qed

lemma win_main_result_events:
  assumes "win_main_result out es"
  shows "\<exists>H. (\<forall>e \<in> set es. win_server_event H e) \<and> (handler_args es = [] \<or> configured_home es H) \<and>
    (started es = [] \<or> hd (started es) = logger_exe \<and> job_ready es)"
  using assms unfolding win_main_result_def
proof (elim conjE disjE exE, goal_cases)
  case 1
  then show ?case by (auto simp: win_startup_none intro: win_startup_server)
next
  case (2 H es1 es2)
  then have "job_ready es" "configured_home es H" "started es = started es2"
    using configured_home_append [of es1 H es2] by (auto simp: job_ready_def win_startup_none)
  moreover have "\<forall>e \<in> set es. win_server_event H e"
    using 2 by (auto simp: win_serves_def intro: win_startup_server)
  ultimately show ?case using 2 unfolding win_serves_def by (intro exI [of _ H]) simp
qed

section \<open>Properties\<close>

text \<open>
  C21: in every run of \<^verbatim>\<open>main\<close> of the Win32 build every handler, thread or process, gets well-formed settings, all
  with the same home directory: what the lines of the configuration file that were read before the command line make of
  the working directory (when the match data of a line is lost, the working directory or a directory that the
  file names and that could be opened). CTRL+BREAK does not change it. The logger is the first
  process that is started, when this process is already in the job that ends with it. \<^verbatim>\<open>main\<close> never returns.
\<close>

theorem win_every_handler_gets_valid_settings:
  "runs posix_os main_win32 (\<lambda>out es. (\<forall>u. out \<noteq> Ret u) \<and>
     (\<exists>H. list_all (\<lambda>c. win_settings_inv (c_settings c) \<and> home (c_settings c) = H) (handler_args es) \<and>
        (handler_args es = [] \<or> configured_home es H)) \<and>
     (started es = [] \<or> hd (started es) = ''sacagawea-logger.exe'' \<and> job_ready es))"
proof (rule runs_weaken [OF runs_main_win32], goal_cases)
  case (1 out es)
  then obtain H where H: "\<forall>e \<in> set es. win_server_event H e" "handler_args es = [] \<or> configured_home es H"
    "started es = [] \<or> hd (started es) = logger_exe \<and> job_ready es"
    using win_main_result_events by blast
  have "list_all (\<lambda>c. win_settings_inv (c_settings c) \<and> home (c_settings c) = H) (handler_args es)"
    using win_server_event_handlers [OF H(1)] by (simp add: list_all_iff win_settings_for_def)
  moreover have "\<forall>u. out \<noteq> Ret u" using 1 by (simp add: win_main_result_def)
  ultimately show ?case using H(2,3) by blast
qed

text \<open>
  C20: the server of the Win32 build opens no file for a client, runs no command and exchanges no bytes with one. A
  handler that it starts, whatever its client sends, opens only the path of this client's request, which lies below the
  configured home directory (or below its parent for a selector that ends in \<^verbatim>\<open>..\<close>), and sends
  bytes to this client only. The configured home directory is the one that the last line of the configuration file
  that names one gives, or the working directory when no line does, unless match data was lost.
\<close>

theorem win_main_opens_only_confined_files:
  "runs posix_os main_win32 (\<lambda>out es.
     win_files es = [] \<and> commands_run es = [] \<and> received es = [] \<and> sends es = [] \<and>
     list_all (\<lambda>c. configured_home es (home (c_settings c)) \<and>
       (\<forall>P garbage allocated. runs posix_os (management_function_win32 P garbage allocated c) (\<lambda>out' es'.
          list_all (\<lambda>p. \<exists>t. cut (heard NoFlags es') = Some t \<and> p = target c (cstr t) \<and>
             prefix (if win_last (cstr t) = ''..'' then butlast (win_resolve (home (c_settings c)))
                     else win_resolve (home (c_settings c))) (win_resolve p)) (win_opened es') \<and>
          list_all (\<lambda>x. fst x = c_socket c) (sends es')))) (handler_args es))"
proof (rule runs_weaken [OF runs_main_win32], goal_cases)
  case (1 out es)
  then obtain H where H: "\<forall>e \<in> set es. win_server_event H e" "handler_args es = [] \<or> configured_home es H"
    using win_main_result_events by blast
  have "configured_home es (home (c_settings c)) \<and>
       (\<forall>P garbage allocated. runs posix_os (management_function_win32 P garbage allocated c) (\<lambda>out' es'.
          list_all (\<lambda>p. \<exists>t. cut (heard NoFlags es') = Some t \<and> p = target c (cstr t) \<and>
             prefix (if win_last (cstr t) = ''..'' then butlast (win_resolve (home (c_settings c)))
                     else win_resolve (home (c_settings c))) (win_resolve p)) (win_opened es') \<and>
          list_all (\<lambda>x. fst x = c_socket c) (sends es')))" if c: "c \<in> set (handler_args es)" for c
  proof (intro conjI allI)
    from win_server_event_handlers [OF H(1) c] have st: "win_settings_inv (c_settings c)" "home (c_settings c) = H"
      by (simp_all add: win_settings_for_def)
    with H(2) c show "configured_home es (home (c_settings c))" by auto
    have "ends_in_backslash (home (c_settings c))"
      using st(1) by (simp add: win_settings_inv_def win_homedir_ok_def)
    note confined = win_request_confined [OF this]
    show "runs posix_os (management_function_win32 P garbage allocated c) (\<lambda>out' es'.
          list_all (\<lambda>p. \<exists>t. cut (heard NoFlags es') = Some t \<and> p = target c (cstr t) \<and>
             prefix (if win_last (cstr t) = ''..'' then butlast (win_resolve (home (c_settings c)))
                     else win_resolve (home (c_settings c))) (win_resolve p)) (win_opened es') \<and>
          list_all (\<lambda>x. fst x = c_socket c) (sends es'))" for P garbage allocated
      by (rule runs_weaken [OF runs_management_events], unfold list_all_iff, intro conjI ballI)
         (blast dest: confined(1), rule confined(3))
  qed
  with win_server_event_quiet [OF H(1)] show ?case unfolding list_all_iff by blast
qed

text \<open>
  C26: on CTRL+BREAK the server of the Win32 build changes nothing, and touches no socket, when the file changes no
  port. Otherwise it closes its old socket first, and then prepares one in seven calls on the new port, a number between 1 and
  65535 that the last line with such a number sets; nothing else of the settings changes. Only when the match data of some line
  could not be allocated, so that this line is passed over, either of the two may happen. The process goes on, and any failure
  ends it with code 1 or 5.
\<close>

theorem win_break_moves_the_socket:
  "runs posix_os (consoleEventHandler st CTRL_BREAK_EVENT) (\<lambda>out es.
     case out of
       Ret (goes_on, st') \<Rightarrow> goes_on \<and>
         ((st' = st \<and> socket_calls es = []) \<or>
          (port st' \<in> {1..65535} \<and> st' = st\<lparr>port := port st', socket := socket st'\<rparr> \<and>
           map fst (socket_calls es) =
             [Win (CloseSocket (socket st)), Win WSAStartup, Win (GetAddrInfo (show_int (port st'))), Net Socket,
              Net (SetNonBlocking (socket st')), Net (SetReuseAddr (socket st')), Win (BindResolved (socket st')),
              Net (Listen (socket st') 2147483647)])) \<and>
         (match_lost es \<or>
          port st' = port (conf_lines True (lines_read es) st) \<and>
          (socket_calls es \<noteq> [] \<longleftrightarrow> port_changes True (lines_read es) st))
     | Exit n \<Rightarrow> n \<in> {1, 5}
     | ThreadExit \<Rightarrow> False
     | _ \<Rightarrow> True)"
proof -
  let ?R = "\<lambda>out es. case out of
       Ret (goes_on, st') \<Rightarrow> goes_on \<and> break_result st (Ret st') es
     | Exit n \<Rightarrow> n = 1 \<or> n = 5 | ThreadExit \<Rightarrow> False | _ \<Rightarrow> True"
  have said: "socket_stays st st' (Log l s x # es) = socket_stays st st' es"
    "socket_moves st st' (Log l s x # es) = socket_moves st st' es" for st' l s x es
    by (simp_all add: socket_stays_def socket_moves_def)
  have "runs posix_os (consoleEventHandler st CTRL_BREAK_EVENT) ?R"
    unfolding consoleEventHandler_def
    by (simp, intro runs_say runs_bind_weaken [OF runs_universal_handler_win32], rename_tac out es, case_tac out)
       (auto simp: said break_result_def intro!: runs_ret)
  then show ?thesis
    by (rule runs_weaken)
       (auto simp: break_result_def socket_stays_def socket_moves_def prepared_def SOMAXCONN_def
          split: outcome.splits if_splits)
qed

end
