(* ===== verification/Bounded.thy ===== *)
theory Bounded
  imports Server
begin

text \<open>
  How long the programs of the Linux build run: bounds on their calls, from the functions that
  answer a client up to a round of the server loop and to \<^verbatim>\<open>main\<close>. Every loop of the program ends
  unless its replies grant it more rounds. Most grants are things that come from outside and are used up: a
  line, an entry, a connection, a signal, bytes. Two are not, and the loops that get them may spin:
  \<^verbatim>\<open>recv\<close> with nothing to read yet (C15 shows that it does), and a \<^verbatim>\<open>read\<close> at the end of the pipe, which
  log.c repeats.
\<close>

section \<open>What the outside grants\<close>

text \<open>
  What one event grants: \<^verbatim>\<open>recv\<close> with nothing to read yet (\<^verbatim>\<open>EWOULDBLOCK\<close>, no other failure), or with bytes
  that are thrown away after the answer; one line of \<^verbatim>\<open>file\<close> or of the configuration; one entry of a
  directory; the bytes of the file to send; one option; one connection, and one handler in a forked
  child; one return of \<^verbatim>\<open>select\<close> or one signal; in the logger one wake-up, the bytes of a record as its
  length announces them, a \<^verbatim>\<open>read\<close> at the end of the pipe (0 bytes), and taking a record off the counter.
\<close>

fun granted :: "event \<Rightarrow> nat" where
  "granted (Sys (Net (Recv fd n DontWait)) r) = (if rv r < 0 \<and> errno r = EWOULDBLOCK then 1 else 0)"
| "granted (Sys (Net (Recv fd n WaitAll)) r) = (if rv r > 0 then 1 else 0)"
| "granted (Sys (File (PopenGets n)) r) = (if rv r \<noteq> 0 then 1 else 0)"
| "granted (Sys (File Readdir) r) = (if rv r \<noteq> 0 then 8 else 0)"
| "granted (Sys (File (Fstat fd)) r) = (if rv r = - 1 then 0 else nat (num r))"
| "granted (Sys (File (Fgets n)) r) = (if rv r \<noteq> 0 then 10 else 0)"
| "granted (Sys (Proc Getopt) r) = (if rv r \<noteq> - 1 then 1 else 0)"
| "granted (Sys (Net (Accept fd)) r) = (if rv r \<noteq> - 1 then 4 else 0)"
| "granted (Sys (Proc Fork) r) = (if rv r = 0 then MAX_REQUEST_LEN + 29 else 0)"
| "granted (Sys (Net (Select fd)) r) = (if rv r < 0 \<and> errno r \<noteq> EINTR then 0 else 4)"
| "granted (Sys (Proc Signals) r) = (if rv r \<noteq> 0 then 10 else 0)"
| "granted (Sys (Thread CondWait) r) = (if rv r = 0 then 8 else 0)"
| "granted (Eff (Thread ContDecr)) = 7"
| "granted (Sys (File PipeReadInt) r) = (if rv r = 4 then nat (bytes_int (payload r)) else 0)"
| "granted (Sys (File (PipeRead n)) r) = (if rv r = 0 then 1 else 0)"
| "granted e = 0"

text \<open>The two branches of a call whose reply grants more in one of them.\<close>

lemma within_if_same:
  "(b \<Longrightarrow> within C g n p) \<Longrightarrow> (\<not> b \<Longrightarrow> within C g n q) \<Longrightarrow> within C g n (if b then p else q)"
  by simp

section \<open>Menus\<close>

lemma within_sanitize_path [within_intros]: "within C g 1 (sanitize_path p)"
  unfolding sanitize_path_def
  by (rule within_mono, (rule within_intros)+, simp)

lemma drain_round_pays:
  "runs C (drain_round s) (round_pays granted (\<lambda>_. True) (\<lambda>_. 0) 1 s)"
  unfolding drain_round_def by (intro runs_intros) simp_all

lemma within_drain [within_intros]: "within C granted 1 (loop drain_round s)"
  by (rule drain.within_granted_loop [OF drain_round_pays])

lemma within_type_path [within_intros]: "within C granted 4 (type_path p)"
  unfolding type_path_def
  by (rule within_mono, (rule within_intros)+, simp)

lemma dir_round_pays:
  "runs C (dir_round before c sel s) (round_pays granted (\<lambda>_. True) (\<lambda>_. 0) 1 s)"
  unfolding dir_round_def Let_def
  by (intro runs_if runs_call runs_say runs_exit runs_crash runs_ret runs_bind_within [OF within_type_path] runs_eff)
     auto

lemma within_dir_loop [within_intros]: "within C granted 1 (loop (dir_round before c sel) s)"
  by (rule dir_loop.within_granted_loop [OF dir_round_pays])

lemma within_send_content_of_dir [within_intros]: "within C granted 5 (send_content_of_dir before c sel)"
  unfolding send_content_of_dir_def finish_menu_def Let_def
  by (rule within_mono, (rule within_intros)+, simp)

section \<open>Files\<close>

text \<open>Each \<^verbatim>\<open>send\<close> of the loop puts at least one byte of the file on the wire.\<close>

lemma within_send_loop: "within C granted (1 + c_len_file c) (loop (send_round c) 0)"
proof (rule within_mono, rule send_loop.within_loop [where I = "\<lambda>_. True" and n = 1 and \<Phi> = "\<lambda>n. c_len_file c - n"])
  fix s
  show "runs C (send_round c s) (round_pays granted (\<lambda>_. True) (\<lambda>n. c_len_file c - n) 1 s)"
    unfolding send_round_def by (intro runs_intros) auto
qed simp_all

lemma within_closing_loop [within_intros]: "within C granted 1 (loop (closing_round c) n)"
proof (rule closing_loop.within_granted_loop)
  fix s
  show "runs C (closing_round c s) (round_pays granted (\<lambda>_. True) (\<lambda>_. 0) 1 s)"
    unfolding closing_round_def by (intro runs_intros) auto
qed

lemma within_date_string [within_intros]: "within C g 2 date_string"
  unfolding date_string_def by (rule within_mono, (rule within_intros)+, simp)

lemma within_log_transfer [within_intros]: "within C granted 8 (log_transfer c)"
  unfolding log_transfer_def write_record_def by (rule within_mono, (rule within_intros)+, simp)

lemma within_thread_sender: "within C granted (12 + c_len_file c) (thread_sender c)"
  unfolding thread_sender_def by (rule within_mono, (rule within_intros within_send_loop)+, simp)

lemma within_send_mapped: "within C granted (17 + c_len_file c) (send_mapped fd c)"
  unfolding send_mapped_def by (rule within_mono, (rule within_intros within_thread_sender)+, simp)

lemma within_give_up [within_intros]: "within C granted 1 (give_up fd c)"
  unfolding give_up_def by (rule within_mono, (rule within_intros)+, simp)

text \<open>The size of the file comes from \<^verbatim>\<open>fstat\<close>, whose reply grants as many calls.\<close>

lemma within_mapping:
  "within C granted (18 + n)
     (let c = c\<lparr>c_len_file := n\<rparr> in
      call (File (Mmap fd (int (c_len_file c)))) (\<lambda>m.
      if rv m = - 1 then say ERROR (msg c) (args c m) (give_up fd c)
      else send_mapped fd (c\<lparr>c_file_to_send := payload m\<rparr>)))"
proof -
  have send: "within C granted (17 + n) (send_mapped fd (c\<lparr>c_len_file := n, c_file_to_send := s\<rparr>))" for s
    using within_send_mapped [where c = "c\<lparr>c_len_file := n, c_file_to_send := s\<rparr>"] by simp
  show ?thesis
    unfolding Let_def by (rule within_mono, (rule within_intros send)+, simp)
qed

lemma within_load_file [within_intros]: "within C granted 21 (load_file_memory_and_send c)"
proof -
  have size: "within C granted 19 (call (File (Fstat fd)) (\<lambda>stat_fd.
         if rv stat_fd = - 1 then
           say ERROR (''fstat() failed on %s request, becouse: %s'' @ [LF]) [AS (c_addr c), AE (errno stat_fd)]
           (give_up fd c)
         else
           let c = c\<lparr>c_len_file := nat (num stat_fd)\<rparr> in
           call (File (Mmap fd (int (c_len_file c)))) (\<lambda>m.
           if rv m = - 1 then
             say ERROR (''mmap() failed on %s request, becouse: %s'' @ [LF]) [AS (c_addr c), AE (errno m)]
             (give_up fd c)
           else send_mapped fd (c\<lparr>c_file_to_send := payload m\<rparr>))))" for fd
    by (rule within_mono, rule within_call_granted [where n = 18], rule within_if_same)
       ((rule within_mono, (rule within_say within_give_up within_mapping)+, simp)+, simp)
  show ?thesis
    unfolding load_file_memory_and_send_def
    by (rule within_mono, (rule size within_intros)+, simp)
qed

section \<open>Requests\<close>

text \<open>Every \<^verbatim>\<open>recv\<close> that brings something fills the buffer; one that brings nothing is granted.\<close>

lemma scan_not_found: "scan i n buf = (False, j, b) \<Longrightarrow> i \<le> n \<Longrightarrow> j = n"
proof (induction i n buf rule: scan.induct)
  case (1 i n buf)
  from "1.prems" show ?case
    by (subst (asm) scan.simps) (auto split: if_splits intro: "1.IH")
qed

lemma within_receive_loop:
  assumes "\<And>n r. rv r < 0 \<Longrightarrow> errno r = again \<Longrightarrow> 1 \<le> g (Sys (Net (Recv sd n fl)) r)"
  shows "within C g (1 + buflen) (loop (receive_round fl again failed arg sd buflen) (0, 0, buf))"
proof (rule within_mono, rule read_loop.within_loop [where I = "\<lambda>(n, i, b). n = i" and n = 1 and \<Phi> = "\<lambda>(n, i, b). buflen - i"])
  fix s :: "nat \<times> nat \<times> string"
  assume "case s of (n, i, b) \<Rightarrow> n = i"
  then obtain i b where s: "s = (i, i, b)" by auto
  have again: "Suc (buflen - k) \<le> buflen + g (Sys (Net (Recv sd (buflen - k) fl)) r) - k"
    if "\<not> 0 < rv r" "rv r \<noteq> 0" "errno r = again" "\<not> buflen \<le> k" for r k
    using that assms [of r "buflen - k"] by linarith
  show "runs C (receive_round fl again failed arg sd buflen s)
      (round_pays g (\<lambda>(n, i, b). n = i) (\<lambda>(n, i, b). buflen - i) 1 s)"
    unfolding receive_round_def s Let_def prod.case
    by (intro runs_if runs_call runs_say runs_ret runs_case_prod)
       (use again in \<open>auto dest: scan_not_found\<close>)
qed simp_all

lemma within_receive_request:
  assumes "\<And>n r. rv r < 0 \<Longrightarrow> errno r = again \<Longrightarrow> 1 \<le> g (Sys (Net (Recv sd n fl)) r)"
  shows "within C g (2 + n) (receive_request fl again failed no_memory arg sd buf n)"
proof -
  have loop: "within C g (1 + n) (loop (receive_round fl again failed arg sd n) (0, 0, buf))"
    by (rule within_receive_loop) (rule assms)
  show ?thesis
    unfolding receive_request_def by (rule within_mono, (rule loop within_intros)+, simp)
qed

lemma within_read_request [within_intros]: "within C granted (2 + n) (read_request sd buf n)"
  unfolding read_request_receives by (rule within_receive_request) simp

lemma within_farewell [within_intros]: "within C g 0 (close_socket_kill_child c n)"
  unfolding close_socket_kill_child_def free_client_args_def close_socket_def kill_thread_def
  by (rule within_mono, (rule within_intros)+, simp)

lemma within_serve [within_intros]: "within C granted 26 (serve before c input)"
  unfolding serve_def answer_def
  by (rule within_mono, (rule within_intros)+, simp)

lemma within_management_function [within_intros]:
  "within C granted (MAX_REQUEST_LEN + 29) (management_function c)"
  unfolding management_function_def
  by (rule within_mono, (rule within_intros)+, simp)

section \<open>Connections\<close>

lemma within_thread_management [within_intros]: "within C granted 2 (thread_management c)"
  unfolding thread_management_def print_client_args_def
  by (rule within_mono, (rule within_intros)+, simp)

text \<open>The forked child goes on as a handler, which its \<^verbatim>\<open>fork\<close> grants.\<close>

lemma within_process_management [within_intros]: "within C granted 1 (process_management c)"
proof -
  have "within C granted (granted (Sys (Proc Fork) pid))
     (if rv pid < 0 then say ERROR ''fork for management the connection failed'' [] (ret False)
      else if rv pid = 0 then bind (management_function c) (\<lambda>_. exit 1)
      else eff (File (CloseFd (c_socket c))) (eff (Mem (Free ''client_info'')) (ret False)))" for pid
  proof (cases "rv pid = 0")
    case True
    then show ?thesis
      by (simp, intro within_mono [OF within_bind [OF within_management_function within_exit]]) simp
  next
    case False
    then show ?thesis by (auto intro: within_intros)
  qed
  then show ?thesis
    unfolding process_management_def One_nat_def by (intro within_call_granted) simp
qed

lemma accept_round_pays:
  "runs C (accept_round st u) (round_pays granted (\<lambda>_. True) (\<lambda>_. 0) 2 u)"
  unfolding accept_round_def free_client_args_def Let_def
  by (intro runs_if runs_call runs_say runs_exit runs_ret runs_eff
      runs_bind_within [OF within_thread_management] runs_bind_within [OF within_process_management])
     auto

lemma within_accept_wrapper [within_intros]: "within C granted 2 (accept_wrapper st)"
  unfolding accept_wrapper_def by (rule accept_loop.within_granted_loop [OF accept_round_pays])

text \<open>One return of \<^verbatim>\<open>select\<close> grants what the round after it needs, with its own pseudo call.\<close>

lemma within_listen_descriptor:
  "runs C (listen_descriptor st) (\<lambda>out es. ((\<forall>a. out \<noteq> Ret a) \<and> calls es \<le> 1) \<or> Suc (calls es) \<le> paid granted es)"
  unfolding listen_descriptor_def
  by (intro runs_if runs_call runs_say runs_exit runs_ret runs_bind_within [OF within_accept_wrapper])
     auto

section \<open>The configuration file\<close>

lemma within_do_regex [within_intros]: "within C granted 2 (do_regex p l)"
  unfolding do_regex_def by (rule within_mono, (rule within_intros)+, simp)

lemma within_use_line [within_intros]: "within C granted 9 (use_line h pc st l)"
  unfolding use_line_def read_conf_line_def read_conf_mode_def read_conf_homedir_def read_conf_hostname_def
    check_if_port_change_def Let_def
  by (rule within_mono, (rule within_intros)+, simp)

lemma conf_round_pays:
  "runs C (conf_round h s) (round_pays granted (\<lambda>_. True) (\<lambda>_. 0) 1 s)"
  unfolding conf_round_def Let_def
  by (intro runs_case_prod runs_if runs_call runs_say runs_say_if runs_exit runs_ret runs_crash
      runs_within [OF within_use_line])
     (auto intro: round_pays_granted)

lemma within_conf_loop [within_intros]: "within C granted 1 (loop (conf_round h) s)"
  by (rule conf_loop.within_granted_loop [OF conf_round_pays])

lemma within_read_and_check_conf [within_intros]: "within C granted 2 (read_and_check_conf st h)"
  unfolding read_and_check_conf_def by (rule within_mono, (rule within_intros)+, simp)

section \<open>The logger\<close>

lemma within_log_management_exit [within_intros]: "within C granted 1 (log_management_exit n)"
  unfolding log_management_exit_def by (rule within_mono, (rule within_intros)+, simp)

lemma log_management_exit_ends:
  "runs C (log_management_exit n) (\<lambda>out es. (\<forall>a. out \<noteq> Ret a) \<and> calls es \<le> 1)"
  unfolding log_management_exit_def by (intro runs_intros) simp_all

text \<open>Each \<^verbatim>\<open>read\<close> of the body brings at least one byte of the record; one that brings none is granted.\<close>

lemma within_body_loop: "within pipe_os granted (2 + nat n) (loop (body_round n) [])"
proof (rule within_mono, rule body_loop.within_loop [where I = "\<lambda>_. True" and n = 2 and \<Phi> = "\<lambda>s. nat n - length s"])
  fix s :: string
  have more: "Suc (nat n - (length s + length (payload r))) \<le> nat n - length s"
    if "pipe_os (File (PipeRead k)) r" "0 \<le> rv r" "rv r \<noteq> 0" "int (length s) < n" for r k
    using that by (auto simp: pipe_os_def nat_less_iff)
  show "runs pipe_os (body_round n s) (round_pays granted (\<lambda>_. True) (\<lambda>s. nat n - length s) 2 s)"
    unfolding body_round_def
    by (intro runs_if runs_call runs_say runs_ret runs_weaken [OF log_management_exit_ends])
       (use more in \<open>auto simp: pipe_os_def\<close>)
qed simp_all

text \<open>The length of the record comes from the pipe too, and grants the bytes of its body.\<close>

lemma within_body:
  "within pipe_os granted (5 + nat n)
     (say INFO ''Log file received %d bytes'' [AI n]
      (call (File (FopenAppend SACAGAWEALOGS_PATH)) (\<lambda>log.
       if rv log = 0 then say INFO ''ERROR open logs file: %s'' [AE (errno log)] (log_management_exit 1)
       else
         call (Mem (Malloc ''read_line'' (n + 1))) (\<lambda>m.
         if rv m = 0 then
           say ERROR ''Malloc on logProcess failed becouse: %s'' [AE (errno m)]
           (eff (File Fclose) (log_management_exit 1))
         else
           bind (loop (body_round n) []) (\<lambda>read_line.
           if n < 0 then crash ''read_line[len_string] before the buffer''
           else
             say INFO ''received: %d, %s'' [AI n, AS (cstr read_line)]
             (eff (File (Fprintf (cstr read_line)))
             (eff (File Fclose) (eff (Mem (Free ''read_line'')) (ret n)))))))))"
  by (rule within_mono, (rule within_body_loop within_intros)+, simp)

lemma within_read_record [within_intros]: "within pipe_os granted 6 (read_record n)"
proof -
  have "within pipe_os granted (5 + granted (Sys (File PipeReadInt) r))
     (if rv r < 0 then
       say ERROR ''read on log process failed becouse %s'' [AE (errno r)] (log_management_exit 1)
     else
       let len_string = bytes_int (payload r @ drop (length (payload r)) (int_bytes n)) in
       say INFO ''Log file received %d bytes'' [AI len_string]
       (call (File (FopenAppend SACAGAWEALOGS_PATH)) (\<lambda>log.
        if rv log = 0 then say INFO ''ERROR open logs file: %s'' [AE (errno log)] (log_management_exit 1)
        else
          call (Mem (Malloc ''read_line'' (len_string + 1))) (\<lambda>m.
          if rv m = 0 then
            say ERROR ''Malloc on logProcess failed becouse: %s'' [AE (errno m)]
            (eff (File Fclose) (log_management_exit 1))
          else
            bind (loop (body_round len_string) []) (\<lambda>read_line.
            if len_string < 0 then crash ''read_line[len_string] before the buffer''
            else
              say INFO ''received: %d, %s'' [AI len_string, AS (cstr read_line)]
              (eff (File (Fprintf (cstr read_line)))
              (eff (File Fclose) (eff (Mem (Free ''read_line'')) (ret len_string)))))))))"
    if "pipe_os (File PipeReadInt) r" for r
  proof (cases "rv r < 0")
    case True
    then show ?thesis by (simp, intro within_mono [OF within_say [OF within_log_management_exit]]) simp
  next
    case False
    with that have "rv r = 4" "length (payload r) = 4" by (auto simp: pipe_os_def)
    with within_body [of "bytes_int (payload r)"] False show ?thesis by (simp add: Let_def)
  qed
  then show ?thesis
    unfolding read_record_def by (rule within_mono [OF within_call_granted]) simp_all
qed

text \<open>A round of the inner loop takes one record off the counter, which grants its other calls.\<close>

lemma cont_round_pays:
  "runs pipe_os (cont_round n) (round_pays granted (\<lambda>_. True) (\<lambda>_. 0) 7 n)"
  unfolding cont_round_def
  by (intro runs_if runs_call runs_ret runs_bind_within [OF within_read_record] runs_eff) auto

lemma within_cont_loop [within_intros]: "within pipe_os granted 7 (loop cont_round n)"
  by (rule cont_loop.within_granted_loop [OF cont_round_pays])

lemma wait_round_pays:
  "runs pipe_os (wait_round n) (round_pays granted (\<lambda>_. True) (\<lambda>_. 0) 2 n)"
  unfolding wait_round_def
  by (intro runs_if runs_call runs_say runs_ret runs_bind_within [OF within_cont_loop]
      runs_weaken [OF log_management_exit_ends])
     auto

lemma within_log_management [within_intros]: "within pipe_os granted 3 (log_management n)"
  unfolding log_management_def
  by (rule within_mono, (rule within_intros wait_loop.within_granted_loop [OF wait_round_pays])+, simp)

section \<open>The server\<close>

lemma within_open_socket [within_intros]: "within C granted 6 (open_socket st)"
  unfolding open_socket_def Let_def by (rule within_mono, (rule within_intros)+, simp)

lemma within_close_all [within_intros]: "within C granted 5 (close_all g)"
  unfolding close_all_def by (rule within_mono, (rule within_intros)+, simp)

lemma within_universal_handler [within_intros]: "within C granted 9 (universal_handler st)"
  unfolding universal_handler_def by (rule within_mono, (rule within_intros)+, simp)

lemma server_round_pays:
  "runs C (server_round g st) (round_pays granted (\<lambda>_. True) (\<lambda>_. 0) 2 st)"
proof -
  have listen: "runs C (bind (listen_descriptor st) (\<lambda>go. if go then ret (Inl st) else ret (Inr st)))
      (\<lambda>out es. round_pays granted (\<lambda>_. True) (\<lambda>_. 0) 2 st out (Sys (Proc Signals) r # es))" if "rv r = 0" for r
  proof (rule runs_bind_weaken [OF within_listen_descriptor], goal_cases)
    case (1 out es)
    then show ?case by (cases out) (use that in \<open>auto intro!: runs_intros\<close>)
  qed
  show ?thesis
    unfolding server_round_def sighup_handler_def
    by (intro runs_call runs_if runs_ret listen runs_bind_within [OF within_universal_handler] runs_within [OF within_close_all])
       (auto intro: round_pays_granted)
qed

lemma within_server_loop [within_intros]: "within C granted 2 (loop (server_round g) st)"
  by (rule server_loop.within_granted_loop [OF server_round_pays])

lemma within_serve_clients [within_intros]: "within C granted 13 (serve_clients g st)"
  unfolding serve_clients_def by (rule within_mono, (rule within_intros)+, simp)

lemma within_need [within_intros]:
  "(\<And>r. C c r \<Longrightarrow> within C g n (abandon r)) \<Longrightarrow> within C g m p \<Longrightarrow>
   within C g (Suc (max n m)) (need c failed abandon p)"
  unfolding need_def by (intro within_intros)

lemma within_option_loop [within_intros]: "within C granted 1 (loop option_round s)"
proof (rule option_loop.within_granted_loop)
  fix s
  show "runs C (option_round s) (round_pays granted (\<lambda>_. True) (\<lambda>_. 0) 1 s)"
    unfolding option_round_def Let_def
    by (intro runs_case_prod runs_call runs_if runs_say runs_ret runs_exit) auto
qed

lemma within_become_daemon [within_intros]: "within C granted 20 become_daemon"
  unfolding become_daemon_def by (rule within_mono, (rule within_intros)+, simp)

lemma within_default_settings [within_intros]: "within C granted 8 default_settings"
  unfolding default_settings_def Let_def by (rule within_mono, (rule within_intros)+, simp)

lemma within_shared_memory [within_intros]: "within C granted 10 shared_memory"
  unfolding shared_memory_def by (rule within_mono, (rule within_intros)+, simp)

lemma within_start_logger [within_intros]: "within pipe_os granted 7 (start_logger garbage st)"
  unfolding start_logger_def Let_def by (rule within_mono, (rule within_intros)+, simp)

lemma within_install_signals [within_intros]: "within C granted 30 (install_signals g)"
  unfolding install_signals_def add_signals_def set_action_def foldr.simps comp_def id_def prod.case
  by (rule within_mono, (rule within_intros)+, simp)

lemma within_main: "within pipe_os granted 100 (main garbage)"
  unfolding main_def read_options_def by (rule within_mono, (rule within_intros)+, simp)

section \<open>A client that says nothing\<close>

text \<open>The kernel for a client that is connected and sends nothing: every call but \<^verbatim>\<open>recv\<close> succeeds.\<close>

definition silence :: reply where
  "silence = (plain_reply (- 1))\<lparr>errno := EWOULDBLOCK\<rparr>"

definition silent_os :: os where
  "silent_os h x = (case x of Net (Recv fd n f) \<Rightarrow> silence | _ \<Rightarrow> plain_reply 1)"

lemma silent_os_simps [simp]:
  "silent_os h (Net (Recv fd n f)) = silence" "silent_os h (Mem m) = plain_reply 1"
  "rv silence = - 1" "errno silence = EWOULDBLOCK" "rv (plain_reply k) = k"
  by (simp_all add: silent_os_def silence_def plain_reply_def)

text \<open>The loop asks again at once, as often as the budget allows.\<close>

lemma silent_read_loop:
  assumes "0 < n"
  shows "loop (receive_round fl EWOULDBLOCK failed arg sd n) (0, 0, buf) silent_os w =
    (Blocked, w\<lparr>trace := trace w @ replicate (budget w) (Sys (Net (Recv sd n fl)) silence), budget := 0\<rparr>)"
proof (induction "budget w" arbitrary: w)
  case 0
  then show ?case
    using assms by (subst read_loop.unfold) (simp add: receive_round_def call_def bind_def)
next
  case (Suc b)
  let ?e = "Sys (Net (Recv sd n fl)) silence"
  let ?w = "(emit ?e w)\<lparr>budget := b\<rparr>"
  have "receive_round fl EWOULDBLOCK failed arg sd n (0, 0, buf) silent_os w = (Ret (Inl (0, 0, buf)), ?w)"
    using assms Suc.hyps(2) by (simp add: receive_round_def call_def ret_def flip: Suc.hyps(2))
  moreover from Suc.hyps(1) [of ?w]
  have "loop (receive_round fl EWOULDBLOCK failed arg sd n) (0, 0, buf) silent_os ?w =
      (Blocked, ?w\<lparr>trace := trace ?w @ replicate b ?e, budget := 0\<rparr>)" by simp
  ultimately show ?case
    by (subst read_loop.unfold) (simp add: bind_def emit_def flip: Suc.hyps(2))
qed

section \<open>Properties\<close>

text \<open>
  C13: a handler ends, in one of the ways it may, unless its client or the file system go on for ever. Its
  calls are bounded by a constant and what the replies grant: one for every \<^verbatim>\<open>recv\<close> that fails with
  \<^verbatim>\<open>EWOULDBLOCK\<close>, because a silent client is asked again, and none for any other failure of \<^verbatim>\<open>recv\<close>; one for
  every \<^verbatim>\<open>recv\<close> of bytes that are thrown away after the answer, one for every byte of the file, eight for
  every entry of the directory, one for every line of \<^verbatim>\<open>file\<close>. With a larger budget it is not \<open>Blocked\<close>.
\<close>

theorem handler_ends_with_its_client:
  assumes "settings_inv (c_settings c)" and os: "\<And>h x. posix_os x (os h x)"
    and run: "management_function c os w = (out, w')" "trace w' = trace w @ es"
    and budget: "MAX_REQUEST_LEN + 29 + paid granted es < budget w"
  shows "(out = ThreadExit \<and> mode (c_settings c) = CHR ''t'' \<and>
      suffix [Eff (Mem (Free ''path_file'')), Eff (Mem (Free ''c'')), Eff (File (CloseFd (c_socket c))),
        Log DEBUG ''Closed socket %lld'' [AI (c_socket c)]] es) \<or>
    (\<exists>n. out = Exit n \<and> (n \<in> {1, 5} \<or> n = 0 \<and> mode (c_settings c) = CHR ''p'')) \<or>
    (\<exists>m. out = Crash m \<and> m \<in> {''strlen(response) of the null pointer'', ''input used after realloc moved it''})"
proof -
  have mode: "mode_ok (mode (c_settings c))" and "ends_in_slash (home (c_settings c))"
    using assms(1) by (simp_all add: settings_inv_def homedir_ok_def)
  then have "home (c_settings c) \<noteq> []" by (auto simp: ends_in_slash_def)
  from runsD [OF runs_conj [OF runs_management_function [OF this] within_management_function [unfolded within_def]] os]
  have "ran w (out, w') (\<lambda>out es. handled c out es \<and> calls es \<le> MAX_REQUEST_LEN + 29 + paid granted es)"
    by (simp flip: run(1))
  then have "handled c out es" "calls es \<le> MAX_REQUEST_LEN + 29 + paid granted es" "out = Blocked \<longrightarrow> calls es = budget w"
    using run(2) by (auto simp: ran_def)
  with budget mode show ?thesis
    by (cases out) (auto simp: handled_def handler_end_def farewell_def mode_ok_def)
qed

text \<open>A client that closes its connection without a request.\<close>

definition hang_up_os :: os where
  "hang_up_os h x = (case x of Mem m \<Rightarrow> plain_reply 1 | File (Mmap f n) \<Rightarrow> plain_reply (- 1)
     | File (PipeRead n) \<Rightarrow> plain_reply (min n 0) | _ \<Rightarrow> plain_reply 0)"

lemma hang_up_os_posix: "posix_os x (hang_up_os h x)"
  by (cases "(x, hang_up_os h x)" rule: posix_os.cases) (auto simp: hang_up_os_def plain_reply_def)

lemma hang_up_request:
  assumes "0 < n" "0 < budget w"
  shows "loop (receive_round fl again failed arg sd n) (0, 0, buf) hang_up_os w =
    (Ret None, w\<lparr>trace := trace w @ [Sys (Net (Recv sd n fl)) (plain_reply 0), Log DEBUG ''Connection closed %lld'' [AI sd]],
       budget := budget w - 1\<rparr>)"
  using assms
  by (subst read_loop.unfold) (simp add: receive_round_def call_def bind_def say_def ret_def emit_def hang_up_os_def plain_reply_def)

theorem handler_ends_with_its_client_witness:
  "settings_inv (c_settings example_client) \<and>
   fst (management_function example_client hang_up_os \<lparr>trace = [], budget = MAX_REQUEST_LEN + 30\<rparr>) \<noteq> Blocked"
proof -
  have inv: "settings_inv (c_settings example_client)"
    by (simp add: example_client_def example_settings_inv)
  let ?w = "\<lparr>trace = [], budget = MAX_REQUEST_LEN + 30\<rparr>"
  obtain out w' where run: "management_function example_client hang_up_os ?w = (out, w')" by fastforce
  have "0 < MAX_REQUEST_LEN - length (home (c_settings example_client))"
    using home_length [of "homedir (c_settings example_client)"] inv by (simp add: settings_inv_def const_defs)
  with run have "paid granted (trace w') = 0"
    by (auto simp: management_function_def Let_def call_def read_request_receives receive_request_def bind_def
        hang_up_request emit_def hang_up_os_def plain_reply_def close_socket_kill_child_def free_client_args_def
        close_socket_def kill_thread_def run_defs split: if_splits)
  with handler_ends_with_its_client [OF inv hang_up_os_posix run, of "trace w'"] run inv show ?thesis by auto
qed

text \<open>
  C15: the bound of the grants is needed: a client that connects and says nothing keeps its handler
  busy for ever. The handler does not sleep but asks again at once: after its allocation, every call it
  makes is a \<^verbatim>\<open>recv\<close> that returns at once with \<^verbatim>\<open>EWOULDBLOCK\<close>, for every budget, and no time limit ends it.
\<close>

theorem silent_client_is_polled_for_ever:
  assumes "settings_inv (c_settings c)"
  shows "fst (management_function c silent_os \<lparr>trace = [], budget = Suc n\<rparr>) = Blocked \<and>
    trace (snd (management_function c silent_os \<lparr>trace = [], budget = Suc n\<rparr>)) =
      Sys (Mem (Malloc ''input'' (int (MAX_REQUEST_LEN - length (home (c_settings c)))))) (plain_reply 1) #
      replicate n (Sys (Net (Recv (c_socket c) (MAX_REQUEST_LEN - length (home (c_settings c))) DontWait)) silence)"
proof -
  have "0 < MAX_REQUEST_LEN - length (home (c_settings c))"
    using home_length [of "homedir (c_settings c)"] assms by (simp add: settings_inv_def const_defs)
  then show ?thesis
    by (simp add: management_function_def Let_def call_def read_request_receives receive_request_def bind_def
        silent_read_loop emit_def)
qed

theorem silent_client_is_polled_for_ever_witness:
  "settings_inv (c_settings example_client) \<and>
   fst (management_function example_client silent_os \<lparr>trace = [], budget = Suc 999\<rparr>) = Blocked"
proof -
  have inv: "settings_inv (c_settings example_client)"
    by (simp add: example_client_def example_settings_inv)
  with silent_client_is_polled_for_ever [OF inv, of 999] show ?thesis by blast
qed


end
