(* ===== verification/Win_Bounded.thy ===== *)
theory Win_Bounded
  imports Bounded Win_Server Win_Logger
begin

text \<open>
  How long the programs of the Win32 build run, with the rules of Progress and what Bounded shows
  of the functions that both builds share. No handler runs inside the server here: a thread and a
  process start with the call that creates them.
\<close>

section \<open>What the outside grants\<close>

text \<open>
  As in the Linux build. A \<^verbatim>\<open>recv\<close> with nothing to read yet fails with \<^verbatim>\<open>WSAEWOULDBLOCK\<close>; bytes that are thrown
  away after the answer are those of a \<^verbatim>\<open>recv\<close> into the 512 bytes of \<^verbatim>\<open>thread_sender\<close>. The view of a page and
  its \<^verbatim>\<open>send\<close> and the end of the view are three calls for at least one byte of the file; only a \<^verbatim>\<open>send\<close> that
  takes nothing and does not fail is tried again. The logger is woken by a message.
\<close>

fun granted_win32 :: "event \<Rightarrow> nat" where
  "granted_win32 (Sys (Net (Recv fd n NoFlags)) r) =
     (if (rv r < 0 \<and> errno r = WSAEWOULDBLOCK) \<or> (rv r > 0 \<and> n = 512) then 1 else 0)"
| "granted_win32 (Sys (Net (Send fd s)) r) = (if rv r \<le> 0 \<and> rv r \<noteq> SOCKET_ERROR then 3 else 0)"
| "granted_win32 (Sys (Win (GetFileSizeEx f)) r) = (if rv r = 0 then 0 else 3 * nat (num r))"
| "granted_win32 (Sys (File Readdir) r) = (if rv r \<noteq> 0 then 4 else 0)"
| "granted_win32 (Sys (File (Fgets n)) r) = (if rv r \<noteq> 0 then 14 else 0)"
| "granted_win32 (Sys (Proc Getopt) r) = (if rv r \<noteq> - 1 then 1 else 0)"
| "granted_win32 (Sys (Net (Accept fd)) r) = (if rv r \<noteq> - 1 then 10 else 0)"
| "granted_win32 (Sys (Net (Select fd)) r) = 4"
| "granted_win32 (Sys (Proc Signals) r) = (if rv r \<noteq> 0 then 14 else 0)"
| "granted_win32 (Sys (Win (WaitForMultipleObjects n)) r) = 8"
| "granted_win32 e = 0"

section \<open>The handler\<close>

lemma within_send_loop_win32: "within C granted_win32 (3 + 3 * c_len_file c) (loop (send_round_win32 page h c) 0)"
proof (rule within_mono, rule pages_loop.within_loop [where I = "\<lambda>_. True" and n = 3 and \<Phi> = "\<lambda>n. 3 * (c_len_file c - n)"])
  fix s
  have more: "Suc (Suc (Suc (3 * (c_len_file c - (s + nat (rv r)))))) \<le> 3 * (c_len_file c - s)"
    if "s < c_len_file c" "0 < rv r" for r
    using that by (simp add: nat_less_iff)
  show "runs C (send_round_win32 page h c s) (round_pays granted_win32 (\<lambda>_. True) (\<lambda>n. 3 * (c_len_file c - n)) 3 s)"
    unfolding send_round_win32_def unmap_view_def Let_def
    by (intro runs_intros) (use more in \<open>auto simp: SOCKET_ERROR_def\<close>)
qed simp_all

lemma within_closing_loop_win32 [within_intros]: "within C granted_win32 1 (loop (closing_round_win32 c) b)"
proof (rule closing_win32_loop.within_granted_loop)
  fix s
  show "runs C (closing_round_win32 c s) (round_pays granted_win32 (\<lambda>_. True) (\<lambda>_. 0) 1 s)"
    unfolding closing_round_win32_def Let_def by (intro runs_intros) auto
qed

lemma within_thread_sender_win32: "within C granted_win32 (15 + 3 * c_len_file c) (thread_sender_win32 garbage h c)"
  unfolding thread_sender_win32_def log_transfer_win32_def write_message_def
  by (rule within_mono, (rule within_intros within_send_loop_win32)+, simp)

lemma within_finish_transfer [within_intros]: "within C granted_win32 3 (finish_transfer c)"
  unfolding finish_transfer_def by (rule within_mono, (rule within_intros)+, simp)

lemma within_mapping_win32:
  "within C granted_win32 (21 + 3 * n)
     (let c = c\<lparr>c_len_file := n\<rparr> in
      say DEBUG msg (args c)
      (call (Win (CreateFileMapping h (int (c_len_file c)))) (\<lambda>hMapFile.
       if rv hMapFile = 0 then
         say ERROR ''CreateFileMappingA failed wirh error: %d'' [AI (errno hMapFile)] (ret (False, c))
       else
         say DEBUG ''CreateFileMappingA on %d'' [AI (rv hMapFile)]
         (call (Win (StartThread ''thread_sender'' c)) (\<lambda>tHandle.
          if rv tHandle = 0 then
            say ERROR ''CreateThread sender failed wirh error: %d'' [AI (errno tHandle)] (ret (False, c))
          else
            call (Win (CloseHandle ''hFile'')) (\<lambda>r.
            if rv r = 0 then say ERROR ''Close hFile failed wirh error: %d'' [AI (errno r)] (ret (False, c))
            else
              in_thread (thread_sender_win32 garbage (rv hMapFile) c)
              (finish_transfer c)))))))"
proof -
  have "within C granted_win32 (15 + 3 * n) (thread_sender_win32 garbage h (c\<lparr>c_len_file := n\<rparr>))" for h
    using within_thread_sender_win32 [where c = "c\<lparr>c_len_file := n\<rparr>"] by simp
  note sender = this
  show ?thesis
    unfolding Let_def by (rule within_mono, (rule within_intros sender)+, simp)
qed

lemma within_load_file_win32 [within_intros]: "within C granted_win32 23 (load_file_memory_and_send_win32 garbage c)"
  unfolding load_file_memory_and_send_win32_def
  by (rule within_mono, rule within_call, rule within_if, rule within_say, rule within_ret,
      rule within_call_granted [where n = 21], rule within_if_same)
     ((rule within_mono, (rule within_say within_ret within_mapping_win32)+, simp)+, simp)

lemma within_type_on [within_intros]: "within C g 0 (type_on P p)"
  unfolding type_path_win32_def Let_def
  by (rule within_mono, (rule within_intros)+, simp)

lemma dir_round_win32_pays:
  "runs C (dir_round_win32 P before c sel s) (round_pays granted_win32 (\<lambda>_. True) (\<lambda>_. 0) 1 s)"
  unfolding dir_round_win32_def Let_def
  by (intro runs_if runs_call runs_say runs_exit runs_crash runs_ret runs_bind_within [OF within_type_on [where g = granted_win32]] runs_eff) auto

lemma within_dir_loop_win32 [within_intros]: "within C granted_win32 1 (loop (dir_round_win32 P before c sel) s)"
  by (rule dir_win32_loop.within_granted_loop [OF dir_round_win32_pays])

lemma within_send_content_of_dir_win32 [within_intros]:
  "within C granted_win32 5 (send_content_of_dir_win32 P before c sel)"
  unfolding send_content_of_dir_win32_def finish_menu_win32_def Let_def
  by (rule within_mono, (rule within_intros)+, simp)

lemma within_read_request_win32 [within_intros]: "within C granted_win32 (2 + n) (read_request_win32 sd buf n)"
  unfolding read_request_win32_receives by (rule within_receive_request) simp

lemma within_farewell_win32 [within_intros]: "within C g 0 (close_socket_kill_child_win32 allocated c n)"
  unfolding close_socket_kill_child_win32_def free_client_args_win32_def close_socket_win32_def kill_thread_def
  by (rule within_mono, (rule within_intros)+, simp)

lemma within_serve_win32 [within_intros]: "within C granted_win32 24 (serve_win32 P garbage allocated before c input)"
  unfolding serve_win32_def answer_win32_def
  by (rule within_mono, (rule within_intros)+, simp)

lemma within_management_function_win32 [within_intros]:
  "within C granted_win32 (MAX_REQUEST_LEN + 28) (management_function_win32 P garbage allocated c)"
  unfolding management_function_win32_def
  by (rule within_mono, (rule within_intros)+, simp)

lemma within_release [within_intros]: "within C g n p \<Longrightarrow> within C g (Suc n) (release handle msg p)"
  unfolding release_def by (rule within_call, rule within_say_if)

lemma within_mp_main:
  "within C granted_win32 (MAX_REQUEST_LEN + 32) (mp_main shared P garbage argv)"
proof (cases "\<exists>a b rest. argv = a # b # rest")
  case True
  then obtain a b rest where "argv = a # b # rest" by blast
  then show ?thesis
    by (simp add: mp_main_def) (rule within_mono, (rule within_intros)+, simp)
next
  case False
  then have "mp_main shared P garbage argv = crash ''strtoll of the null pointer''"
    unfolding mp_main_def by (auto split: list.splits)
  then show ?thesis by (simp add: within_mono [OF within_crash])
qed

section \<open>The server\<close>

lemma within_thread_management_win32 [within_intros]: "within C g 2 (thread_management_win32 c)"
  unfolding thread_management_win32_def print_client_args_def
  by (rule within_mono, (rule within_intros)+, simp)

lemma within_process_management_win32 [within_intros]: "within C g 7 (process_management_win32 c)"
  unfolding process_management_win32_def Let_def
  by (rule within_mono, (rule within_intros)+, simp)

lemma within_closesocket [within_intros]: "within C g n p \<Longrightarrow> within C g (Suc n) (closesocket s p)"
  unfolding closesocket_def by (rule within_call, rule within_say_if)

lemma within_wsa_cleanup [within_intros]: "within C g n p \<Longrightarrow> within C g (Suc n) (wsa_cleanup p)"
  unfolding wsa_cleanup_def by (rule within_call, rule within_say_if)

lemma accept_round_win32_pays:
  "runs C (accept_round_win32 st u) (round_pays granted_win32 (\<lambda>_. True) (\<lambda>_. 0) 2 u)"
  unfolding accept_round_win32_def free_client_args_def closesocket_def Let_def
  by (intro runs_if runs_call runs_say runs_say_if runs_exit runs_ret runs_eff
      runs_bind_within [OF within_thread_management_win32 [where g = granted_win32]] runs_bind_within [OF within_process_management_win32 [where g = granted_win32]])
     auto

lemma within_accept_wrapper_win32 [within_intros]: "within C granted_win32 2 (accept_wrapper_win32 st)"
  unfolding accept_wrapper_win32_def by (rule accept_win32_loop.within_granted_loop [OF accept_round_win32_pays])

lemma within_listen_descriptor_win32:
  "runs C (listen_descriptor_win32 st) (\<lambda>out es. (out = Blocked \<and> calls es = 0) \<or> Suc (calls es) \<le> paid granted_win32 es)"
  unfolding listen_descriptor_win32_def
  by (intro runs_if runs_call runs_say runs_exit runs_ret runs_bind_within [OF within_accept_wrapper_win32])
     auto

lemma within_do_regex_pcre2 [within_intros]: "within C g 3 (do_regex_pcre2 p l)"
  unfolding do_regex_pcre2_def by (rule within_mono, (rule within_intros)+, simp)

lemma within_use_line_win32 [within_intros]: "within C g 13 (use_line_win32 h pc st l)"
  unfolding use_line_win32_def read_conf_line_win32_def read_conf_mode_win32_def read_conf_homedir_win32_def
    read_conf_hostname_win32_def check_if_port_change_win32_def Let_def
  by (rule within_mono, (rule within_intros)+, simp)

lemma conf_round_win32_pays:
  "runs C (conf_round_win32 h s) (round_pays granted_win32 (\<lambda>_. True) (\<lambda>_. 0) 1 s)"
  unfolding conf_round_win32_def Let_def
  by (intro runs_case_prod runs_if runs_call runs_say runs_say_if runs_exit runs_ret runs_crash
      runs_within [OF within_use_line_win32 [where g = granted_win32]])
     (auto intro: round_pays_granted)

lemma within_conf_loop_win32 [within_intros]: "within C granted_win32 1 (loop (conf_round_win32 h) s)"
  by (rule conf_win32_loop.within_granted_loop [OF conf_round_win32_pays])

lemma within_read_and_check_conf_win32 [within_intros]: "within C granted_win32 2 (read_and_check_conf_win32 st h)"
  unfolding read_and_check_conf_win32_def by (rule within_mono, (rule within_intros)+, simp)

lemma within_open_socket_win32 [within_intros]: "within C g 10 (open_socket_win32 st)"
  unfolding open_socket_win32_def Let_def by (rule within_mono, (rule within_intros)+, simp)

lemma within_close_all_win32 [within_intros]: "within C g 4 (close_all_win32 s)"
  unfolding close_all_win32_def by (rule within_mono, (rule within_intros)+, simp)

lemma within_consoleEventHandler [within_intros]: "within C granted_win32 13 (consoleEventHandler st e)"
  unfolding consoleEventHandler_def universal_handler_win32_def
  by (rule within_mono, (rule within_intros)+, simp)

lemma server_round_win32_pays:
  "runs C (server_round_win32 st) (round_pays granted_win32 (\<lambda>_. True) (\<lambda>_. 0) 1 st)"
proof -
  have listen: "runs C (bind (listen_descriptor_win32 st) (\<lambda>go. if go then ret (Inl st) else ret (Inr st)))
      (\<lambda>out es. round_pays granted_win32 (\<lambda>_. True) (\<lambda>_. 0) 1 st out (Sys (Proc Signals) r # es))" if "rv r = 0" for r
  proof (rule runs_bind_weaken [OF within_listen_descriptor_win32], goal_cases)
    case (1 out es)
    then show ?case by (cases out) (use that in \<open>auto intro!: runs_intros\<close>)
  qed
  show ?thesis
    unfolding server_round_win32_def
    by (intro runs_call runs_if runs_ret runs_case_prod listen runs_bind_within [OF within_consoleEventHandler])
       (auto intro: round_pays_granted)
qed

lemma within_server_loop_win32 [within_intros]: "within C granted_win32 1 (loop server_round_win32 st)"
  by (rule server_win32_loop.within_granted_loop [OF server_round_win32_pays])

lemma within_option_loop_win32 [within_intros]: "within C granted_win32 1 (loop option_round_win32 s)"
proof (rule option_win32_loop.within_granted_loop)
  fix s
  show "runs C (option_round_win32 s) (round_pays granted_win32 (\<lambda>_. True) (\<lambda>_. 0) 1 s)"
    unfolding option_round_win32_def Let_def
    by (intro runs_call runs_if runs_say runs_ret runs_exit) auto
qed

lemma within_default_settings_win32 [within_intros]: "within C g 7 default_settings_win32"
  unfolding default_settings_win32_def Let_def by (rule within_mono, (rule within_intros)+, simp)

lemma within_main_win32: "within C granted_win32 40 main_win32"
  unfolding main_win32_def create_job_win32_def read_options_win32_def start_logger_win32_def serve_clients_win32_def
  by (rule within_mono, (rule within_intros)+, simp)

section \<open>The logger\<close>

lemma within_connect_to_new_client [within_intros]: "within C g 2 (connect_to_new_client i)"
  unfolding connect_to_new_client_def by (rule within_mono, (rule within_intros)+, simp)

lemma within_write_to_log_file [within_intros]: "within C g 3 (write_to_log_file request)"
  unfolding write_to_log_file_def by (rule within_mono, (rule within_intros)+, simp)

lemma within_disconnect_and_reconnect [within_intros]: "within C g 3 (disconnect_and_reconnect i)"
  unfolding disconnect_and_reconnect_def by (rule within_mono, (rule within_intros)+, simp)

lemma message_round_pays:
  "runs C (message_round b) (round_pays granted_win32 (\<lambda>_. True) (\<lambda>_. 0) 1 b)"
  unfolding message_round_def Let_def
  by (intro runs_call runs_if runs_say runs_ret runs_exit
      runs_bind_within [OF within_write_to_log_file [where g = granted_win32]]
      runs_bind_within [OF within_disconnect_and_reconnect [where g = granted_win32]])
     auto

lemma within_open_pipes: "within C g n p \<Longrightarrow> within C g (n + 4 * length is) (open_pipes is p)"
proof (induction "is")
  case (Cons i "is")
  then have "within C g (n + 4 * length is) (open_pipes is p)" by simp
  note rest = this
  show ?case
    unfolding open_pipes.simps by (rule within_mono, (rule rest within_intros)+, simp)
qed simp

lemma within_logger_main: "within C granted_win32 258 logger_main"
proof -
  have "within C granted_win32 1 (loop message_round b)" for b
    by (rule message_loop.within_granted_loop [OF message_round_pays])
  note pipes = within_open_pipes [OF this, of "[0..<WIN32_MAX_PIPES]"]
  show ?thesis
    unfolding logger_main_def
    by (rule within_mono, (rule pipes within_intros)+, simp add: WIN32_MAX_PIPES_def)
qed

section \<open>Properties\<close>

text \<open>
  C25: a handler of the Win32 build ends, in one of the ways it may, unless its client or the file system
  go on for ever: with a larger budget than a constant and what the replies grant it is not \<open>Blocked\<close>. Of the
  failures of \<^verbatim>\<open>recv\<close> only \<^verbatim>\<open>WSAEWOULDBLOCK\<close> grants another call, and of the results of \<^verbatim>\<open>send\<close> only 0 bytes: a
  dead socket is not polled. A thread
  frees its arguments, closes the socket and ends; the process of mp.c, whose arguments are a local variable,
  frees that variable and never ends with code 0. Otherwise a call has failed (code 1 or 5), or the
  handler uses a moved request, lists an empty directory, or prints an error code or an unterminated array as
  a string.
\<close>

theorem win_handler_ends_with_its_client:
  assumes "win_settings_inv (c_settings c)" and os: "\<And>h x. posix_os x (os h x)"
    and run: "management_function_win32 P garbage allocated c os w = (out, w')" "trace w' = trace w @ es"
    and budget: "MAX_REQUEST_LEN + 28 + paid granted_win32 es < budget w"
  shows "(out = ThreadExit \<and> allocated \<and> mode (c_settings c) = CHR ''t'' \<and>
      suffix [Eff (Mem (Free ''path_file'')), Eff (Mem (Free ''c'')), Eff (Win (CloseSocket (c_socket c))),
        Log DEBUG ''Closed socket %lld'' [AI (c_socket c)]] es) \<or>
    (\<exists>n. out = Exit n \<and> (n \<in> {1, 5} \<or> n = 0 \<and> allocated \<and> mode (c_settings c) = CHR ''p'')) \<or>
    (\<exists>m. out = Crash m \<and> (m \<in> {''strlen(response) of the null pointer'', ''input used after realloc moved it'',
        ''error code printed as a string'', ''%s past the end of buff''} \<or>
      \<not> allocated \<and> m = ''free of a local variable''))"
proof -
  have mode: "mode_ok (mode (c_settings c))"
    using assms(1) by (simp add: win_settings_inv_def)
  from runsD [OF runs_conj [OF runs_management_win32 [OF win_home_bounds [OF assms(1)]]
      within_management_function_win32 [unfolded within_def]] os]
  have "ran w (out, w') (\<lambda>out es. win_handler_end allocated c out es \<and>
      calls es \<le> MAX_REQUEST_LEN + 28 + paid granted_win32 es)"
    by (simp flip: run(1))
  then have "win_handler_end allocated c out es" "calls es \<le> MAX_REQUEST_LEN + 28 + paid granted_win32 es"
    "out = Blocked \<longrightarrow> calls es = budget w"
    using run(2) by (auto simp: ran_def)
  with budget mode show ?thesis
    by (cases out) (auto simp: win_handler_end_def win_farewell_def mode_ok_def)
qed

theorem win_handler_ends_with_its_client_witness:
  "win_settings_inv (c_settings win_example_client) \<and>
   fst (management_function_win32 example_paths [] True win_example_client hang_up_os
     \<lparr>trace = [], budget = MAX_REQUEST_LEN + 30\<rparr>) \<noteq> Blocked"
proof -
  have inv: "win_settings_inv (c_settings win_example_client)"
    by (simp add: win_example_client_def win_example_settings_inv)
  let ?w = "\<lparr>trace = [], budget = MAX_REQUEST_LEN + 30\<rparr>"
  obtain out w' where run: "management_function_win32 example_paths [] True win_example_client hang_up_os ?w = (out, w')"
    by fastforce
  have "0 < MAX_REQUEST_LEN - length (home (c_settings win_example_client))"
    using win_home_bounds [OF inv] by (simp add: const_defs PATH_MAX_WIN32_def)
  with run have "paid granted_win32 (trace w') = 0"
    by (auto simp: management_function_win32_def Let_def call_def read_request_win32_receives receive_request_def bind_def
        hang_up_request emit_def hang_up_os_def plain_reply_def close_socket_kill_child_win32_def
        free_client_args_win32_def close_socket_win32_def kill_thread_def SOCKET_ERROR_def run_defs split: if_splits)
  with win_handler_ends_with_its_client [OF inv hang_up_os_posix run, of "trace w'"] run inv show ?thesis by auto
qed

end
