(* ===== verification/Win_Messages.thy ===== *)
theory Win_Messages
  imports Win_Listener Win_Logger
begin

text \<open>
  The two ends of the named pipe of the Win32 build: what \<^verbatim>\<open>thread_sender\<close> (gopher.c) writes and the
  buffer into which the logger (win32-multiprocess/logger.c) reads it. \<open>orderly_os\<close> asks for messages that
  are shorter than that buffer and hold no NUL; here it is shown that no handler writes any other.
\<close>

section \<open>The length of a record\<close>

fun fits_the_buffer :: "event \<Rightarrow> bool" where
  "fits_the_buffer (Sys (Win (WriteMessage s)) r) = (length s < WIN32_PIPE_BUFSIZE \<and> NUL \<notin> set s)"
| "fits_the_buffer e = True"

lemma date_text_short: "length (date_text t) \<le> 22"
  using snprintf_length [of 23] by (simp add: date_text_def)

lemma logs_string_length: "length (logs_string ds c) \<le> length ds + length (cstr (c_path_file c)) + length (c_addr c) + 27"
  using snprintf_length [of "record_size ds c" "record_text ds c"] by (simp add: logs_string_def record_size_def)

definition short_names :: "client_args \<Rightarrow> bool" where
  "short_names c \<longleftrightarrow> length (cstr (c_path_file c)) < PATH_MAX_WIN32 \<and> length (c_addr c) < ADDR_MAXLEN"

lemma record_fits_the_buffer:
  assumes "short_names c" "length ds \<le> 22"
  shows "length (cstr (logs_string ds c)) < WIN32_PIPE_BUFSIZE"
proof -
  have "length (cstr (logs_string ds c)) \<le> length (logs_string ds c)" by simp
  also note logs_string_length
  finally show ?thesis
    using assms by (simp add: short_names_def WIN32_PIPE_BUFSIZE_def PATH_MAX_WIN32_def ADDR_MAXLEN_def)
qed

section \<open>Every message of a handler\<close>

lemma only_write_message:
  "length s < WIN32_PIPE_BUFSIZE \<Longrightarrow> NUL \<notin> set s \<Longrightarrow> only fits_the_buffer (write_message s)"
  unfolding write_message_def by (intro only_intros) simp_all

lemma only_log_transfer_win32:
  assumes "short_names c"
  shows "only fits_the_buffer (log_transfer_win32 c)"
proof -
  have rest: "only fits_the_buffer (call (Mem (Malloc ''logs_string'' (int (record_size ds c)))) (\<lambda>m.
     if rv m = 0 then say ERROR ''malloc() failed with error: %d'' [AI (errno m)] pthread_exit
     else eff (Mem (Free ''ds'')) (write_message (cstr (logs_string ds c)))))" if "length ds \<le> 22" for ds
    by (intro only_intros only_write_message record_fits_the_buffer [OF assms that]) simp_all
  show ?thesis
    unfolding log_transfer_win32_def date_string_def only_def
    by (intro runs_bind runs_call runs_if runs_say runs_exit runs_ret)
       (auto intro!: runs_weaken [OF rest [OF date_text_short, unfolded only_def]])
qed

lemma only_thread_sender_fits:
  assumes "short_names c"
  shows "only fits_the_buffer (thread_sender_win32 garbage h c)"
proof -
  have pages: "only fits_the_buffer (loop (send_round_win32 page h c) n)" for page n
    by (rule pages_loop.only_loop)
       (unfold send_round_win32_def unmap_view_def Let_def, intro only_intros; simp)
  have closing: "only fits_the_buffer (loop (closing_round_win32 c) b)" for b
    by (rule closing_win32_loop.only_loop) (unfold closing_round_win32_def Let_def, intro only_intros; simp)
  show ?thesis
    unfolding thread_sender_win32_def
    by (intro only_intros pages closing only_log_transfer_win32 assms; simp?)
qed

lemma short_names_update [simp]: "short_names (c\<lparr>c_len_file := n\<rparr>) = short_names c"
  by (simp add: short_names_def)

lemma only_load_file_fits:
  assumes "short_names c"
  shows "only fits_the_buffer (load_file_memory_and_send_win32 garbage c)"
  unfolding load_file_memory_and_send_win32_def finish_transfer_def Let_def
  by (intro only_intros only_thread_sender_fits; (simp add: assms)?)

lemma only_menu_fits: "only fits_the_buffer (send_content_of_dir_win32 P before c sel)"
proof -
  have type: "only fits_the_buffer (type_on P p)" for p
    unfolding type_path_win32_def Let_def by (intro only_intros) simp_all
  have "only fits_the_buffer (loop (dir_round_win32 P before c sel) s)" for s
    by (rule dir_win32_loop.only_loop) (unfold dir_round_win32_def Let_def, intro only_intros type; simp)
  note entries = this
  show ?thesis
    unfolding send_content_of_dir_win32_def finish_menu_win32_def Let_def
    by (intro only_intros entries; simp)
qed

lemma only_serve_fits:
  assumes "length (c_addr c) < ADDR_MAXLEN"
  shows "only fits_the_buffer (serve_win32 P garbage allocated before c input)"
proof -
  have type: "only fits_the_buffer (type_on P p)" for p
    unfolding type_path_win32_def Let_def by (intro only_intros) simp_all
  have farewell: "only fits_the_buffer (close_socket_kill_child_win32 allocated c' n)" for c' n
    unfolding close_socket_kill_child_win32_def free_client_args_win32_def close_socket_win32_def kill_thread_def Let_def
    by (intro only_intros; simp)
  have path: "short_names (c\<lparr>c_path_file := home (c_settings c) @ input\<rparr>)"
    if "\<not> PATH_MAX_WIN32 \<le> length (home (c_settings c)) + length input"
    using that assms cstr_length_le [of "home (c_settings c) @ input"] by (simp add: short_names_def)
  show ?thesis
    unfolding serve_win32_def answer_win32_def Let_def
    by (intro only_intros type farewell only_menu_fits only_load_file_fits path) simp_all
qed

lemma only_management_fits:
  assumes "length (c_addr c) < ADDR_MAXLEN"
  shows "only fits_the_buffer (management_function_win32 P garbage allocated c)"
proof -
  have farewell: "only fits_the_buffer (close_socket_kill_child_win32 allocated c n)" for n
    unfolding close_socket_kill_child_win32_def free_client_args_win32_def close_socket_win32_def kill_thread_def Let_def
    by (intro only_intros; simp)
  have read: "only fits_the_buffer (read_request_win32 sd buf n)" for sd buf n
    unfolding read_request_win32_receives by (rule only_receive_request) simp_all
  show ?thesis
    unfolding management_function_win32_def Let_def
    by (intro only_intros read farewell only_serve_fits assms) simp_all
qed

lemma win_records_fit:
  "\<forall>e \<in> set es. fits_the_buffer e \<Longrightarrow>
   list_all (\<lambda>m. length m < WIN32_PIPE_BUFSIZE \<and> NUL \<notin> set m) (win_records es)"
  by (induction es rule: win_records.induct) auto

section \<open>Properties\<close>

text \<open>
  C35: the senders keep what the logger relies on. Every record that a handler of the Win32 build writes to
  the named pipe, for a client that \<^verbatim>\<open>accept_wrapper\<close> has taken, has less than 1024 bytes and no NUL, whatever
  path it names and whatever the operating system replies: the path has at most 259 characters, the date 22 and
  the address 21. So \<^verbatim>\<open>ReadFile\<close> of the logger gets it whole, as \<open>orderly_os\<close> asks, and \<^verbatim>\<open>strlen\<close> of its buffer stops.
\<close>

theorem win_records_fit_the_logger:
  "runs any_os (management_function_win32 P garbage allocated (client_of st a)) (\<lambda>out es.
     list_all (\<lambda>m. length m < WIN32_PIPE_BUFSIZE \<and> NUL \<notin> set m \<and>
       orderly_os (Win (ReadMessage i WIN32_PIPE_BUFSIZE)) ((plain_reply 1)\<lparr>payload := m\<rparr>)) (win_records es))"
proof -
  have "length (c_addr (client_of st a)) < ADDR_MAXLEN"
    by (simp add: client_of_def addr_text_def snprintf_def ADDR_MAXLEN_def)
  from only_management_fits [OF this] show ?thesis
    unfolding only_def
    by (rule runs_weaken) (drule win_records_fit, erule list.pred_mono_strong, simp add: plain_reply_def)
qed

end
