(* ===== verification/Answered.thy ===== *)
theory Answered
  imports Children
begin

text \<open>
  A handler fails loudly: when it ends and has logged no error and no warning, its client has got the
  whole answer, or had closed before its request was complete. The result is put together from the parts:
  each function either completes its job, or has logged why not, or does not come to an end.
\<close>

section \<open>Complaints\<close>

fun complaint :: "event \<Rightarrow> bool" where
  "complaint (Log l s a) = (l = ERROR \<or> l = WARNING)"
| "complaint e = False"

definition complains :: "event list \<Rightarrow> bool" where
  "complains es \<longleftrightarrow> list_ex complaint es"

lemma complains_simps [simp]:
  "\<not> complains []" "complains (e # es) \<longleftrightarrow> complaint e \<or> complains es"
  "complains (es @ es') \<longleftrightarrow> complains es \<or> complains es'"
  by (simp_all add: complains_def)

text \<open>
  \<open>loud Q\<close>: the run has complained, or is still going on, or has crashed, or has the result \<open>Q\<close>.
\<close>

fun stopped :: "'a outcome \<Rightarrow> bool" where
  "stopped (Crash m) = True"
| "stopped Blocked = True"
| "stopped out = False"

definition loud :: "('a outcome \<Rightarrow> event list \<Rightarrow> bool) \<Rightarrow> 'a outcome \<Rightarrow> event list \<Rightarrow> bool" where
  "loud Q out es \<longleftrightarrow> complains es \<or> stopped out \<or> Q out es"

lemma loud_simps [simp]:
  "loud Q Blocked es" "loud Q (Crash m) es"
  "loud Q (Ret a) es \<longleftrightarrow> complains es \<or> Q (Ret a) es"
  "loud Q (Exit n) es \<longleftrightarrow> complains es \<or> Q (Exit n) es"
  "loud Q ThreadExit es \<longleftrightarrow> complains es \<or> Q ThreadExit es"
  by (simp_all add: loud_def)

lemma loud_mono: "loud Q out es \<Longrightarrow> (Q out es \<Longrightarrow> R out es) \<Longrightarrow> loud R out es"
  by (auto simp: loud_def)

lemma loud_after: "loud Q out es \<Longrightarrow> (Q out es \<Longrightarrow> R out (es0 @ es)) \<Longrightarrow> loud R out (es0 @ es)"
  by (auto simp: loud_def)

lemma runs_loud_conj:
  assumes "runs C p (loud Q)" "runs C p R"
  shows "runs C p (loud (\<lambda>out es. Q out es \<and> R out es))"
  by (rule runs_weaken [OF runs_conj [OF assms]]) (auto simp: loud_def)

text \<open>One call after another: the second counts only when the first has done its job.\<close>

lemma runs_loud_bind:
  assumes "runs C p (loud Q)"
    and "\<And>out es. complains es \<or> stopped out \<Longrightarrow> R out es"
    and "\<And>a. runs C (f a) (\<lambda>_ _. True)"
    and "\<And>n es. Q (Exit n) es \<Longrightarrow> R (Exit n) es" "\<And>es. Q ThreadExit es \<Longrightarrow> R ThreadExit es"
    and "\<And>a es. Q (Ret a) es \<Longrightarrow> runs C (f a) (\<lambda>out es'. R out (es @ es'))"
  shows "runs C (bind p f) R"
proof (rule runs_bind_weaken [OF assms(1)])
  fix out es
  assume l: "loud Q out es"
  show "after C f R out es"
  proof (cases "complains es")
    case True
    then show ?thesis
      by (cases out) (auto intro!: assms(2) runs_weaken [OF assms(3)])
  next
    case False
    with l assms(2,4-6) show ?thesis by (cases out) auto
  qed
qed

section \<open>Sending a file\<close>

definition all_sent :: "client_args \<Rightarrow> nat outcome \<Rightarrow> event list \<Rightarrow> bool" where
  "all_sent c out es \<longleftrightarrow> out = Ret (c_len_file c) \<and> wire (c_socket c) es = c_file_to_send c \<and> pipe_writes es = []"

lemma loud_send_loop:
  assumes "mapped c"
  shows "runs posix_os (loop (send_round c) 0) (loud (all_sent c))"
proof -
  have "runs posix_os (loop (send_round c) 0) (loud (\<lambda>out es. \<exists>n. out = Ret n))"
  proof (rule send_loop.invariant [where I = "\<lambda>_ _. True"])
    fix n es
    show "runs posix_os (send_round c n) (round (\<lambda>_ _. True) (loud (\<lambda>out es. \<exists>n. out = Ret n)) es)"
      unfolding send_round_def by (intro runs_intros) simp_all
  qed simp
  from runs_loud_conj [OF this runs_send_loop [OF assms]] show ?thesis
    by (rule runs_weaken) (auto simp: all_sent_def send_result_def no_logging_def elim!: loud_mono)
qed

lemma loud_closing_loop:
  "runs posix_os (loop (closing_round c) n)
     (loud (\<lambda>out es. (\<exists>n. out = Ret n) \<and> wire (c_socket c) es = [] \<and> pipe_writes es = []))"
proof -
  have "runs posix_os (loop (closing_round c) n) (loud (\<lambda>out es. \<exists>n. out = Ret n))"
  proof (rule closing_loop.invariant [where I = "\<lambda>_ _. True"])
    fix n es
    show "runs posix_os (closing_round c n) (round (\<lambda>_ _. True) (loud (\<lambda>out es. \<exists>n. out = Ret n)) es)"
      unfolding closing_round_def by (intro runs_intros) simp_all
  qed simp
  from runs_loud_conj [OF this runs_any [OF runs_closing_loop]] show ?thesis
    by (rule runs_weaken) (auto simp: silent_def no_logging_def elim!: loud_mono)
qed

lemma loud_write_record:
  "runs posix_os (write_record s)
     (loud (\<lambda>out es. out = Ret () \<and> pipe_writes es = [int_bytes (int (length s)), s] \<and> wire fd es = []))"
  unfolding write_record_def by (intro runs_intros) simp_all

text \<open>The record of the transfer has gone to the pipe, and nothing to the client.\<close>

definition recorded :: "client_args \<Rightarrow> event list \<Rightarrow> bool" where
  "recorded c es \<longleftrightarrow> (\<exists>t. concat (pipe_writes es) = frame (cstr (logs_string (date_text t) c)))"

lemma loud_log_transfer:
  "runs posix_os (log_transfer c) (loud (\<lambda>out es. out = Ret () \<and> recorded c es \<and> wire fd es = []))"
  unfolding log_transfer_def
proof (rule runs_loud_bind)
  show "runs posix_os date_string
      (loud (\<lambda>out es. (\<exists>t. out = Ret (date_text t)) \<and> wire fd es = [] \<and> pipe_writes es = []))"
    unfolding date_string_def by (intro runs_intros) auto
next
  fix ds :: string
  show "runs posix_os (call (Mem (Malloc ''logs_string'' (int (record_size ds c)))) (\<lambda>m.
     if rv m = 0 then say ERROR ''malloc() failed: %s'' [AE (errno m)] pthread_exit
     else eff (Mem (Free ''ds'')) (write_record (cstr (logs_string ds c))))) (\<lambda>_ _. True)"
    by (intro runs_call runs_if runs_say runs_eff runs_pthread_exit runs_weaken [OF loud_write_record]) simp_all
next
  fix ds :: string and es
  assume date: "(\<exists>t. Ret ds = Ret (date_text t)) \<and> wire fd es = [] \<and> pipe_writes es = []"
  show "runs posix_os (call (Mem (Malloc ''logs_string'' (int (record_size ds c)))) (\<lambda>m.
     if rv m = 0 then say ERROR ''malloc() failed: %s'' [AE (errno m)] pthread_exit
     else eff (Mem (Free ''ds'')) (write_record (cstr (logs_string ds c)))))
     (\<lambda>out es'. loud (\<lambda>out es. out = Ret () \<and> recorded c es \<and> wire fd es = []) out (es @ es'))"
  proof (intro runs_call runs_if runs_say runs_eff runs_pthread_exit, goal_cases)
    case (3 m)
    show ?case
      by (rule runs_weaken [OF loud_write_record [of _ fd]])
         (use date in \<open>auto simp: loud_def recorded_def frame_def\<close>)
  qed simp_all
qed (auto simp: loud_def)

lemma wire_shutdown [simp]: "wire fd (Sys (Net (ShutdownWr fd')) r # es) = wire fd es"
  by (simp add: wire_def)

text \<open>From the shutdown on.\<close>

lemma loud_after_send:
  assumes "n = c_len_file c"
  shows "runs posix_os
     (call (Net (ShutdownWr (c_socket c))) (\<lambda>s.
       if rv s < 0 then say ERROR (''shutdown() failed: %s'' @ [LF]) [AE (errno s)] pthread_exit
       else
         bind (loop (closing_round c) 0) (\<lambda>_.
         if n = c_len_file c then bind (log_transfer c) (\<lambda>_. pthread_exit)
         else pthread_exit)))
     (loud (\<lambda>out es. out = ThreadExit \<and> recorded c es \<and> wire (c_socket c) es = []))"
proof (intro runs_call runs_if runs_say runs_pthread_exit, goal_cases)
  case (3 s)
  have transfer: "runs posix_os (bind (log_transfer c) (\<lambda>_. pthread_exit))
      (loud (\<lambda>out es. out = ThreadExit \<and> recorded c es \<and> wire (c_socket c) es = []))"
    by (rule runs_loud_bind [OF loud_log_transfer [of c "c_socket c"]]) (auto simp: loud_def intro!: runs_pthread_exit)
  show ?case
    by (rule runs_loud_bind [OF loud_closing_loop])
       (use assms in \<open>auto simp: loud_def recorded_def intro!: runs_weaken [OF transfer]\<close>)
qed simp_all

lemma runs_true: "runs C p R \<Longrightarrow> runs C p (\<lambda>_ _. True)"
  by (rule runs_weaken) simp_all

lemma trivial_after_send:
  "runs posix_os
     (call (Net (ShutdownWr (c_socket c))) (\<lambda>s.
       if rv s < 0 then say ERROR (''shutdown() failed: %s'' @ [LF]) [AE (errno s)] pthread_exit
       else
         bind (loop (closing_round c) 0) (\<lambda>_.
         if n = c_len_file c then bind (log_transfer c) (\<lambda>_. pthread_exit)
         else pthread_exit))) (\<lambda>_ _. True)"
  by (intro runs_call runs_if runs_say runs_pthread_exit runs_trivial_bind [OF loud_closing_loop]
        runs_trivial_bind [OF loud_log_transfer]) simp_all

text \<open>The client has all bytes of the file, and the log has the record.\<close>

definition delivered :: "client_args \<Rightarrow> event list \<Rightarrow> bool" where
  "delivered c es \<longleftrightarrow> wire (c_socket c) es = c_file_to_send c \<and> recorded c es"

lemma loud_thread_sender:
  assumes "mapped c"
  shows "runs posix_os (thread_sender c) (loud (\<lambda>out es. out = ThreadExit \<and> delivered c es))"
  unfolding thread_sender_def
proof (intro runs_call runs_if runs_say runs_exit, goal_cases)
  case (3 s)
  show ?case
  proof (rule runs_loud_bind [OF loud_send_loop [OF assms]], goal_cases)
    case (2 n)
    show ?case by (rule trivial_after_send)
  next
    case (5 n es)
    then have n: "n = c_len_file c" by (simp add: all_sent_def)
    show ?case
      by (rule runs_weaken [OF loud_after_send [OF n]])
         (use 5 in \<open>auto simp: loud_def delivered_def recorded_def all_sent_def\<close>)
  qed (auto simp: loud_def all_sent_def)
qed simp_all

section \<open>Loading a file\<close>

lemma loud_send_mapped:
  assumes "mapped c"
  shows "runs posix_os (send_mapped fd c) (loud (\<lambda>out es. out = Ret (True, c) \<and> delivered c es))"
  unfolding send_mapped_def
proof (intro runs_call runs_if runs_say runs_exit, goal_cases)
  case (7 r1 r2 r3)
  show ?case
  proof (rule runs_in_thread, rule runs_weaken [OF loud_thread_sender [OF assms]], goal_cases)
    case (1 out es)
    then show ?case
      by (cases "complains es"; cases out)
         (auto simp: loud_def delivered_def recorded_def intro!: runs_intros)
  qed
qed simp_all

definition file_delivered :: "client_args \<Rightarrow> event list \<Rightarrow> bool" where
  "file_delivered c es \<longleftrightarrow> (\<exists>f n m. Sys (File (Mmap f n)) m \<in> set es \<and>
     delivered (c\<lparr>c_len_file := length (payload m), c_file_to_send := payload m\<rparr>) es)"

lemma file_delivered_mapped:
  "Sys (File (Mmap f n)) m \<in> set es \<Longrightarrow> length (payload m) = k \<Longrightarrow>
   delivered (c\<lparr>c_len_file := k, c_file_to_send := payload m\<rparr>) es \<Longrightarrow> file_delivered c es"
  unfolding file_delivered_def by blast

lemma loud_load_file:
  "runs posix_os (load_file_memory_and_send c) (loud (\<lambda>out es. (\<exists>x. out = Ret x) \<and> file_delivered c es))"
  unfolding load_file_memory_and_send_def Let_def give_up_def
proof (intro runs_call runs_if runs_say runs_say_if runs_eff runs_ret, goal_cases)
  case (13 op lk st m)
  let ?c = "c\<lparr>c_len_file := nat (num st), c_file_to_send := payload m\<rparr>"
  have m: "mapped ?c" "length (payload m) = nat (num st)"
    using mapped_new [of m "rv op" "nat (num st)" c] 13 by (simp_all add: mapped_def)
  have delivered: "file_delivered c (Sys (File (OpenRdwr p)) op # Sys (File (OfdLockWait (rv op))) lk #
      Sys (File (Fstat (rv op))) st # Sys (File (Mmap (rv op) n)) m # es)"
    if "delivered ?c es" for n es p
    by (rule file_delivered_mapped [of "rv op" n m _ "nat (num st)"])
       (use that m(2) in \<open>simp_all add: delivered_def recorded_def\<close>)
  show ?case
    by (rule runs_weaken [OF loud_send_mapped]) (use m(1) delivered in \<open>auto simp: loud_def\<close>)
qed simp_all

section \<open>The type of a path\<close>

lemma loud_type_path:
  assumes "NUL \<notin> set path"
  shows "runs any_os (type_path path) (loud (\<lambda>out es. (\<exists>t. out = Ret t)))"
proof -
  have drain: "runs any_os (loop drain_round s) (loud (\<lambda>out es. (\<exists>t. out = Ret t)))" for s
  proof (rule drain.invariant [where I = "\<lambda>_ _. True"])
    fix s es
    show "runs any_os (drain_round s) (round (\<lambda>_ _. True) (loud (\<lambda>out es. \<exists>t. out = Ret t)) es)"
      unfolding drain_round_def by (intro runs_intros) simp_all
  qed simp
  have read: "runs any_os (if has_prefix s x then say DEBUG y z (loop drain_round s) else ret s)
      (loud (\<lambda>out es. (\<exists>t. out = Ret t)))" for s x y z
    by (intro runs_intros runs_weaken [OF drain]) (auto simp: loud_def)
  show ?thesis
    unfolding type_path_def
  proof (intro runs_bind runs_sanitize_path [OF assms], simp_all only: after.simps file_command_fits option.case,
      goal_cases)
    case (3 m)
    show ?case
    proof (intro runs_eff runs_call runs_if runs_say runs_exit, goal_cases)
      case (5 s r)
      show ?case
        by (rule runs_loud_bind [OF read]) (auto simp: loud_def intro!: runs_intros)
    qed simp_all
  qed simp_all
qed

section \<open>The menu\<close>

lemma round_loud: "complains es \<or> stopped out \<Longrightarrow> round (\<lambda>_ _. True) (loud Q) es0 out es"
  by (cases out rule: goes_round.cases) auto

lemma loud_dir_loop:
  "runs any_os (loop (dir_round before c sel) None) (loud (\<lambda>out es. (\<exists>r. out = Ret r) \<and> sends es = []))"
proof -
  have "runs any_os (loop (dir_round before c sel) None) (loud (\<lambda>out es. \<exists>r. out = Ret r))"
  proof (rule dir_loop.invariant [where I = "\<lambda>_ _. True"])
    fix s es
    show "runs any_os (dir_round before c sel s) (round (\<lambda>_ _. True) (loud (\<lambda>out es. \<exists>r. out = Ret r)) es)"
      unfolding dir_round_def Let_def
    proof (intro runs_call runs_if runs_say runs_exit runs_crash runs_ret, goal_cases)
      case (7 r m)
      show ?case
      proof (rule runs_loud_bind [OF loud_type_path [OF subfile_path_no_NUL]], goal_cases)
        case (3 out es')
        then show ?case by (intro round_loud) simp
      qed (simp_all, (intro runs_intros; simp)+)
    qed (auto simp: round_loud)
  qed simp
  from runs_loud_conj [OF this runs_dir_loop] show ?thesis
    by (rule runs_weaken) (auto simp: dir_result_def dir_events_no_send elim!: loud_mono)
qed

lemma loud_finish_menu:
  "runs any_os (finish_menu c r) (loud (\<lambda>out es. out = Ret () \<and> (\<exists>s n. sends es = [(c_socket c, s, n)] \<and> 0 \<le> n)))"
  unfolding finish_menu_def Let_def by (intro runs_intros) simp_all

text \<open>The menu has gone to the client in one \<^verbatim>\<open>send\<close> that did not fail.\<close>

definition menu_sent :: "char \<Rightarrow> client_args \<Rightarrow> string \<Rightarrow> event list \<Rightarrow> bool" where
  "menu_sent before c sel es \<longleftrightarrow> listing es \<noteq> [] \<and>
     (\<exists>n. 0 \<le> n \<and> sends es = [(c_socket c, menu_body before sel (c_settings c) (listing es) @ ''.'' @ [CR, LF], n)])"

lemma loud_menu:
  "runs any_os (send_content_of_dir before c sel) (loud (\<lambda>out es. out = Ret () \<and> menu_sent before c sel es))"
proof -
  have "runs any_os (send_content_of_dir before c sel)
      (loud (\<lambda>out es. out = Ret () \<and> (\<exists>s n. sends es = [(c_socket c, s, n)] \<and> 0 \<le> n)))"
    unfolding send_content_of_dir_def
  proof (intro runs_say runs_call runs_if runs_ret, goal_cases)
    case (3 f)
    show ?case
    proof (rule runs_loud_bind [OF loud_dir_loop], goal_cases)
      case (2 a)
      show ?case by (intro runs_intros runs_weaken [OF loud_finish_menu]) simp_all
    next
      case (5 a es)
      then show ?case
        by (intro runs_case_option runs_crash runs_weaken [OF loud_finish_menu]) (auto simp: loud_def)
    qed (auto simp: loud_def)
  qed simp_all
  from runs_loud_conj [OF this runs_send_content_of_dir] show ?thesis
    by (rule runs_weaken) (auto simp: menu_result_def menu_sent_def elim!: loud_mono)
qed

section \<open>The answer\<close>

definition answered :: "char \<Rightarrow> client_args \<Rightarrow> string \<Rightarrow> char \<Rightarrow> event list \<Rightarrow> bool" where
  "answered before c input type es \<longleftrightarrow>
     (if type = CHR ''1'' then menu_sent before c input es
      else if type = CHR ''3'' then
        \<exists>n. 0 \<le> n \<and> sends es = [(c_socket c, ''3'' @ [TAB] @ input @ [CR, LF] @ ''.'' @ [CR, LF], n)]
      else file_delivered c es)"

lemma file_delivered_more:
  "file_delivered c es \<Longrightarrow> wire (c_socket c) es' = [] \<Longrightarrow> pipe_writes es' = [] \<Longrightarrow> file_delivered c (es @ es')"
  unfolding file_delivered_def delivered_def recorded_def by fastforce

lemma loud_answer:
  "runs posix_os (answer before c input type) (loud (\<lambda>out es. out = Ret () \<and> answered before c input type es))"
proof -
  have loading: "runs posix_os (bind (load_file_memory_and_send c) (\<lambda>_. say DEBUG (''finito invio '' @ [LF]) [] (ret ())))
      (loud (\<lambda>out es. out = Ret () \<and> file_delivered c es))"
    by (rule runs_loud_bind [OF loud_load_file]) (auto simp: loud_def intro!: runs_intros file_delivered_more)
  consider "type = CHR ''1''" | "type = CHR ''3''" | "type \<noteq> CHR ''1''" "type \<noteq> CHR ''3''" by blast
  then show ?thesis
  proof cases
    case 1
    then show ?thesis by (simp add: answer_def answered_def runs_any [OF loud_menu])
  next
    case 2
    then show ?thesis
      unfolding answer_def error_text_fits option.case by (auto simp: answered_def intro!: runs_intros)
  next
    case 3
    with loading show ?thesis by (simp add: answer_def answered_def)
  qed
qed

text \<open>
  The request \<open>input\<close> is served: its path has a type, and the client has the whole answer that goes with it.
\<close>

definition served :: "char \<Rightarrow> client_args \<Rightarrow> string \<Rightarrow> event list \<Rightarrow> bool" where
  "served before c input es \<longleftrightarrow>
     (\<exists>es1 es2 es3. es = es1 @ es2 @ es3 \<and> file_replies es1 \<noteq> [] \<and>
        answered before (c\<lparr>c_path_file := target c input\<rparr>) input (type_char (file_says (file_replies es1))) es2)"

lemma loud_close_socket_kill_child:
  "runs C (close_socket_kill_child c' 0) (loud (\<lambda>out es. out = ThreadExit \<or> out = Exit 0))"
  unfolding close_socket_kill_child_def free_client_args_def close_socket_def kill_thread_def Let_def
  by (intro runs_intros) simp_all

text \<open>From the answer on.\<close>

lemma loud_last_part:
  assumes "file_replies es1 \<noteq> []" "t = type_char (file_says (file_replies es1))"
  shows "runs posix_os (bind (answer before (c\<lparr>c_path_file := target c input\<rparr>) input t)
      (\<lambda>_. eff (Mem (Free ''input'')) (close_socket_kill_child c' 0)))
    (\<lambda>out es. loud (\<lambda>out es. (out = ThreadExit \<or> out = Exit 0) \<and> served before c input es) out (es1 @ es))"
proof (rule runs_loud_bind [OF loud_answer], goal_cases)
  case (2 a)
  show ?case by (intro runs_eff runs_true [OF loud_close_socket_kill_child])
next
  case (5 a es)
  have "served before c input (es1 @ es @ es')" for es'
    using 5 assms unfolding served_def by blast
  then show ?case
    by (intro runs_eff runs_weaken [OF loud_close_socket_kill_child]) (auto simp: loud_def)
qed (auto simp: loud_def)

lemma loud_serve:
  assumes "NUL \<notin> set input"
  shows "runs posix_os (serve before c input)
    (loud (\<lambda>out es. (out = ThreadExit \<or> out = Exit 0) \<and> served before c input es))"
  unfolding serve_def Let_def
proof (intro runs_call runs_if runs_say runs_eff runs_exit, goal_cases)
  case (3 m)
  show ?case by (rule runs_weaken [OF loud_close_socket_kill_child]) (simp add: loud_def)
next
  case (4 m)
  show ?case by (rule runs_weaken [OF loud_close_socket_kill_child]) (simp add: loud_def)
next
  case (5 m)
  let ?path = "target c input"
  have typed: "runs posix_os (type_path ?path) (loud (\<lambda>out es. (\<exists>t. out = Ret t) \<and> type_path_result ?path out es))"
    using assms by (intro runs_loud_conj runs_any [OF loud_type_path] runs_any [OF runs_type_path]) simp_all
  have last: "runs posix_os (bind (answer before (c\<lparr>c_path_file := ?path\<rparr>) input t)
      (\<lambda>_. eff (Mem (Free ''input'')) (close_socket_kill_child c' 0))) (\<lambda>_ _. True)" for t c'
    by (rule runs_bind_weaken [OF loud_answer], rename_tac out es, case_tac out)
       (auto intro!: runs_eff runs_true [OF loud_close_socket_kill_child])
  have path: "c_path_file (c\<lparr>c_path_file := p\<rparr>) = p" for p by simp
  show ?case
    unfolding path
  proof (rule runs_loud_bind [OF typed], goal_cases)
    case (2 t)
    show ?case by (rule last)
  next
    case (5 t es)
    then show ?case
      by (intro runs_weaken [OF loud_last_part [of "Log DEBUG (''RECEIVED: \"%s\" at addr %p'' @ [LF]) [AS input] #
          Sys (Mem (Malloc ''path_file'' (int PATH_MAX))) m #
          Log DEBUG ''PATH+SELECTOR %d bytes: %s'' [AI (int (length ?path)), AS ?path] # es"]])
         (auto simp: type_path_result_def)
  qed (auto simp: loud_def)
qed simp_all

section \<open>The whole handler\<close>

text \<open>The client has closed its side.\<close>

definition hung_up :: "int \<Rightarrow> event list \<Rightarrow> bool" where
  "hung_up fd es \<longleftrightarrow> (\<exists>n r. Sys (Net (Recv fd n DontWait)) r \<in> set es \<and> rv r = 0)"

lemma loud_read_loop:
  "runs C (loop (receive_round DontWait again failed arg sd n) s)
     (loud (\<lambda>out es. (\<exists>x. out = Ret (Some x)) \<or> out = Ret None \<and> hung_up sd es))"
proof (rule read_loop.invariant [where I = "\<lambda>_ _. True"])
  fix s :: "nat \<times> nat \<times> string" and es
  show "runs C (receive_round DontWait again failed arg sd n s)
     (round (\<lambda>_ _. True) (loud (\<lambda>out es. (\<exists>x. out = Ret (Some x)) \<or> out = Ret None \<and> hung_up sd es)) es)"
    unfolding receive_round_def Let_def
    by (intro runs_intros) (auto simp: hung_up_def split: prod.splits intro!: runs_intros)
qed simp

lemma loud_read_request:
  assumes "length buf = buflen"
  shows "runs posix_os (read_request sd buf buflen) (loud (\<lambda>out es.
    case out of
      Ret None \<Rightarrow> cut (received es) = None \<and> hung_up sd es
    | Ret (Some (j, s, moved)) \<Rightarrow> (\<exists>t. cut (received es) = Some t \<and> s = t @ [NUL])
    | _ \<Rightarrow> False))"
    (is "runs posix_os _ (loud ?Q)")
proof -
  have loop: "runs posix_os (loop (receive_round DontWait again failed arg sd buflen) (0, 0, buf))
      (loud (\<lambda>out es. ((\<exists>x. out = Ret (Some x)) \<or> out = Ret None \<and> hung_up sd es) \<and> read_result DontWait buflen out es))"
    for again failed arg
    by (rule runs_loud_conj [OF loud_read_loop read_loop.invariant [where I = "read_state DontWait buflen", OF _ receive_round_state]])
       (simp add: read_state_def assms)
  show ?thesis
    unfolding read_request_receives receive_request_def received_heard
  proof (rule runs_loud_bind [OF loop], goal_cases)
    case (2 a)
    show ?case by (cases a) (auto intro!: runs_intros)
  next
    case (5 a es)
    then show ?case
      by (cases a) (auto simp: read_result_def loud_def intro!: runs_intros)
  qed (auto simp: loud_def)
qed

lemma loud_management_function:
  "runs posix_os (management_function c) (loud (\<lambda>out es. (out = ThreadExit \<or> out = Exit 0) \<and>
     (cut (received es) = None \<and> hung_up (c_socket c) es \<or>
      (\<exists>n m es1 es2 t. es = Sys (Mem (Malloc ''input'' n)) m # es1 @ es2 \<and> cut (received es1) = Some t \<and>
         served (byte_before m) c (cstr t) es2))))"
    (is "runs _ _ (loud ?Q)")
  unfolding management_function_def Let_def
proof (intro runs_call runs_if runs_say runs_exit, goal_cases)
  case (3 m)
  show ?case
  proof (rule runs_loud_bind [OF loud_read_request], goal_cases)
    case (3 a)
    show ?case
      by (cases a) (auto intro!: runs_crash runs_true [OF loud_serve] runs_true [OF loud_close_socket_kill_child])
  next
    case (6 a es)
    show ?case
    proof (cases a)
      case None
      have bye: "runs posix_os (close_socket_kill_child c 0) (loud (\<lambda>out es. (out = ThreadExit \<or> out = Exit 0) \<and> received es = []))"
        unfolding close_socket_kill_child_def free_client_args_def close_socket_def kill_thread_def Let_def
        by (intro runs_intros) simp_all
      show ?thesis
        unfolding None option.case by (rule runs_weaken [OF bye]) (use 6 None in \<open>auto simp: loud_def hung_up_def\<close>)
    next
      case (Some x)
      then obtain n input moved where x: "a = Some (n, input, moved)" by (cases x) auto
      with 6 obtain t where t: "cut (received es) = Some t" "cstr input = cstr t"
        by (auto simp: cstr_cut)
      then show ?thesis
        unfolding x t(2) option.case prod.case
        by (intro runs_if runs_crash runs_weaken [OF loud_serve]) (auto simp: loud_def)
    qed
  qed (auto simp: loud_def)
qed simp_all

section \<open>Properties\<close>

text \<open>
  C12: no failure of a request is silent. When the handler ends and has logged no error and no warning, either its
  client closed before the first CR LF had come, or the request was served whole: the type of its path
  was asked for, and the client was given the complete menu of the directory, or the error line
  (each in one \<^verbatim>\<open>send\<close> that did not fail), or all bytes of the file, and then
  the log pipe was given the one record of this transfer.
\<close>

theorem no_failure_is_silent:
  "runs posix_os (management_function c) (\<lambda>out es.
     out = Blocked \<or> (\<exists>s. out = Crash s) \<or> list_ex complaint es \<or>
     ((out = ThreadExit \<or> out = Exit 0) \<and>
      (cut (received es) = None \<and> hung_up (c_socket c) es \<or>
       (\<exists>n m es1 es2 t. es = Sys (Mem (Malloc ''input'' n)) m # es1 @ es2 \<and> cut (received es1) = Some t \<and>
          served (byte_before m) c (cstr t) es2))))"
proof (rule runs_weaken [OF loud_management_function], goal_cases)
  case (1 out es)
  then show ?case by (cases out) (auto simp: loud_def complains_def)
qed

text \<open>
  Served, but for one gap: a \<^verbatim>\<open>send\<close> of a menu or an error line that takes only a part of it does not
  fail, and nobody looks at how much it took. A client that asks for \<^verbatim>\<open>x\<close>, which \<^verbatim>\<open>file\<close> does
  not know, gets one byte of its error line, and the handler ends with nothing to complain of.
\<close>

definition asking_os :: os where
  "asking_os h x = (case x of Net (Recv fd n f) \<Rightarrow> (plain_reply 3)\<lparr>payload := ''x'' @ [CR, LF]\<rparr>
     | File (PopenGets n) \<Rightarrow> (plain_reply 1)\<lparr>payload := ''unknown''\<rparr> | _ \<Rightarrow> plain_reply 1)"

lemma asking_request:
  assumes "3 \<le> n" "0 < b"
  shows "loop (receive_round fl again failed arg sd n) (0, 0, replicate n NUL) asking_os \<lparr>trace = es, budget = b\<rparr> =
    (Ret (Some (2, ''x'' @ [NUL, LF] @ replicate (n - 3) NUL)),
     \<lparr>trace = es @ [Sys (Net (Recv sd n fl)) ((plain_reply 3)\<lparr>payload := ''x'' @ [CR, LF]\<rparr>)], budget = b - 1\<rparr>)"
proof -
  from assms obtain k where n: "n = Suc (Suc (Suc k))"
    using that [of "n - 3"] by simp
  have "scan 0 3 (''x'' @ CR # LF # replicate k NUL) = (True, 2, ''x'' @ [NUL, LF] @ replicate k NUL)"
    by (subst scan_spec) (simp_all add: numeral_2_eq_2)
  with assms(2) show ?thesis
    by (subst read_loop.unfold)
       (simp add: n receive_round_def call_def bind_def ret_def emit_def asking_os_def plain_reply_def)
qed

theorem short_send_is_silent:
  "fst (management_function example_client asking_os \<lparr>trace = [], budget = 8\<rparr>) = ThreadExit \<and>
   \<not> complains (trace (snd (management_function example_client asking_os \<lparr>trace = [], budget = 8\<rparr>))) \<and>
   wire 4 (trace (snd (management_function example_client asking_os \<lparr>trace = [], budget = 8\<rparr>))) = ''3''"
proof -
  have home: "home (c_settings example_client) = ''/srv/''" "mode (c_settings example_client) = CHR ''t''"
      "c_socket example_client = 4"
    by (simp_all add: example_client_def example_settings_def)
  have size: "MAX_REQUEST_LEN - length (home (c_settings example_client)) = 4091"
    by (simp add: home MAX_REQUEST_LEN_def)
  have guard: "\<not> check_security_path ''/srv/x''"
    by (simp add: check_security_path_def strstr_def sublist_Cons_right)
  have sys: "asking_os h (Mem m) = plain_reply 1" "asking_os h (File (Popen s)) = plain_reply 1"
      "asking_os h (File (PopenGets n)) = (plain_reply 1)\<lparr>payload := ''unknown''\<rparr>"
      "asking_os h (Net (Send fd s)) = plain_reply 1" for h m s n fd
    by (simp_all add: asking_os_def)
  have strs: "cstr [CHR ''x'', NUL] = ''x''" "cstr ''unknown'' = ''unknown''" "type_char ''unknown'' = CHR ''3''"
      "\<not> has_prefix ''unknown'' ''cannot''"
    by (simp_all add: cstr_def type_char_def has_prefix_def mime_defs)
  have path: "\<not> PATH_MAX \<le> Suc (Suc (Suc (Suc (Suc (Suc 0)))))" "rv (plain_reply k) = k" "num (plain_reply k) = 0" for k
    by (simp_all add: PATH_MAX_def plain_reply_def)
  have line: "fst (serve b example_client ''x'' asking_os \<lparr>trace = es, budget = 5\<rparr>) = ThreadExit \<and>
      complains (trace (snd (serve b example_client ''x'' asking_os \<lparr>trace = es, budget = 5\<rparr>))) = complains es \<and>
      sends (trace (snd (serve b example_client ''x'' asking_os \<lparr>trace = es, budget = 5\<rparr>))) =
        sends es @ [(4, ''3'' @ [TAB] @ ''x'' @ [CR, LF] @ ''.'' @ [CR, LF], 1)]"
    for b es
    by (simp add: serve_def Let_def run_defs home guard strs sys path type_path_def sanitize_path_def sanitize_buffer
        answer_def error_text_def close_socket_kill_child_def free_client_args_def close_socket_def kill_thread_def
        file_command_fits)
  have "management_function example_client asking_os \<lparr>trace = [], budget = 8\<rparr> =
    serve (byte_before (plain_reply 1)) example_client ''x'' asking_os \<lparr>trace = [Sys (Mem (Malloc ''input'' 4091)) (plain_reply 1),
      Sys (Net (Recv (c_socket example_client) 4091 DontWait)) (plain_reply 3\<lparr>payload := [CHR ''x'', CR, LF]\<rparr>),
      Sys (Mem (Realloc ''buf'' 2)) (plain_reply 1)], budget = 5\<rparr>"
    unfolding management_function_def Let_def
    by (simp add: size read_request_receives receive_request_def run_defs strs sys path asking_request del: One_nat_def)
  with line show ?thesis by (simp add: wire_def)
qed

end
