(* ===== verification/Spec2Isabelle.thy ===== *)
theory Spec2Isabelle
  imports Prelude Effects Settings Regex Config Path_Guard Shell_Quote File_Type Menu Log_Text Log_Pipe Sender File_Load Request Children Listener Startup Server Log_Protocol Log_Queue Log_Write
    Win_Logger Win_File Win_Config Win_Request Win_Children Win_Listener Win_Server
    Progress Bounded Win_Bounded Win_Messages Answered
begin

text \<open>
  Sacagawea, a gopher server in C (src/src: server/sacagawea.c and the library sacagalib). Both
  builds are modelled: the Linux build, and the Win32 build with its logger and handler programs.

  \<^bold>\<open>How the program works.\<close> \<^verbatim>\<open>main\<close> reads the working directory, the configuration file and the command
  line into \<^verbatim>\<open>settings\<close>, becomes a daemon, creates the shared memory (mutex, condition variable,
  pipe) and forks the logger; then it opens its socket and loops over \<^verbatim>\<open>select\<close>. Each connection gets
  a thread or a process that reads one request, builds the path, guards it and answers with a
  menu, a file or an error line. A file is mapped and sent by another thread, which passes a
  record to the logger through the pipe; the logger appends the records to sacagawea.log. SIGHUP
  re-reads the file and moves the socket to a new port. In the Win32 build the server is no daemon: it puts itself
  and its children into a job that ends with it, the logger is a program that reads messages from
  named pipes (logger.c), a handler process is another one that gets its arguments through an inherited
  mapping (mp.c), and CTRL+BREAK takes the place of SIGHUP.

  \<^bold>\<open>Theories.\<close>
  \<^item> Prelude: strings in buffers, \<^verbatim>\<open>snprintf\<close> numbers, splitting, lists; the collections of rules.
  \<^item> Settings: \<^verbatim>\<open>settings_t\<close>, \<^verbatim>\<open>client_args\<close>, the constants of sacagalib.h, the invariant \<open>settings_inv\<close>
    (mode, both buffers with their length and terminator, a home directory that ends in a slash).
  \<^item> Effects: programs as functions from the replies of the operating system to an outcome
    (return, exit of the process, end of the thread, crash, blocked) and a trace of events.
    \<open>runs C p Q\<close> says that every run of \<open>p\<close>, with any replies that \<open>C\<close> allows, satisfies \<open>Q\<close>, and
    \<open>runs_intros\<close> has one rule per construct; \<open>only\<close> and \<open>keeps\<close> bound the events. The locale
    \<open>loop_body\<close> gives every loop its invariant rule.
  \<^item> Regex, Config: config.c. The regular expressions with their matching, \<^verbatim>\<open>do_regex\<close> in both builds,
    the lines of the file with their buffers, \<^verbatim>\<open>read_and_check_conf\<close>.
  \<^item> Path_Guard: \<^verbatim>\<open>check_security_path\<close> (utility.c) against the resolution of paths.
  \<^item> Shell_Quote, File_Type, Menu: gopher.c. \<^verbatim>\<open>sanitize_path\<close> against the words of a shell,
    \<^verbatim>\<open>type_path\<close> and \<^verbatim>\<open>send_content_of_dir\<close> with the parser of a gopher client.
  \<^item> Log_Text, Log_Write, Log_Pipe: log.c. Lines of the log and the record of a transfer; \<^verbatim>\<open>write_log\<close> as a
    program with its allocations and its recursion (elsewhere a call of it is one event); the frames of the
    pipe, \<^verbatim>\<open>log_management\<close>.
  \<^item> Sender, File_Load: \<^verbatim>\<open>thread_sender\<close> (gopher.c), \<^verbatim>\<open>load_file_memory_and_send\<close> (utility.c) as a run of a
    state machine of the file descriptor.
  \<^item> Log_Protocol, Log_Queue: the end of \<^verbatim>\<open>thread_sender\<close> and \<^verbatim>\<open>log_management\<close> as automata over what they
    share, and the step relation of any number of senders with the logger (mutex, condition variable,
    a pipe of any capacity), its invariant and its refinement of a queue.
  \<^item> Request, Children: children.c. \<^verbatim>\<open>read_request\<close>, \<^verbatim>\<open>management_function\<close>, the start of a
    thread or process.
  \<^item> Listener: socket.c. \<^verbatim>\<open>open_socket\<close>, \<^verbatim>\<open>accept_wrapper\<close>, \<^verbatim>\<open>listen_descriptor\<close>.
  \<^item> Startup, Server: sacagawea.c. The stages of \<^verbatim>\<open>main\<close>, the server loop, the signal handlers.
  \<^item> Win_Logger, Win_File: the Win32 build. The logger process (win32-multiprocess/logger.c) and
    the Win32 branches of \<^verbatim>\<open>load_file_memory_and_send\<close> and \<^verbatim>\<open>thread_sender\<close>.
  \<^item> Win_Config, Win_Request, Win_Children, Win_Listener, Win_Server: the Win32 branches of config.c, children.c,
    gopher.c (the menu), socket.c and sacagawea.c, and the whole of win32-multiprocess/mp.c. \<open>win_settings_inv\<close> is
    the invariant of the settings with 260 bytes and a final backslash; what Windows says of a path
    (\<open>win_paths\<close>) and what a mapping holds are parameters. The text of these branches differs from the Linux ones in many
    places, so they are definitions of their own, suffixed with \<open>win32\<close>; what is the same (guard, menu lines, address, end of a
    request, loops, accounts of events) is shared.

  \<^item> Progress, Bounded, Win_Bounded: how long programs run. \<open>within C g n p\<close> bounds the calls of \<open>p\<close> by \<open>n\<close>
    and what its events grant by \<open>g\<close>, with a rule for each construct and a rule for loops with a potential; then the
    bounds of every function of both builds, up to \<^verbatim>\<open>main\<close>, mp.c and logger.c.
  \<^item> Answered: \<open>loud Q\<close>, a run that complains in the log, or is not at an end, or has the result \<open>Q\<close>; for each part of a
    Linux handler what it has done when it does not complain, put together up to \<^verbatim>\<open>management_function\<close>.
  \<^item> Win_Messages: the records that the handlers of the Win32 build write against the buffer of its logger.

  \<^bold>\<open>What the properties show.\<close> Confinement: whatever a client sends, only the guarded path below the
  home directory is opened, from one handler up to every run of \<^verbatim>\<open>main\<close> and every thread and process that it
  starts, in both builds; the home directory is the one that the lines of the configuration file read at the
  start make of the working directory (\<open>configured\<close> in Server, \<open>configured_home\<close> in Win_Server: the lines before the
  first \<^verbatim>\<open>getopt\<close> of the trace). Ends: a handler never
  returns, and frees and closes on its way out; it gets there unless its client, the directory or \<^verbatim>\<open>file\<close> go on
  for ever, and it spins when the client says nothing. When it has logged no error and no warning it has served
  the whole request, or its client has left. Order: the file is closed before it is sent, sent
  before it is logged; one call for a thread or process per connection, with an account of those that fail; a line of the log once. Formats: requests, menus,
  frames, dates and records read back, and so does the handle that a Win32 handler process is given.
  Settings: well-formed from the first settings through the file, the command line and SIGHUP (or
  CTRL+BREAK) to every handler. Bounds: the buffers of \<^verbatim>\<open>sanitize_path\<close>, \<^verbatim>\<open>write_log\<close>, the
  address and the record; a record of the Win32 build fits the buffer of the process that reads it. The log: senders and
  logger together refine a queue, exclude each other, and drain it when the logger is woken. Errors: what
  fails and how, some of it not what the code intends (a full pipe, a lost wake-up, an empty
  directory, an empty file, the selector \<^verbatim>\<open>..\<close>, a block moved by \<^verbatim>\<open>realloc\<close>, a local variable
  freed by mp.c, a log without memory).

  \<^bold>\<open>Termination.\<close> A loop makes at least one call per round, and a world has a budget of calls, so a
  run that goes on forever is a run that is \<open>Blocked\<close> for every budget; the loop of the model has the
  budget as its fuel (\<open>fuel_enough\<close> in Effects: more fuel changes nothing). A property of all runs thus
  holds at every moment of an endless run. That a function does end is a bound on its calls: then it is not \<open>Blocked\<close>
  when the budget is larger (\<open>within_ends\<close> in Progress). Such a bound counts what comes from outside, because nothing
  else limits the loops of the code: \<open>granted\<close> in Bounded and \<open>granted_win32\<close> in Win_Bounded say how many calls
  each event is worth (an entry of a directory eight, a byte of the file one, a record off the counter of the logger
  seven). A failed call grants nothing, but for those after which the code tries again: \<^verbatim>\<open>recv\<close> with nothing to read
  (\<^verbatim>\<open>EWOULDBLOCK\<close>), \<^verbatim>\<open>select\<close> with \<^verbatim>\<open>EINTR\<close>; and a \<^verbatim>\<open>read\<close> or \<^verbatim>\<open>send\<close> of 0 bytes where the code repeats it. Nothing in the
  code limits the first and the last of these. Apart
  from the grants a request takes at most 4125 calls, reading the configuration two, and \<^verbatim>\<open>main\<close> a hundred.

  \<^bold>\<open>Concurrency.\<close> A trace belongs to one process. A thread is started with the event that carries
  its arguments and has its own program and theorems; only the log protocol is interleaved, in
  Log_Queue, for runs in which the calls of the protocol succeed; \<^verbatim>\<open>fork\<close> replies 0 in a run that goes on as
  the child. The signals of the server, and the console events of Windows, arrive as the reply to the pseudo call
  \<open>Signals\<close> at the head of a round of its loop; Windows runs the handler in a thread of its own, and a \<^verbatim>\<open>select\<close> on the
  socket that it has closed fails, which is one of the replies.

  \<^bold>\<open>Not modelled.\<close> The header exported.h (declarations only); the \<^verbatim>\<open>printf\<close> of the counter in
  \<^verbatim>\<open>log_management\<close>; a signal inside a forked child, and a signal or console event while the server is
  not waiting. System calls are replies, with the documented bounds only. Memory is modelled where a buffer's contents
  or bounds matter, and as allocation events elsewhere.
\<close>

end
